(* ===== verification/Prelude.thy ===== *)
theory Prelude
  imports Main "HOL-Library.Word" "HOL-Library.List_Lexorder" "HOL-Library.Multiset"
begin

text \<open>
  Shared vocabulary of the development.

  Rust \<open>u8\<close> is \<open>8 word\<close>; byte buffers and Rust strings are byte lists (a Rust string is its
  UTF-8 code units, which is what \<open>as_bytes\<close>, \<open>len\<close>, comparison and ASCII searches see). Sizes
  and file offsets (\<open>u64\<close>, \<open>usize\<close> on a 64-bit target) are \<open>nat\<close>, with every overflow check of
  the code written out against \<open>2 ^ 64\<close>; values that are shifted and masked keep their word
  width. A Rust \<open>Result\<close> is a sum, \<open>Inl\<close> the error.
\<close>

section \<open>Types\<close>

type_synonym byte = "8 word"
type_synonym bytes = "byte list"
type_synonym rstr = "byte list"

named_theorems wire "evaluation of the big-endian wire encodings"
named_theorems limits "the numeric limits of the program"

section \<open>Literals and slices\<close>

definition lit :: "string \<Rightarrow> rstr" where
  "lit s = map of_char s"

lemma length_lit [simp]: "length (lit s) = length s"
  by (simp add: lit_def)

definition slice :: "'a list \<Rightarrow> nat \<Rightarrow> nat \<Rightarrow> 'a list" where
  "slice xs a b = take (b - a) (drop a xs)"

lemma length_slice [simp]: "length (slice xs a b) = min (b - a) (length xs - a)"
  by (simp add: slice_def min.commute)

lemma slice_append_mid:
  "length xs = a \<Longrightarrow> length ys = b - a \<Longrightarrow> slice (xs @ ys @ zs) a b = ys"
  by (simp add: slice_def)

lemma slice_append_left: "b \<le> length xs \<Longrightarrow> slice (xs @ ys) a b = slice xs a b"
  by (simp add: slice_def)

lemma slice_append_right:
  "length xs \<le> a \<Longrightarrow> slice (xs @ ys) a b = slice ys (a - length xs) (b - length xs)"
  by (auto simp: slice_def)

lemma slice_slice: "a \<le> b \<Longrightarrow> x + b \<le> y \<Longrightarrow> slice (slice xs x y) a b = slice xs (x + a) (x + b)"
  by (simp add: slice_def take_drop min_def add.commute)

lemma slice_full [simp]: "slice xs 0 (length xs) = xs"
  by (simp add: slice_def)

lemma slice_snoc:
  "a \<le> b \<Longrightarrow> b < length xs \<Longrightarrow> slice xs a (Suc b) = slice xs a b @ [xs ! b]"
  by (simp add: slice_def Suc_diff_le take_Suc_conv_app_nth)

lemma slice_join:
  assumes "a \<le> b" and "b \<le> c"
  shows "slice xs a b @ slice xs b c = slice xs a c"
proof -
  obtain i j where "b = a + i" "c = a + i + j"
    using assms by (metis le_iff_add)
  then show ?thesis
    by (simp add: slice_def take_add add.commute)
qed

lemma slice_empty [simp]: "b \<le> a \<Longrightarrow> slice xs a b = []"
  by (simp add: slice_def)

section \<open>Machine arithmetic\<close>

text \<open>\<open>u64::checked_add\<close> and \<open>u64::checked_mul\<close> on values below \<open>2 ^ 64\<close>.\<close>

definition u64_limit :: nat where
  "u64_limit = 2 ^ 64"

definition checked_add :: "nat \<Rightarrow> nat \<Rightarrow> nat option" where
  "checked_add a b = (if a + b < u64_limit then Some (a + b) else None)"

definition checked_mul :: "nat \<Rightarrow> nat \<Rightarrow> nat option" where
  "checked_mul a b = (if a * b < u64_limit then Some (a * b) else None)"

lemma checked_add_eq_Some [simp]: "checked_add a b = Some c \<longleftrightarrow> c = a + b \<and> a + b < u64_limit"
  by (auto simp: checked_add_def)

lemma checked_add_eq_None [simp]: "checked_add a b = None \<longleftrightarrow> u64_limit \<le> a + b"
  by (auto simp: checked_add_def)

lemma checked_mul_eq_Some [simp]: "checked_mul a b = Some c \<longleftrightarrow> c = a * b \<and> a * b < u64_limit"
  by (auto simp: checked_mul_def)

lemma checked_mul_eq_None [simp]: "checked_mul a b = None \<longleftrightarrow> u64_limit \<le> a * b"
  by (auto simp: checked_mul_def)

section \<open>Big-endian integers\<close>

fun be_bytes :: "nat \<Rightarrow> nat \<Rightarrow> bytes" where
  "be_bytes 0 n = []"
| "be_bytes (Suc k) n = word_of_nat (n div 256 ^ k) # be_bytes k n"

definition rd_be :: "bytes \<Rightarrow> nat" where
  "rd_be bs = foldl (\<lambda>a b. a * 256 + unat b) 0 bs"

lemma length_be_bytes [simp]: "length (be_bytes k n) = k"
  by (induction k) auto

lemma rd_be_foldl:
  "foldl (\<lambda>a (b::byte). a * 256 + unat b) acc bs = acc * 256 ^ length bs + rd_be bs"
proof (induction bs arbitrary: acc)
  case Nil
  then show ?case by (simp add: rd_be_def)
next
  case (Cons b bs)
  show ?case
    by (simp add: rd_be_def)
      (simp only: Cons.IH [of "acc * 256 + unat b"] Cons.IH [of "unat b"] ring_distribs power_Suc
         mult.assoc add.assoc)
qed

lemma rd_be_Nil [simp]: "rd_be [] = 0"
  by (simp add: rd_be_def)

lemma rd_be_Cons: "rd_be (b # bs) = unat b * 256 ^ length bs + rd_be bs"
  using rd_be_foldl [of "unat b" bs] by (simp add: rd_be_def)

lemma rd_be_less: "rd_be bs < 256 ^ length bs"
proof (induction bs)
  case Nil
  then show ?case by simp
next
  case (Cons b bs)
  have "unat b \<le> 255"
    using unsigned_less [of b, where 'a = nat] by simp
  then have m: "unat b * 256 ^ length bs \<le> 255 * 256 ^ length bs"
    by (rule mult_le_mono1)
  have "rd_be (b # bs) < 255 * 256 ^ length bs + 256 ^ length bs"
    unfolding rd_be_Cons using m Cons.IH by (rule add_le_less_mono)
  then show ?case
    by simp
qed

lemma rd_be_be_bytes [wire]: "rd_be (be_bytes k n) = n mod 256 ^ k"
proof (induction k)
  case 0
  then show ?case by simp
next
  case (Suc k)
  have "n mod 256 ^ Suc k = 256 ^ k * (n div 256 ^ k mod 256) + n mod 256 ^ k"
    using mod_mult2_eq [of n "256 ^ k" 256] by (simp add: mult.commute)
  then show ?case
    by (simp add: rd_be_Cons Suc.IH unat_of_nat take_bit_eq_mod mult.commute)
qed

lemma be_bytes_inj: "be_bytes k m = be_bytes k n \<Longrightarrow> m < 256 ^ k \<Longrightarrow> n < 256 ^ k \<Longrightarrow> m = n"
  by (metis mod_less rd_be_be_bytes)

section \<open>Little-endian integers\<close>

definition rd_le :: "bytes \<Rightarrow> nat" where
  "rd_le bs = rd_be (rev bs)"

lemma rd_le_less: "rd_le bs < 256 ^ length bs"
  using rd_be_less [of "rev bs"] by (simp add: rd_le_def)

section \<open>UTF-8\<close>

text \<open>\<open>core::str::from_utf8\<close>: the well-formed byte sequences of the Unicode standard.\<close>

definition utf8_cont :: "byte \<Rightarrow> bool" where
  "utf8_cont c \<longleftrightarrow> 128 \<le> unat c \<and> unat c \<le> 191"

fun utf8_valid :: "bytes \<Rightarrow> bool" where
  "utf8_valid [] = True"
| "utf8_valid (b # bs) =
     (if unat b < 128 then utf8_valid bs
      else if 194 \<le> unat b \<and> unat b \<le> 223 then
        (case bs of c1 # r \<Rightarrow> utf8_cont c1 \<and> utf8_valid r | _ \<Rightarrow> False)
      else if 224 \<le> unat b \<and> unat b \<le> 239 then
        (case bs of c1 # c2 # r \<Rightarrow>
            (if b = 224 then 160 \<le> unat c1 \<and> unat c1 \<le> 191
             else if b = 237 then 128 \<le> unat c1 \<and> unat c1 \<le> 159
             else utf8_cont c1) \<and> utf8_cont c2 \<and> utf8_valid r
         | _ \<Rightarrow> False)
      else if 240 \<le> unat b \<and> unat b \<le> 244 then
        (case bs of c1 # c2 # c3 # r \<Rightarrow>
            (if b = 240 then 144 \<le> unat c1 \<and> unat c1 \<le> 191
             else if b = 244 then 128 \<le> unat c1 \<and> unat c1 \<le> 143
             else utf8_cont c1) \<and> utf8_cont c2 \<and> utf8_cont c3 \<and> utf8_valid r
         | _ \<Rightarrow> False)
      else False)"

lemma utf8_valid_ascii: "\<forall>b\<in>set bs. unat b < 128 \<Longrightarrow> utf8_valid bs"
  by (induction bs) auto

section \<open>Decimal rendering\<close>

text \<open>\<open>to_string\<close> of an unsigned integer.\<close>

fun show_nat :: "nat \<Rightarrow> rstr" where
  "show_nat n = (if n < 10 then [word_of_nat (48 + n)]
                 else show_nat (n div 10) @ [word_of_nat (48 + n mod 10)])"

declare show_nat.simps [simp del]

section \<open>Stable sorting by key\<close>

lemma insort_key_map: "map f (insort_key (\<lambda>x. g (f x)) x xs) = insort_key g (f x) (map f xs)"
  by (induction xs) auto

lemma sort_key_map: "map f (sort_key (\<lambda>x. g (f x)) xs) = sort_key g (map f xs)"
  by (induction xs) (simp_all add: insort_key_map)

end
