(* ===== verification/Errors.thy ===== *)
theory Errors
  imports Prelude
begin

text \<open>
  The error taxonomy (\<open>src/error.rs\<close>), the reasons a package path is rejected
  (\<open>PathReason\<close>, \<open>PathError\<close> of \<open>src/format/path.rs\<close>) and the resource budgets for untrusted
  input (\<open>src/limits.rs\<close>). Error details are the strings the code builds.
\<close>

section \<open>Errors\<close>

datatype path_reason =
    Empty | TooLong | Absolute | Backslash | Colon | Control
  | EmptySegment | DotSegment | ParentSegment | TrailingSeparator

record path_error =
  pe_path :: rstr
  pe_reason :: path_reason

datatype error =
    Invalid rstr
  | Json rstr
  | Version rstr nat
  | Io rstr
  | Checksum rstr rstr rstr
  | Missing rstr
  | Path path_error
  | Unsupported rstr

abbreviation invalid :: "string \<Rightarrow> error" where
  "invalid s \<equiv> Invalid (lit s)"

section \<open>Budgets\<close>

definition MANIFEST_MAX_BYTES :: nat where "MANIFEST_MAX_BYTES = 16 * 1024 * 1024"
definition JSON_MAX_DEPTH :: nat where "JSON_MAX_DEPTH = 1000"
definition MAX_REFERENCED_ASSETS :: nat where "MAX_REFERENCED_ASSETS = 4096"
definition MAX_FILE_BYTES :: nat where "MAX_FILE_BYTES = 8 * 1024 * 1024 * 1024"
definition MAX_TOTAL_BYTES :: nat where "MAX_TOTAL_BYTES = 64 * 1024 * 1024 * 1024"
definition PATH_MAX_BYTES :: nat where "PATH_MAX_BYTES = 4096"

declare MANIFEST_MAX_BYTES_def [limits] JSON_MAX_DEPTH_def [limits]
  MAX_REFERENCED_ASSETS_def [limits] MAX_FILE_BYTES_def [limits]
  MAX_TOTAL_BYTES_def [limits] PATH_MAX_BYTES_def [limits] u64_limit_def [limits]

end
