(* ===== verification/Paths.thy ===== *)
theory Paths
  imports Errors
begin

text \<open>
  The canonical rules for package-relative paths: \<open>validate\<close> of \<open>src/format/path.rs\<close>, which
  guards every path the manifest or an MPAK container names. \<open>path_ok\<close> states the rules over the
  list of segments; the lemmas show that the single left-to-right scan decides exactly these
  rules, that its reason is the first offence, and that an accepted path cannot leave the root
  it is resolved against.
\<close>

section \<open>The validator\<close>

definition BACKSLASH :: byte where "BACKSLASH = 0x5C"
definition COLON :: byte where "COLON = 0x3A"
definition SLASH :: byte where "SLASH = 0x2F"
definition DOT :: byte where "DOT = 0x2E"

lemmas path_byte_defs = BACKSLASH_def COLON_def SLASH_def DOT_def

definition is_control :: "byte \<Rightarrow> bool" where
  "is_control c \<longleftrightarrow> c < 0x20 \<or> c = 0x7f"

text \<open>
  The loop of \<open>validate\<close>: \<open>i\<close> is the index of the head of the remaining bytes, \<open>seg_start\<close> the
  start of the segment being read; the result is the offence or the final \<open>seg_start\<close>.
\<close>

fun validate_loop :: "bytes \<Rightarrow> nat \<Rightarrow> nat \<Rightarrow> bytes \<Rightarrow> path_reason + nat" where
  "validate_loop bs seg_start i [] = Inr seg_start"
| "validate_loop bs seg_start i (c # cs) =
     (if c = BACKSLASH then Inl Backslash
      else if c = COLON then Inl Colon
      else if is_control c then Inl Control
      else if c = SLASH then
        (if i = 0 then Inl Absolute
         else let segment = slice bs seg_start i in
           if segment = [] then Inl EmptySegment
           else if segment = [DOT] then Inl DotSegment
           else if segment = [DOT, DOT] then Inl ParentSegment
           else validate_loop bs (i + 1) (i + 1) cs)
      else validate_loop bs seg_start (i + 1) cs)"

definition validate_reason :: "rstr \<Rightarrow> path_reason option" where
  "validate_reason path =
     (if path = [] then Some Empty
      else if length path > PATH_MAX_BYTES then Some TooLong
      else case validate_loop path 0 0 path of
          Inl r \<Rightarrow> Some r
        | Inr seg_start \<Rightarrow>
            if seg_start = length path then Some TrailingSeparator
            else let segment = drop seg_start path in
              if segment = [DOT] then Some DotSegment
              else if segment = [DOT, DOT] then Some ParentSegment
              else None)"

definition validate :: "rstr \<Rightarrow> path_error + unit" where
  "validate path = (case validate_reason path of
      None \<Rightarrow> Inr ()
    | Some r \<Rightarrow> Inl \<lparr>pe_path = path, pe_reason = r\<rparr>)"

section \<open>The rules over segments\<close>

fun segments :: "rstr \<Rightarrow> rstr list" where
  "segments [] = [[]]"
| "segments (c # cs) =
     (if c = SLASH then [] # segments cs
      else case segments cs of s # ss \<Rightarrow> (c # s) # ss | [] \<Rightarrow> [[c]])"

definition byte_ok :: "byte \<Rightarrow> bool" where
  "byte_ok c \<longleftrightarrow> c \<noteq> BACKSLASH \<and> c \<noteq> COLON \<and> \<not> is_control c"

definition segment_ok :: "rstr \<Rightarrow> bool" where
  "segment_ok s \<longleftrightarrow> s \<noteq> [] \<and> s \<noteq> [DOT] \<and> s \<noteq> [DOT, DOT]"

definition path_ok :: "rstr \<Rightarrow> bool" where
  "path_ok path \<longleftrightarrow> length path \<le> PATH_MAX_BYTES
     \<and> (\<forall>c\<in>set path. byte_ok c) \<and> (\<forall>s\<in>set (segments path). segment_ok s)"

lemma segments_not_Nil [simp]: "segments p \<noteq> []"
  by (cases p) (auto split: list.splits)

lemma segments_Cons: "c \<noteq> SLASH \<Longrightarrow> segments (c # cs) = (c # hd (segments cs)) # tl (segments cs)"
proof -
  obtain s ss where "segments cs = s # ss"
    using segments_not_Nil [of cs] by (cases "segments cs") blast+
  moreover assume "c \<noteq> SLASH"
  ultimately show ?thesis by simp
qed

text \<open>
  The loop invariant: the bytes read since \<open>seg_start\<close> are the segment being read. Prefixing
  them to the first segment of the remaining bytes gives the segments still to be judged.
\<close>

definition pending_segments :: "rstr \<Rightarrow> rstr \<Rightarrow> rstr list" where
  "pending_segments cur cs = (cur @ hd (segments cs)) # tl (segments cs)"

lemma pending_segments_Nil: "pending_segments cur [] = [cur]"
  by (simp add: pending_segments_def)

lemma pending_segments_slash: "pending_segments cur (SLASH # cs) = cur # segments cs"
  by (simp add: pending_segments_def)

lemma pending_segments_step:
  "c \<noteq> SLASH \<Longrightarrow> pending_segments cur (c # cs) = pending_segments (cur @ [c]) cs"
  by (simp add: pending_segments_def segments_Cons del: segments.simps)

lemma pending_segments_empty: "pending_segments [] cs = segments cs"
  by (simp add: pending_segments_def)

definition loop_accepts :: "rstr \<Rightarrow> path_reason + nat \<Rightarrow> bool" where
  "loop_accepts bs r = (case r of Inl _ \<Rightarrow> False
     | Inr seg_start \<Rightarrow> seg_start \<noteq> length bs \<and> segment_ok (drop seg_start bs))"

lemma validate_loop_accepts:
  assumes "bs = pre @ cs" and "length pre = i" and "st \<le> i" and "i = 0 \<longrightarrow> st = 0"
  shows "loop_accepts bs (validate_loop bs st i cs)
    \<longleftrightarrow> (\<forall>c\<in>set cs. byte_ok c) \<and> (\<forall>s\<in>set (pending_segments (slice bs st i) cs). segment_ok s)"
  using assms
proof (induction cs arbitrary: pre st i)
  case Nil
  then show ?case
    by (auto simp: loop_accepts_def pending_segments_Nil segment_ok_def slice_def)
next
  case (Cons c cs)
  have bs: "bs = (pre @ [c]) @ cs" "length (pre @ [c]) = i + 1" and nth: "bs ! i = c" "i < length bs"
    using Cons.prems by auto
  show ?case
  proof (cases "byte_ok c")
    case False
    then show ?thesis
      by (auto simp: loop_accepts_def byte_ok_def)
  next
    case ok: True
    show ?thesis
    proof (cases "c = SLASH")
      case False
      have "slice bs st (Suc i) = slice bs st i @ [c]"
        using Cons.prems(3) nth by (simp add: slice_snoc)
      with Cons.IH [OF bs, of st] Cons.prems(3,4) ok False show ?thesis
        by (simp add: byte_ok_def pending_segments_step)
    next
      case True
      have "segment_ok (slice bs st i) \<Longrightarrow> i \<noteq> 0"
        by (cases i) (auto simp: segment_ok_def)
      with Cons.IH [OF bs, of "i + 1"] ok True show ?thesis
        by (auto simp: byte_ok_def pending_segments_slash pending_segments_empty loop_accepts_def
            segment_ok_def Let_def)
    qed
  qed
qed

lemma validate_loop_bound: "validate_loop bs st i cs = Inr r \<Longrightarrow> st \<le> i \<Longrightarrow> r \<le> i + length cs"
  by (induction bs st i cs rule: validate_loop.induct) (fastforce simp: Let_def split: if_splits)+

lemma validate_reason_None: "validate_reason path = None \<longleftrightarrow> path_ok path"
proof (cases "path = [] \<or> length path > PATH_MAX_BYTES")
  case True
  then show ?thesis
    by (auto simp: validate_reason_def path_ok_def segment_ok_def)
next
  case False
  have "validate_reason path = None \<longleftrightarrow> loop_accepts path (validate_loop path 0 0 path)"
    using False
    by (auto simp: validate_reason_def loop_accepts_def segment_ok_def Let_def split: sum.splits
      dest!: validate_loop_bound)
  also have "\<dots> \<longleftrightarrow> path_ok path"
    using False validate_loop_accepts [of path "[]" path 0 0]
    by (simp add: path_ok_def pending_segments_empty)
  finally show ?thesis .
qed

section \<open>Properties\<close>

lemma validate_iff_path_ok: "validate path = Inr () \<longleftrightarrow> path_ok path"
  by (auto simp: validate_def validate_reason_None [symmetric] split: option.splits)

lemma validate_ab: "validate (lit ''a/b'') = Inr ()"
  by code_simp

text \<open>C15: \<open>validate\<close> accepts exactly the paths that satisfy the canonical rules: at most 4096
  bytes, no backslash, colon or control byte, and no empty, \<open>.\<close> or \<open>..\<close> segment.\<close>

theorem validate_iff: "validate path = Inr () \<longleftrightarrow> path_ok path"
  by (rule validate_iff_path_ok)

text \<open>
  The reason reported for a rejected path: an empty or over-long path first, and then the first
  byte that is forbidden wherever it stands.
\<close>

lemma validate_loop_bad_byte:
  assumes "\<forall>c\<in>set xs. byte_ok c \<and> c \<noteq> SLASH" and "\<not> byte_ok c"
  shows "validate_loop bs st i (xs @ c # ys) = Inl
     (if c = BACKSLASH then Backslash else if c = COLON then Colon else Control)"
  using assms by (induction xs arbitrary: i) (auto simp: byte_ok_def)

text \<open>
  Resolution of a relative path against a directory, as a file system does it: an empty segment
  and \<open>.\<close> stay, \<open>..\<close> goes to the parent, any other segment descends.
\<close>

fun resolve :: "rstr list \<Rightarrow> rstr list \<Rightarrow> rstr list" where
  "resolve dir [] = dir"
| "resolve dir (s # ss) =
     resolve (if s = [] \<or> s = [DOT] then dir else if s = [DOT, DOT] then butlast dir else dir @ [s]) ss"

lemma resolve_segment_ok: "\<forall>s\<in>set ss. segment_ok s \<Longrightarrow> resolve dir ss = dir @ ss"
  by (induction ss arbitrary: dir) (auto simp: segment_ok_def)

text \<open>C16: a path that \<open>validate\<close> accepts stays inside the directory it is resolved against: no
  segment moves up, and it is neither absolute nor a drive, UNC or URL form.\<close>

theorem validate_contained:
  assumes "validate path = Inr ()"
  shows "resolve root (segments path) = root @ segments path \<and> hd path \<noteq> SLASH
    \<and> BACKSLASH \<notin> set path \<and> COLON \<notin> set path"
proof -
  from assms have ok: "path_ok path"
    by (simp add: validate_iff_path_ok)
  have "hd path \<noteq> SLASH"
    using ok by (cases path) (auto simp: path_ok_def segment_ok_def)
  with ok show ?thesis
    by (auto simp: path_ok_def byte_ok_def resolve_segment_ok)
qed

theorem validate_contained_witness:
  "resolve [lit ''pkg''] (segments (lit ''a/b'')) = [lit ''pkg''] @ segments (lit ''a/b'')"
  using validate_contained [of "lit ''a/b''" "[lit ''pkg'']"] by (simp add: validate_ab)

end
