(* ===== verification/Checksums.thy ===== *)
theory Checksums
  imports Errors
begin

text \<open>
  Digest declarations (\<open>src/format/checksum.rs\<close>): the 64-character lowercase hexadecimal form,
  its rendering and its parser, and the streaming digest. SHA-256 itself is the external \<open>sha2\<close>
  crate: a parameter \<open>sha256\<close> of the definitions that digest, of which the code relies on the
  32-byte output and on incremental updates hashing the concatenation of the chunks.
\<close>

unbundle bit_operations_syntax

definition DIGEST_LEN :: nat where "DIGEST_LEN = 32"
definition HEX_LEN :: nat where "HEX_LEN = 64"

declare DIGEST_LEN_def [limits] HEX_LEN_def [limits]

definition is_lower_hex :: "byte \<Rightarrow> bool" where
  "is_lower_hex b \<longleftrightarrow> (0x30 \<le> b \<and> b \<le> 0x39) \<or> (0x61 \<le> b \<and> b \<le> 0x66)"

definition is_valid_sha256_hex :: "rstr \<Rightarrow> bool" where
  "is_valid_sha256_hex s \<longleftrightarrow> length s = HEX_LEN \<and> list_all is_lower_hex s"

definition HEX :: bytes where
  "HEX = lit ''0123456789abcdef''"

definition to_hex :: "bytes \<Rightarrow> rstr" where
  "to_hex digest = concat (map (\<lambda>b. [HEX ! unat (drop_bit 4 b), HEX ! unat (b AND 0x0f)]) digest)"

definition sha256_hex :: "(bytes \<Rightarrow> bytes) \<Rightarrow> bytes \<Rightarrow> rstr" where
  "sha256_hex sha256 data = to_hex (sha256 data)"

definition nibble :: "byte \<Rightarrow> byte" where
  "nibble b = (if 0x30 \<le> b \<and> b \<le> 0x39 then b - 0x30 else b - 0x61 + 10)"

definition sha256_hex_to_bytes :: "rstr \<Rightarrow> bytes option" where
  "sha256_hex_to_bytes hex =
     (if \<not> is_valid_sha256_hex hex then None
      else Some (map (\<lambda>i. push_bit 4 (nibble (hex ! (i * 2))) OR nibble (hex ! (i * 2 + 1)))
             [0..<DIGEST_LEN]))"

definition hex_eq :: "rstr \<Rightarrow> rstr \<Rightarrow> bool" where
  "hex_eq a b \<longleftrightarrow> length a = length b \<and> a = b"

text \<open>
  \<open>sha256_reader\<close>: the chunks a reader yields until an empty read or a failure. A reader is the
  list of its read results.
\<close>

type_synonym read_results = "(rstr + bytes) list"

fun read_all :: "bytes \<Rightarrow> read_results \<Rightarrow> rstr + bytes" where
  "read_all acc [] = Inr acc"
| "read_all acc (Inl e # rs) = Inl e"
| "read_all acc (Inr c # rs) = (if c = [] then Inr acc else read_all (acc @ c) rs)"

definition sha256_reader :: "(bytes \<Rightarrow> bytes) \<Rightarrow> read_results \<Rightarrow> rstr + bytes" where
  "sha256_reader sha256 rs = (case read_all [] rs of Inl e \<Rightarrow> Inl e | Inr d \<Rightarrow> Inr (sha256 d))"

section \<open>Hexadecimal round trips\<close>

lemma hex_digits: "\<forall>n\<in>set [0..<16]. is_lower_hex (HEX ! n) \<and> nibble (HEX ! n) = word_of_nat n"
  by (simp add: upt_rec HEX_def lit_def is_lower_hex_def nibble_def)

lemma is_lower_hex_HEX: "n < 16 \<Longrightarrow> is_lower_hex (HEX ! n)"
  and nibble_HEX: "n < 16 \<Longrightarrow> nibble (HEX ! n) = word_of_nat n"
  using hex_digits by simp_all

lemma high_nibble_less: "unat (drop_bit 4 (b :: byte)) < 16"
proof -
  have b: "unat b < 256"
    using unsigned_less [of b, where 'a = nat] by simp
  then have "unat (drop_bit 4 b) = unat b div 16"
    by (simp only: unsigned_drop_bit_eq) (simp add: drop_bit_eq_div take_bit_eq_mod)
  with b show ?thesis by simp
qed

lemma low_nibble_less: "unat (b AND (0x0f :: byte)) < 16"
proof -
  have "unat (b AND (0x0f :: byte)) \<le> unat (0x0f :: byte)"
    by (rule word_and_le1 [THEN word_le_nat_alt [THEN iffD1]])
  then show ?thesis by simp
qed

lemma nibbles_join: "push_bit 4 (drop_bit 4 b) OR (b AND 0x0f) = (b :: byte)"
proof -
  have "b AND 0x0f = take_bit 4 b"
    by (simp add: take_bit_eq_mask mask_eq_exp_minus_1)
  then show ?thesis
    by (simp add: bit_eq_iff bit_simps) (auto simp: bit_simps)
qed

lemma length_to_hex [simp]: "length (to_hex d) = 2 * length d"
  by (induction d) (auto simp: to_hex_def)

lemma to_hex_nth:
  assumes "i < length d"
  shows "to_hex d ! (i * 2) = HEX ! unat (drop_bit 4 (d ! i))"
    and "to_hex d ! Suc (i * 2) = HEX ! unat (d ! i AND 0x0f)"
  using assms
proof (induction d arbitrary: i)
  case Nil
  {
    case 1
    then show ?case by simp
  next
    case 2
    then show ?case by simp
  }
next
  case (Cons b d)
  {
    case 1
    then show ?case by (cases i) (use Cons.IH(1) in \<open>auto simp: to_hex_def\<close>)
  next
    case 2
    then show ?case by (cases i) (use Cons.IH(2) in \<open>auto simp: to_hex_def\<close>)
  }
qed

lemma is_valid_to_hex: "length d = DIGEST_LEN \<Longrightarrow> is_valid_sha256_hex (to_hex d)"
  by (auto simp: is_valid_sha256_hex_def HEX_LEN_def DIGEST_LEN_def list_all_iff)
    (auto simp: to_hex_def intro!: is_lower_hex_HEX high_nibble_less low_nibble_less)

lemma to_hex_decode:
  assumes "length d = DIGEST_LEN"
  shows "sha256_hex_to_bytes (to_hex d) = Some d"
proof -
  have "push_bit 4 (nibble (to_hex d ! (i * 2))) OR nibble (to_hex d ! Suc (i * 2)) = d ! i"
    if "i < length d" for i
    using that by (simp add: to_hex_nth nibble_HEX high_nibble_less low_nibble_less nibbles_join)
  with assms show ?thesis
    by (auto simp: sha256_hex_to_bytes_def is_valid_to_hex intro!: nth_equalityI)
qed

lemma read_all_chunks:
  "\<forall>c\<in>set cs. c \<noteq> [] \<Longrightarrow> read_all acc (map Inr cs) = Inr (acc @ concat cs)"
  by (induction cs arbitrary: acc) auto

lemma sha256_hex_to_bytes_length: "sha256_hex_to_bytes h = Some d \<Longrightarrow> length d = DIGEST_LEN"
  by (auto simp: sha256_hex_to_bytes_def split: if_splits)

lemma lower_hex_digit: "is_lower_hex b \<Longrightarrow> \<exists>n<16. b = HEX ! n"
proof -
  assume hex: "is_lower_hex b"
  have "\<forall>k\<in>set ([48..<58] @ [97..<103]). (word_of_nat k :: byte) \<in> set HEX"
    by (simp add: upt_rec HEX_def lit_def)
  moreover have "unat b \<in> set ([48..<58] @ [97..<103])"
    using hex unfolding is_lower_hex_def word_le_nat_alt set_append set_upt Un_iff atLeastLessThan_iff
    by auto
  ultimately have "word_of_nat (unat b) \<in> set HEX"
    by blast
  then have "b \<in> set HEX" by simp
  then obtain n where "n < length HEX" "b = HEX ! n"
    by (metis in_set_conv_nth)
  then show ?thesis
    by (intro exI [of _ n]) (simp add: HEX_def lit_def)
qed

lemma nibbles_split:
  assumes "m < 16" and "n < 16"
  shows "drop_bit 4 (push_bit 4 (word_of_nat m :: byte) OR word_of_nat n) = word_of_nat m"
    and "(push_bit 4 (word_of_nat m :: byte) OR word_of_nat n) AND 0x0f = word_of_nat n"
proof -
  have "\<forall>m\<in>{0..<16::nat}. \<forall>n\<in>{0..<16::nat}.
      drop_bit 4 (push_bit 4 (word_of_nat m :: byte) OR word_of_nat n) = word_of_nat m
      \<and> (push_bit 4 (word_of_nat m :: byte) OR word_of_nat n) AND 0x0f = word_of_nat n"
    by code_simp
  with assms show "drop_bit 4 (push_bit 4 (word_of_nat m :: byte) OR word_of_nat n) = word_of_nat m"
    and "(push_bit 4 (word_of_nat m :: byte) OR word_of_nat n) AND 0x0f = word_of_nat n"
    by auto
qed

lemma decode_to_hex:
  assumes "sha256_hex_to_bytes h = Some d"
  shows "to_hex d = h"
proof -
  have h: "length h = 64" "\<forall>k<64. is_lower_hex (h ! k)"
    and d: "d = map (\<lambda>i. push_bit 4 (nibble (h ! (i * 2))) OR nibble (h ! (i * 2 + 1))) [0..<32]"
    using assms by (auto simp: sha256_hex_to_bytes_def is_valid_sha256_hex_def list_all_length limits
        split: if_splits)
  have pair: "to_hex d ! (i * 2) = h ! (i * 2) \<and> to_hex d ! Suc (i * 2) = h ! Suc (i * 2)" if i: "i < 32" for i
  proof -
    obtain m n where mn: "m < 16" "h ! (i * 2) = HEX ! m" "n < 16" "h ! Suc (i * 2) = HEX ! n"
    proof -
      have "is_lower_hex (h ! (i * 2))" "is_lower_hex (h ! Suc (i * 2))"
        using i h(2) by simp_all
      then obtain m n where "m < 16" "h ! (i * 2) = HEX ! m" "n < 16" "h ! Suc (i * 2) = HEX ! n"
        using lower_hex_digit by meson
      then show thesis
        by (rule that)
    qed
    then have di: "d ! i = push_bit 4 (word_of_nat m) OR word_of_nat n"
      using i by (simp add: d nibble_HEX)
    have l: "i < length d" using i by (simp add: d)
    show ?thesis
      unfolding to_hex_nth [OF l] di nibbles_split [OF mn(1,3)]
      using mn by (simp add: unat_of_nat take_bit_eq_mod)
  qed
  show ?thesis
  proof (rule nth_equalityI)
    show "length (to_hex d) = length h"
      by (simp add: h d)
    fix k assume "k < length (to_hex d)"
    then have "k div 2 < 32" by (simp add: d)
    from pair [OF this] show "to_hex d ! k = h ! k"
      by (cases "even k") (auto elim!: evenE oddE simp: mult.commute)
  qed
qed

text \<open>C17: The textual and the raw form of a digest are in bijection: a declaration decodes to \<open>d\<close>
  exactly when it is the rendering of the 32-byte digest \<open>d\<close>. Upper case, other lengths and other
  characters never decode, and decoding then rendering changes nothing.\<close>

theorem hex_digest_bijection:
  "sha256_hex_to_bytes h = Some d \<longleftrightarrow> length d = DIGEST_LEN \<and> h = to_hex d"
  using to_hex_decode [of d] decode_to_hex [of h d] sha256_hex_to_bytes_length [of h d] by blast

end
