(* ===== verification/Mpak_Format.thy ===== *)
theory Mpak_Format
  imports Paths Checksums
begin

text \<open>
  The MPAK v1 framing (\<open>src/format/mpak/mod.rs\<close>): constants, block types, the CRC-16 that guards
  every block header, the header encoder, and the \<open>ByteSource\<close> seam through which containers are
  read, with its in-memory implementation (\<open>MemorySource\<close> of \<open>read.rs\<close>).

  The lemmas show that the CRC update is injective in the register and in the byte, so a header
  with one corrupted byte never passes, and that the contract of \<open>ByteSource\<close> (locale
  \<open>exact_source\<close>) holds of \<open>MemorySource\<close>.
\<close>

section \<open>Constants\<close>

definition MAGIC :: bytes where "MAGIC = lit ''MPAK''"
definition MAJOR_VERSION :: byte where "MAJOR_VERSION = 1"
definition MINOR_VERSION :: byte where "MINOR_VERSION = 0"
definition HEADER_LEN :: nat where "HEADER_LEN = 16"
definition FLAG_INDX_PRESENT :: nat where "FLAG_INDX_PRESENT = 1"
definition BLOCK_HEADER_LEN :: nat where "BLOCK_HEADER_LEN = 14"
definition TAIL_PAYLOAD_LEN :: nat where "TAIL_PAYLOAD_LEN = 52"
definition MAX_BLOCK_LENGTH :: nat where "MAX_BLOCK_LENGTH = (2 ^ 64 - 1) div 2"
definition MAX_MEMBERS :: nat where "MAX_MEMBERS = 4096"
definition MAX_INDX_PAYLOAD :: nat where "MAX_INDX_PAYLOAD = 2 * MANIFEST_MAX_BYTES"
definition MAX_MANIFEST_LEN :: nat where "MAX_MANIFEST_LEN = MANIFEST_MAX_BYTES"

declare HEADER_LEN_def [limits] BLOCK_HEADER_LEN_def [limits] TAIL_PAYLOAD_LEN_def [limits]
  MAX_BLOCK_LENGTH_def [limits] MAX_MEMBERS_def [limits] MAX_INDX_PAYLOAD_def [limits]
  MAX_MANIFEST_LEN_def [limits]

section \<open>Block types\<close>

datatype block_type = Indx | Manf | Data | Tail

fun code :: "block_type \<Rightarrow> bytes" where
  "code Indx = lit ''INDX''"
| "code Manf = lit ''MANF''"
| "code Data = lit ''DATA''"
| "code Tail = lit ''TAIL''"

definition from_code :: "bytes \<Rightarrow> block_type option" where
  "from_code c =
     (if c = lit ''INDX'' then Some Indx
      else if c = lit ''MANF'' then Some Manf
      else if c = lit ''DATA'' then Some Data
      else if c = lit ''TAIL'' then Some Tail
      else None)"

definition is_private_code :: "bytes \<Rightarrow> bool" where
  "is_private_code c \<longleftrightarrow> list_ex (\<lambda>b. \<not> (0x41 \<le> b \<and> b \<le> 0x5A)) c"

lemma from_code_code: "from_code (code t) = Some t"
  by (cases t) (simp_all add: from_code_def lit_def)

lemma length_code [simp]: "length (code t) = 4"
  by (cases t) (simp_all add: lit_def)

section \<open>CRC-16/BUYPASS\<close>

definition crc16_step :: "16 word \<Rightarrow> 16 word" where
  "crc16_step crc =
     (let msb = crc AND 0x8000 \<noteq> 0; crc = push_bit 1 crc
      in if msb then crc XOR 0x8005 else crc)"

definition crc16_byte :: "16 word \<Rightarrow> byte \<Rightarrow> 16 word" where
  "crc16_byte crc b = (crc16_step ^^ 8) (crc XOR push_bit 8 (ucast b))"

definition crc16_buypass :: "bytes \<Rightarrow> 16 word" where
  "crc16_buypass bs = foldl crc16_byte 0xFFFF bs"

lemma crc16_vector: "crc16_buypass (lit ''1'') = 0x7DA7"
  by code_simp

section \<open>Wire integers and the block header\<close>

definition rd_u16 :: "bytes \<Rightarrow> nat" where "rd_u16 p = rd_be (take 2 p)"
definition rd_u32 :: "bytes \<Rightarrow> nat" where "rd_u32 p = rd_be (take 4 p)"
definition rd_u64 :: "bytes \<Rightarrow> nat" where "rd_u64 p = rd_be (take 8 p)"

definition block_header :: "bytes \<Rightarrow> nat \<Rightarrow> bytes" where
  "block_header block_type len =
     (let hdr = block_type @ be_bytes 8 len
      in hdr @ be_bytes 2 (unat (crc16_buypass hdr)))"

lemma length_block_header [simp]: "length ty = 4 \<Longrightarrow> length (block_header ty n) = 14"
  by (simp add: block_header_def Let_def)

section \<open>Byte sources\<close>

text \<open>
  \<open>ByteSource\<close>: a size and an exact read. A read is a function of the offset and the length of
  the output buffer.
\<close>

record byte_source =
  bs_size :: nat
  bs_read_at :: "nat \<Rightarrow> nat \<Rightarrow> rstr + bytes"

definition memory_source :: "bytes \<Rightarrow> byte_source" where
  "memory_source bs =
     \<lparr>bs_size = length bs,
      bs_read_at = (\<lambda>offset len. case checked_add offset len of
          None \<Rightarrow> Inl (lit ''read range overflow'')
        | Some end \<Rightarrow>
            if end > length bs then Inl (lit ''read past end of container'')
            else Inr (slice bs offset end))\<rparr>"

definition read_exact :: "byte_source \<Rightarrow> nat \<Rightarrow> nat \<Rightarrow> error + bytes" where
  "read_exact source offset len = (case bs_read_at source offset len of
      Inl e \<Rightarrow> Inl (Io e)
    | Inr out \<Rightarrow> Inr out)"

text \<open>
  The contract of \<open>read_at\<close>: an exact read of any range wholly inside the source, an error for
  any other range.
\<close>

locale exact_source =
  fixes src :: byte_source and content :: bytes
  assumes size_eq: "bs_size src = length content"
    and read_inside: "off + n < u64_limit \<Longrightarrow> off + n \<le> length content
      \<Longrightarrow> bs_read_at src off n = Inr (slice content off (off + n))"
    and read_outside: "off + n \<ge> u64_limit \<or> off + n > length content \<Longrightarrow> \<exists>e. bs_read_at src off n = Inl e"
begin

lemma read_exact_inside:
  "off + n < u64_limit \<Longrightarrow> off + n \<le> length content
    \<Longrightarrow> read_exact src off n = Inr (slice content off (off + n))"
  by (simp add: read_exact_def read_inside)

lemma read_exact_Inr:
  "read_exact src off n = Inr out \<longleftrightarrow>
     off + n < u64_limit \<and> off + n \<le> length content \<and> out = slice content off (off + n)"
  using read_inside [of off n] read_outside [of off n]
  by (cases "off + n < u64_limit \<and> off + n \<le> length content")
    (auto simp: read_exact_def not_less not_le)

end

interpretation memory: exact_source "memory_source bs" bs for bs
  by unfold_locales (auto simp: memory_source_def checked_add_def)

section \<open>What the CRC detects\<close>

lemma xor_cancel_right: "a XOR x = b XOR x \<longleftrightarrow> a = (b :: 'a::len word)"
  and xor_cancel_left: "x XOR a = x XOR b \<longleftrightarrow> a = (b :: 'a::len word)"
  by (auto simp: bit_eq_iff bit_xor_iff)

lemma bit_top_mask: "bit (0x8000 :: 16 word) k \<longleftrightarrow> k = 15"
proof -
  have "(0x8000 :: 16 word) = push_bit 15 1"
    by simp
  then show ?thesis
    by (simp only: bit_push_bit_iff bit_1_iff) auto
qed

lemma crc_msb: "c AND 0x8000 \<noteq> 0 \<longleftrightarrow> bit (c :: 16 word) 15"
proof -
  have "c AND 0x8000 = 0 \<longleftrightarrow> (\<forall>k. \<not> (bit c k \<and> k = 15))"
    unfolding bit_eq_iff [where 'a = "16 word"] bit_and_iff bit_top_mask
    by (auto dest: spec [of _ 15])
  then show ?thesis by auto
qed

lemma crc16_step_bits:
  "bit (crc16_step c) n \<longleftrightarrow> (0 < n \<and> n < 16 \<and> bit c (n - 1)) \<noteq> (bit c 15 \<and> bit (0x8005 :: 16 word) n)"
proof (cases "bit c 15")
  case True
  then show ?thesis
    by (simp only: crc16_step_def Let_def crc_msb if_True bit_xor_iff bit_push_bit_iff)
      (simp add: Suc_le_eq)
next
  case False
  then show ?thesis
    by (simp only: crc16_step_def Let_def crc_msb if_False bit_push_bit_iff) auto
qed

lemma bit_poly_0: "bit (0x8005 :: 16 word) 0"
  by simp

lemma inj_crc16_step: "inj crc16_step"
proof (rule injI)
  fix c d
  assume eq: "crc16_step c = crc16_step d"
  then have bits: "bit (crc16_step c) n = bit (crc16_step d) n" for n
    by simp
  from bits [of 0] have top: "bit c 15 = bit d 15"
    by (simp only: crc16_step_bits) simp
  have "bit c n = bit d n" if "n < 16" for n
  proof (cases "n = 15")
    case True
    with top show ?thesis by simp
  next
    case False
    with that have "Suc n < 16" by simp
    with bits [of "Suc n"] top show ?thesis
      by (simp only: crc16_step_bits) (simp, blast)
  qed
  then show "c = d"
    by (intro bit_word_eqI) simp
qed

lemma inj_crc16_byte: "crc16_byte c b = crc16_byte d b \<Longrightarrow> c = d"
proof -
  assume "crc16_byte c b = crc16_byte d b"
  then have "c XOR push_bit 8 (ucast b) = d XOR push_bit 8 (ucast b)"
    using inj_fn [OF inj_crc16_step, of 8] by (simp add: crc16_byte_def inj_eq)
  then show "c = d"
    by (simp only: xor_cancel_right)
qed

lemma crc16_byte_inj_byte: "crc16_byte c b = crc16_byte c b' \<Longrightarrow> b = b'"
proof -
  assume "crc16_byte c b = crc16_byte c b'"
  then have "c XOR push_bit 8 (ucast b) = c XOR push_bit 8 (ucast b')"
    using inj_fn [OF inj_crc16_step, of 8] by (simp add: crc16_byte_def inj_eq)
  then have "push_bit 8 (ucast b :: 16 word) = push_bit 8 (ucast b')"
    by (simp only: xor_cancel_left)
  then have "bit (push_bit 8 (ucast b :: 16 word)) (n + 8) = bit (push_bit 8 (ucast b' :: 16 word)) (n + 8)" for n
    by simp
  then show "b = b'"
    by (intro bit_word_eqI) (force simp: bit_simps)
qed

lemma crc16_foldl_inj: "foldl crc16_byte c bs = foldl crc16_byte d bs \<Longrightarrow> c = d"
  by (induction bs arbitrary: c d) (auto dest: inj_crc16_byte)

lemma crc16_one_byte:
  "crc16_buypass (xs @ b # ys) = crc16_buypass (xs @ b' # ys) \<Longrightarrow> b = b'"
  by (auto simp: crc16_buypass_def dest!: crc16_foldl_inj crc16_byte_inj_byte)

end
