(* ===== verification/Mpak_Read.thy ===== *)
theory Mpak_Read
  imports Mpak_Format
begin

text \<open>
  The scan-oriented MPAK v1 reader (\<open>src/format/mpak/read.rs\<close>): the container is walked from byte
  16, a block at a time; a block's declared length is trusted only after its CRC and its bounds,
  broken framing advances one byte, and the optional index is kept only if it agrees with the scan.

  The state of a scan is the record \<open>mpak_reader\<close>, field for field the struct \<open>MpakReader\<close>;
  every step of the scan is a function of the reader and of the byte source.
\<close>

section \<open>State\<close>

record mpak_member =
  m_path :: rstr
  m_offset :: nat
  m_length :: nat

record indx_entry =
  ie_path :: rstr
  ie_offset :: nat
  ie_length :: nat
  ie_sha256 :: bytes

record mpak_reader =
  file_size :: nat
  minor :: byte
  reserved_nonzero :: bool
  resynced :: bool
  members :: "mpak_member list"
  member_index :: "rstr \<rightharpoonup> nat"
  duplicate_members :: nat
  duplicate_example :: "rstr option"
  skipped_members :: nat
  manifest :: "bytes option"
  manifest_count :: nat
  indx_present :: bool
  indx_offset :: nat
  indx_length :: nat
  indx_extra :: bool
  indx_duplicate :: bool
  indx_entries :: "indx_entry list"
  indx_valid :: bool
  tail_present :: bool
  tail_offset :: nat
  tail_extra :: bool
  tail_malformed :: bool
  tail_total_size :: nat
  tail_objects :: nat
  tail_indx_offset :: nat
  tail_digest :: bytes

definition reader_init :: "nat \<Rightarrow> byte \<Rightarrow> bool \<Rightarrow> mpak_reader" where
  "reader_init fsize mnr reserved =
     \<lparr>file_size = fsize, minor = mnr, reserved_nonzero = reserved, resynced = False,
      members = [], member_index = Map.empty, duplicate_members = 0, duplicate_example = None,
      skipped_members = 0, manifest = None, manifest_count = 0,
      indx_present = False, indx_offset = 0, indx_length = 0, indx_extra = False,
      indx_duplicate = False, indx_entries = [], indx_valid = False,
      tail_present = False, tail_offset = 0, tail_extra = False, tail_malformed = False,
      tail_total_size = 0, tail_objects = 0, tail_indx_offset = 0,
      tail_digest = replicate 32 0\<rparr>"

section \<open>Accessors\<close>

definition member :: "mpak_reader \<Rightarrow> rstr \<Rightarrow> mpak_member option" where
  "member r rel = map_option ((!) (members r)) (member_index r rel)"

definition indx_invalid :: "mpak_reader \<Rightarrow> bool" where
  "indx_invalid r \<longleftrightarrow> indx_present r \<and> \<not> indx_valid r"

text \<open>
  \<open>indx_sha256\<close> binary-searches the entries, which \<open>parse_indx\<close> only produces strictly sorted by
  path: the search is \<open>slice::binary_search_by\<close> over \<open>[lo, hi)\<close>, halving the range.
\<close>

function indx_search :: "indx_entry list \<Rightarrow> rstr \<Rightarrow> nat \<Rightarrow> nat \<Rightarrow> nat option" where
  "indx_search es rel lo hi =
     (if hi \<le> lo then None
      else let mid = lo + (hi - lo) div 2 in
        if ie_path (es ! mid) = rel then Some mid
        else if ie_path (es ! mid) < rel then indx_search es rel (mid + 1) hi
        else indx_search es rel lo mid)"
  by pat_completeness auto
termination
  by (relation "measure (\<lambda>(es, rel, lo, hi). hi - lo)") (auto simp: Let_def)

declare indx_search.simps [simp del]

definition indx_sha256 :: "mpak_reader \<Rightarrow> rstr \<Rightarrow> bytes option" where
  "indx_sha256 r rel =
     (if \<not> indx_valid r then None
      else map_option (\<lambda>i. ie_sha256 (indx_entries r ! i))
             (indx_search (indx_entries r) rel 0 (length (indx_entries r))))"

section \<open>Block framing\<close>

definition framing_ok :: "bytes \<Rightarrow> bool" where
  "framing_ok bhdr \<longleftrightarrow>
     rd_u16 (slice bhdr 12 14) = unat (crc16_buypass (slice bhdr 0 12))
     \<and> rd_u64 (slice bhdr 4 12) \<le> MAX_BLOCK_LENGTH"

section \<open>DATA blocks\<close>

definition skip_or :: "bool \<Rightarrow> mpak_reader \<Rightarrow> error \<Rightarrow> error + mpak_reader" where
  "skip_or recovery r e =
     (if recovery then Inr (r\<lparr>skipped_members := skipped_members r + 1\<rparr>) else Inl e)"

definition add_member :: "mpak_reader \<Rightarrow> rstr \<Rightarrow> nat \<Rightarrow> nat \<Rightarrow> error + mpak_reader" where
  "add_member r p off len =
     (if length (members r) \<ge> MAX_MEMBERS then Inl (invalid ''container has more than 4096 members'')
      else if member_index r p \<noteq> None then
        Inr (r\<lparr>duplicate_members := duplicate_members r + 1,
               duplicate_example :=
                 (if duplicate_example r = None then Some p else duplicate_example r)\<rparr>)
      else Inr (r\<lparr>member_index := (member_index r)(p \<mapsto> length (members r)),
                  members := members r @ [\<lparr>m_path = p, m_offset = off, m_length = len\<rparr>]\<rparr>))"

definition scan_data_payload ::
    "byte_source \<Rightarrow> mpak_reader \<Rightarrow> nat \<Rightarrow> nat \<Rightarrow> bool \<Rightarrow> error + mpak_reader" where
  "scan_data_payload source r payload_pos len recovery =
     (if len < 2 then
        skip_or recovery r (invalid ''DATA payload shorter than its path preamble'')
      else case read_exact source payload_pos 2 of Inl e \<Rightarrow> Inl e | Inr pbuf \<Rightarrow>
      let path_len = rd_u16 pbuf in
      if path_len = 0 \<or> path_len > PATH_MAX_BYTES then
        skip_or recovery r (Path \<lparr>pe_path = [], pe_reason = Empty\<rparr>)
      else if path_len + 2 > len then
        skip_or recovery r (invalid ''DATA path exceeds its block payload'')
      else case read_exact source (payload_pos + 2) path_len of Inl e \<Rightarrow> Inl e | Inr path_bytes \<Rightarrow>
      if \<not> utf8_valid path_bytes then
        skip_or recovery r (Path \<lparr>pe_path = [], pe_reason = Control\<rparr>)
      else case validate path_bytes of Inl e \<Rightarrow> skip_or recovery r (Path e) | Inr _ \<Rightarrow>
      let member_offset = payload_pos + 2 + path_len;
          member_length = len - 2 - path_len in
      if member_length > MAX_FILE_BYTES then
        skip_or recovery r (invalid ''DATA member exceeds the per-file limit'')
      else add_member r path_bytes member_offset member_length)"

section \<open>The other blocks\<close>

definition scan_manf_payload :: "byte_source \<Rightarrow> mpak_reader \<Rightarrow> nat \<Rightarrow> nat \<Rightarrow> error + mpak_reader" where
  "scan_manf_payload source r payload_pos len =
     (if len > MAX_MANIFEST_LEN then Inl (invalid ''MANF payload exceeds the manifest budget'')
      else if manifest_count r = 0 then
        (case read_exact source payload_pos len of Inl e \<Rightarrow> Inl e | Inr bs \<Rightarrow>
           Inr (r\<lparr>manifest := Some bs, manifest_count := manifest_count r + 1\<rparr>))
      else Inr (r\<lparr>manifest_count := manifest_count r + 1\<rparr>))"

definition scan_indx_block :: "mpak_reader \<Rightarrow> nat \<Rightarrow> nat \<Rightarrow> mpak_reader" where
  "scan_indx_block r pos len =
     (if \<not> indx_present r then r\<lparr>indx_present := True, indx_offset := pos, indx_length := len\<rparr>
      else r\<lparr>indx_extra := True\<rparr>)"

definition scan_tail_block ::
    "byte_source \<Rightarrow> mpak_reader \<Rightarrow> nat \<Rightarrow> nat \<Rightarrow> nat \<Rightarrow> error + mpak_reader" where
  "scan_tail_block source r pos payload_pos len =
     (if \<not> tail_present r then
        (let r = r\<lparr>tail_present := True, tail_offset := pos\<rparr> in
         if len \<noteq> TAIL_PAYLOAD_LEN then Inr (r\<lparr>tail_malformed := True\<rparr>)
         else case read_exact source payload_pos TAIL_PAYLOAD_LEN of Inl e \<Rightarrow> Inl e | Inr payload \<Rightarrow>
           Inr (r\<lparr>tail_total_size := rd_u64 (slice payload 0 8),
                  tail_objects := rd_u32 (slice payload 8 12),
                  tail_indx_offset := rd_u64 (slice payload 12 20),
                  tail_digest := slice payload 20 52\<rparr>))
      else Inr (r\<lparr>tail_extra := True\<rparr>))"

definition scan_block ::
    "byte_source \<Rightarrow> bool \<Rightarrow> mpak_reader \<Rightarrow> bytes \<Rightarrow> nat \<Rightarrow> nat \<Rightarrow> nat \<Rightarrow> error + mpak_reader" where
  "scan_block source recovery r block_type pos payload_pos len =
     (case from_code block_type of
        Some Data \<Rightarrow> scan_data_payload source r payload_pos len recovery
      | Some Manf \<Rightarrow> scan_manf_payload source r payload_pos len
      | Some Indx \<Rightarrow> Inr (scan_indx_block r pos len)
      | Some Tail \<Rightarrow> scan_tail_block source r pos payload_pos len
      | None \<Rightarrow> Inr r)"

section \<open>The scan loop\<close>

text \<open>
  The \<open>while\<close> loop of \<open>scan\<close>. Each turn reads one block header; the position grows by one byte
  when the framing or the bounds are bad and by the whole block otherwise.
\<close>

function scan_loop :: "byte_source \<Rightarrow> bool \<Rightarrow> nat \<Rightarrow> mpak_reader \<Rightarrow> error + mpak_reader" where
  "scan_loop source recovery pos r =
     (if \<not> (pos + BLOCK_HEADER_LEN < u64_limit \<and> pos + BLOCK_HEADER_LEN \<le> bs_size source) then Inr r
      else case read_exact source pos BLOCK_HEADER_LEN of Inl e \<Rightarrow> Inl e | Inr bhdr \<Rightarrow>
      if \<not> framing_ok bhdr then scan_loop source recovery (pos + 1) (r\<lparr>resynced := True\<rparr>)
      else let len = rd_u64 (slice bhdr 4 12) in
      case checked_add pos BLOCK_HEADER_LEN of
        None \<Rightarrow> scan_loop source recovery (pos + 1) (r\<lparr>resynced := True\<rparr>)
      | Some payload_pos \<Rightarrow>
      (case checked_add payload_pos len of
        None \<Rightarrow> scan_loop source recovery (pos + 1) (r\<lparr>resynced := True\<rparr>)
      | Some next_pos \<Rightarrow>
      if len > MAX_BLOCK_LENGTH \<or> next_pos > bs_size source then
        scan_loop source recovery (pos + 1) (r\<lparr>resynced := True\<rparr>)
      else case scan_block source recovery r (slice bhdr 0 4) pos payload_pos len of
        Inl e \<Rightarrow> Inl e
      | Inr r' \<Rightarrow> scan_loop source recovery next_pos r'))"
  by pat_completeness auto
termination
  by (relation "measure (\<lambda>(source, recovery, pos, r). bs_size source - pos)")
    (auto simp: BLOCK_HEADER_LEN_def)

declare scan_loop.simps [simp del]

section \<open>The index\<close>

record indx_failure =
  if_duplicate :: bool
  if_io :: bool

definition indx_malformed :: indx_failure where
  "indx_malformed = \<lparr>if_duplicate = False, if_io = False\<rparr>"

text \<open>
  The body of the entry loop of \<open>parse_indx\<close>: \<open>k\<close> entries are still to be read, \<open>p\<close> is the read
  position and \<open>entries\<close> what has been read.
\<close>

fun parse_indx_entries ::
    "nat \<Rightarrow> bytes \<Rightarrow> nat \<Rightarrow> nat \<Rightarrow> indx_entry list \<Rightarrow> indx_failure + (nat \<times> indx_entry list)" where
  "parse_indx_entries fsize payload 0 p entries = Inr (p, entries)"
| "parse_indx_entries fsize payload (Suc k) p entries =
     (if p + 2 > length payload then Inl indx_malformed
      else let path_len = rd_u16 (slice payload p (p + 2)); p = p + 2 in
      if path_len = 0 \<or> path_len > PATH_MAX_BYTES \<or> p + path_len > length payload
      then Inl indx_malformed
      else let member_path = slice payload p (p + path_len) in
      if \<not> utf8_valid member_path then Inl indx_malformed
      else let p = p + path_len in
      if validate member_path \<noteq> Inr () then Inl indx_malformed
      else if entries \<noteq> [] \<and> ie_path (last entries) = member_path
      then Inl \<lparr>if_duplicate = True, if_io = False\<rparr>
      else if entries \<noteq> [] \<and> \<not> ie_path (last entries) < member_path then Inl indx_malformed
      else if p + 48 > length payload then Inl indx_malformed
      else let off = rd_u64 (slice payload p (p + 8));
               len = rd_u64 (slice payload (p + 8) (p + 16));
               sha = slice payload (p + 16) (p + 48) in
      if len > MAX_FILE_BYTES then Inl indx_malformed
      else if \<not> (off + len < u64_limit \<and> off + len \<le> fsize) then Inl indx_malformed
      else parse_indx_entries fsize payload k (p + 48)
             (entries @ [\<lparr>ie_path = member_path, ie_offset = off, ie_length = len, ie_sha256 = sha\<rparr>]))"

definition parse_indx :: "byte_source \<Rightarrow> mpak_reader \<Rightarrow> indx_failure + indx_entry list" where
  "parse_indx source r =
     (if indx_length r < 4 \<or> indx_length r > MAX_INDX_PAYLOAD then Inl indx_malformed
      else case read_exact source (indx_offset r + BLOCK_HEADER_LEN) (indx_length r) of
        Inl _ \<Rightarrow> Inl \<lparr>if_duplicate = False, if_io = True\<rparr>
      | Inr payload \<Rightarrow>
      let count = rd_u32 (slice payload 0 4) in
      if count > MAX_MEMBERS then Inl indx_malformed
      else case parse_indx_entries (file_size r) payload count 4 [] of
        Inl f \<Rightarrow> Inl f
      | Inr (p, entries) \<Rightarrow> if p \<noteq> length payload then Inl indx_malformed else Inr entries)"

definition indx_agrees :: "mpak_member \<Rightarrow> indx_entry \<Rightarrow> bool" where
  "indx_agrees m e \<longleftrightarrow> m_path m = ie_path e \<and> m_offset m = ie_offset e \<and> m_length m = ie_length e"

definition reconcile_indx :: "mpak_reader \<Rightarrow> mpak_reader" where
  "reconcile_indx r =
     (if \<not> indx_valid r then r
      else if length (indx_entries r) \<noteq> length (members r) then r\<lparr>indx_valid := False\<rparr>
      else if list_all2 indx_agrees (sort_key m_path (members r)) (indx_entries r) then r
      else r\<lparr>indx_valid := False\<rparr>)"

definition finish_scan :: "byte_source \<Rightarrow> mpak_reader \<Rightarrow> error + mpak_reader" where
  "finish_scan source r =
     (if \<not> indx_present r then Inr r
      else case parse_indx source r of
        Inr entries \<Rightarrow> Inr (reconcile_indx (r\<lparr>indx_entries := entries, indx_valid := True\<rparr>))
      | Inl f \<Rightarrow>
          if if_io f then Inl (Io (lit ''cannot read INDX payload''))
          else Inr (r\<lparr>indx_duplicate := if_duplicate f, indx_valid := False\<rparr>))"

section \<open>The scan\<close>

definition scan :: "byte_source \<Rightarrow> bool \<Rightarrow> error + mpak_reader" where
  "scan source recovery =
     (if bs_size source < HEADER_LEN then
        Inl (invalid ''container is smaller than the 16-byte header'')
      else case read_exact source 0 HEADER_LEN of Inl e \<Rightarrow> Inl e | Inr header \<Rightarrow>
      if slice header 0 4 \<noteq> MAGIC then Inl (invalid ''not an MPAK container (bad magic)'')
      else if header ! 4 \<noteq> MAJOR_VERSION then
        Inl (Version (show_nat (unat (header ! 4))) (unat MAJOR_VERSION))
      else
        let r = reader_init (bs_size source) (header ! 5) (rd_be (slice header 8 16) \<noteq> 0) in
        case scan_loop source recovery HEADER_LEN r of
          Inl e \<Rightarrow> Inl e
        | Inr r' \<Rightarrow> finish_scan source r')"

section \<open>Member streams\<close>

text \<open>
  \<open>MemberReader\<close>: a cursor over \<open>[base, base + len)\<close>, the end saturating at \<open>u64::MAX\<close>. A read
  returns at most the buffer's length and at most what is left.
\<close>

record member_reader =
  mr_pos :: nat
  mr_end :: nat

definition member_reader_new :: "nat \<Rightarrow> nat \<Rightarrow> member_reader" where
  "member_reader_new base len = \<lparr>mr_pos = base, mr_end = min (base + len) (u64_limit - 1)\<rparr>"

definition member_read ::
    "byte_source \<Rightarrow> member_reader \<Rightarrow> nat \<Rightarrow> rstr + (bytes \<times> member_reader)" where
  "member_read source s buf_len =
     (if mr_pos s \<ge> mr_end s \<or> buf_len = 0 then Inr ([], s)
      else let want = min buf_len (mr_end s - mr_pos s) in
        case bs_read_at source (mr_pos s) want of
          Inl e \<Rightarrow> Inl e
        | Inr out \<Rightarrow> Inr (out, s\<lparr>mr_pos := mr_pos s + want\<rparr>))"

text \<open>\<open>Read::read_to_end\<close> over a member, with reads of at most \<open>buf_len\<close> bytes.\<close>

function member_read_to_end ::
    "byte_source \<Rightarrow> nat \<Rightarrow> bytes \<Rightarrow> member_reader \<Rightarrow> rstr + bytes" where
  "member_read_to_end source buf_len acc s =
     (if mr_pos s \<ge> mr_end s \<or> buf_len = 0 then Inr acc
      else case member_read source s buf_len of
        Inl e \<Rightarrow> Inl e
      | Inr (out, s') \<Rightarrow> member_read_to_end source buf_len (acc @ out) s')"
  by pat_completeness auto
termination
  by (relation "measure (\<lambda>(source, buf_len, acc, s). mr_end s - mr_pos s)")
    (auto simp: member_read_def Let_def split: sum.splits if_splits)

declare member_read_to_end.simps [simp del]

end
