(* ===== verification/Mpak_Scan.thy ===== *)
theory Mpak_Scan
  imports Mpak_Read
begin

text \<open>
  What a successful scan guarantees, for any byte source that keeps the contract
  \<open>exact_source\<close>: every member it reports stands in the file as a CRC-checked \<open>DATA\<close> block wholly
  inside it, paths are valid and unique, the lookup table and the member list agree, the budgets
  hold, and a valid index describes exactly the members. No read ever leaves the source, so a scan
  never fails with an I/O error.
\<close>

section \<open>Well-formed readers\<close>

text \<open>A member as the container's bytes declare it.\<close>

definition data_block_at :: "bytes \<Rightarrow> nat \<Rightarrow> mpak_member \<Rightarrow> bool" where
  "data_block_at content pos m \<longleftrightarrow>
     framing_ok (slice content pos (pos + 14))
     \<and> slice content pos (pos + 4) = code Data
     \<and> rd_u64 (slice content (pos + 4) (pos + 12)) = 2 + length (m_path m) + m_length m
     \<and> rd_u16 (slice content (pos + 14) (pos + 16)) = length (m_path m)
     \<and> slice content (pos + 16) (pos + 16 + length (m_path m)) = m_path m
     \<and> m_offset m = pos + 16 + length (m_path m)
     \<and> m_offset m + m_length m \<le> length content"

definition member_ok :: "bytes \<Rightarrow> mpak_member \<Rightarrow> bool" where
  "member_ok content m \<longleftrightarrow>
     (\<exists>pos\<ge>HEADER_LEN. data_block_at content pos m)
     \<and> validate (m_path m) = Inr () \<and> utf8_valid (m_path m) \<and> m_length m \<le> MAX_FILE_BYTES"

text \<open>The lookup table sends a path to the position of the member with that path.\<close>

definition indexes :: "(rstr \<rightharpoonup> nat) \<Rightarrow> mpak_member list \<Rightarrow> bool" where
  "indexes f ms \<longleftrightarrow> (\<forall>p i. f p = Some i \<longleftrightarrow> i < length ms \<and> m_path (ms ! i) = p)"

definition reader_ok :: "bytes \<Rightarrow> bool \<Rightarrow> mpak_reader \<Rightarrow> bool" where
  "reader_ok content recovery r \<longleftrightarrow>
     file_size r = length content
     \<and> length (members r) \<le> MAX_MEMBERS
     \<and> list_all (member_ok content) (members r)
     \<and> indexes (member_index r) (members r)
     \<and> (duplicate_members r = 0 \<longleftrightarrow> duplicate_example r = None)
     \<and> (manifest_count r = 0 \<longleftrightarrow> manifest r = None)
     \<and> (\<forall>bs. manifest r = Some bs \<longrightarrow> length bs \<le> MAX_MANIFEST_LEN)
     \<and> (recovery \<or> skipped_members r = 0)
     \<and> \<not> indx_valid r \<and> length (tail_digest r) = 32
     \<and> (indx_present r \<longrightarrow> indx_offset r + 14 + indx_length r < u64_limit
          \<and> indx_offset r + 14 + indx_length r \<le> length content)"

lemma indexes_distinct:
  assumes "indexes f ms"
  shows "distinct (map m_path ms)"
proof -
  have inj: "i = j" if "i < length ms" "j < length ms" "m_path (ms ! i) = m_path (ms ! j)" for i j
  proof -
    from that assms have "f (m_path (ms ! i)) = Some i" and "f (m_path (ms ! i)) = Some j"
      by (auto simp: indexes_def)
    then show ?thesis by simp
  qed
  show ?thesis
    unfolding distinct_conv_nth using inj by (simp, blast)
qed

lemma indexes_empty: "indexes Map.empty []"
  by (simp add: indexes_def)

lemma indexes_snoc:
  assumes "indexes f ms" and "f p = None" and "m_path m = p"
  shows "indexes (f(p \<mapsto> length ms)) (ms @ [m])"
  unfolding indexes_def
proof (intro allI)
  fix q i
  have no_p: "m_path (ms ! i) \<noteq> p" if "i < length ms"
    using assms(1,2) that by (metis indexes_def option.distinct(1))
  consider "i < length ms" | "i = length ms" | "i > length ms" by linarith
  then show "(f(p \<mapsto> length ms)) q = Some i \<longleftrightarrow> i < length (ms @ [m]) \<and> m_path ((ms @ [m]) ! i) = q"
    using assms no_p by cases (auto simp: indexes_def nth_append)
qed

lemma indexes_lookup:
  assumes "indexes f ms"
  shows "f p = None \<longleftrightarrow> p \<notin> m_path ` set ms"
proof -
  have "f p \<noteq> None \<longleftrightarrow> (\<exists>i<length ms. m_path (ms ! i) = p)"
    using assms by (auto simp: indexes_def)
  then show ?thesis by (fastforce simp: in_set_conv_nth image_iff)
qed

lemma reader_ok_init: "reader_ok content recovery (reader_init (length content) mnr reserved)"
  by (simp add: reader_ok_def reader_init_def indexes_empty MAX_MEMBERS_def)

lemma add_member_ok:
  assumes "reader_ok content recovery r" and "add_member r p off len = Inr r'"
    and "member_ok content \<lparr>m_path = p, m_offset = off, m_length = len\<rparr>"
  shows "reader_ok content recovery r'"
proof (cases "member_index r p")
  case None
  with assms show ?thesis
    by (auto simp: reader_ok_def add_member_def indexes_snoc split: if_splits)
next
  case (Some i)
  with assms(1,2) show ?thesis
    by (auto simp: reader_ok_def add_member_def split: if_splits)
qed

lemma skip_or_ok:
  "reader_ok content recovery r \<Longrightarrow> skip_or recovery r e = Inr r' \<Longrightarrow> reader_ok content recovery r'"
  by (auto simp: skip_or_def reader_ok_def split: if_splits)

lemma skip_or_not_Io: "skip_or recovery r (Invalid d) \<noteq> Inl (Io e)" "skip_or recovery r (Path pe) \<noteq> Inl (Io e)"
  by (auto simp: skip_or_def)

lemma add_member_not_Io: "add_member r p off len \<noteq> Inl (Io e)"
  by (auto simp: add_member_def)

section \<open>One block\<close>

context exact_source
begin

lemma scan_data_payload_cases:
  assumes "pp + len \<le> length content" and "pp + len < u64_limit"
    and "scan_data_payload src r pp len recovery = Inr r'"
  obtains (skip) e where "skip_or recovery r e = Inr r'"
  | (add) p where "2 + length p \<le> len" "p = slice content (pp + 2) (pp + 2 + length p)"
      "rd_u16 (slice content pp (pp + 2)) = length p"
      "validate p = Inr ()" "utf8_valid p" "len - 2 - length p \<le> MAX_FILE_BYTES"
      "add_member r p (pp + 2 + length p) (len - 2 - length p) = Inr r'"
proof (cases "\<exists>e. skip_or recovery r e = Inr r'")
  case True
  with skip show ?thesis by blast
next
  case False
  define pbuf where "pbuf = slice content pp (pp + 2)"
  define n where "n = rd_u16 pbuf"
  define p where "p = slice content (pp + 2) (pp + 2 + n)"
  note d = scan_data_payload_def n_def [symmetric] Let_def not_less
  have len2: "2 \<le> len"
    using assms(3) False by (auto simp: scan_data_payload_def split: if_splits)
  then have r1: "read_exact src pp 2 = Inr pbuf"
    using assms(1,2) unfolding pbuf_def by (intro read_exact_inside) auto
  have n: "n \<noteq> 0 \<and> n \<le> PATH_MAX_BYTES \<and> n + 2 \<le> len"
    using assms(3) False len2 r1 by (simp add: d split: if_splits)
  then have r2: "read_exact src (pp + 2) n = Inr p"
    using assms(1,2) unfolding p_def by (intro read_exact_inside) auto
  have lp: "length p = n"
    using n assms(1) by (simp only: p_def length_slice) arith
  have rest: "utf8_valid p" "validate p = Inr ()" "len - 2 - n \<le> MAX_FILE_BYTES"
    "add_member r p (pp + 2 + n) (len - 2 - n) = Inr r'"
    using assms(3) False len2 r1 r2 n
    by (simp_all add: d split: if_splits sum.splits)
  show ?thesis
  proof (rule add)
    show "p = slice content (pp + 2) (pp + 2 + length p)"
      unfolding lp by (simp add: p_def)
  qed (use n rest lp n_def pbuf_def in auto)
qed

lemma scan_data_payload_not_Io:
  assumes "pp + len \<le> length content" and "pp + len < u64_limit"
  shows "scan_data_payload src r pp len recovery \<noteq> Inl (Io e)"
  using assms
  by (auto simp: scan_data_payload_def Let_def read_exact_inside skip_or_not_Io add_member_not_Io
      split: if_splits sum.splits)

lemma scan_data_payload_ok:
  assumes "pos + 14 + len \<le> length content" and "pos + 14 + len < u64_limit" and "HEADER_LEN \<le> pos"
    and hdr: "framing_ok (slice content pos (pos + 14))" "slice content pos (pos + 4) = code Data"
      "rd_u64 (slice content (pos + 4) (pos + 12)) = len"
    and ok: "reader_ok content recovery r"
    and "scan_data_payload src r (pos + 14) len recovery = Inr r'"
  shows "reader_ok content recovery r'"
  using assms(1,2,8)
proof (cases rule: scan_data_payload_cases)
  case (skip e)
  with ok show ?thesis by (rule skip_or_ok)
next
  case (add p)
  have "member_ok content \<lparr>m_path = p, m_offset = pos + 14 + 2 + length p, m_length = len - 2 - length p\<rparr>"
    using add assms(1-3) hdr
    by (auto simp: member_ok_def data_block_at_def add.commute add.left_commute intro!: exI [of _ pos])
  with ok add(7) show ?thesis by (rule add_member_ok)
qed

lemma scan_manf_payload_ok:
  assumes "pp + len \<le> length content" and "pp + len < u64_limit"
    and "reader_ok content recovery r" and "scan_manf_payload src r pp len = Inr r'"
  shows "reader_ok content recovery r'"
  using assms
  by (auto simp: scan_manf_payload_def read_exact_inside reader_ok_def
      split: if_splits sum.splits)

lemma scan_indx_block_ok:
  assumes "pos + 14 + len \<le> length content" and "pos + 14 + len < u64_limit"
    and "reader_ok content recovery r"
  shows "reader_ok content recovery (scan_indx_block r pos len)"
  using assms by (auto simp: scan_indx_block_def reader_ok_def)

lemma scan_tail_block_ok:
  assumes "pp + len \<le> length content" and "pp + len < u64_limit"
    and ok: "reader_ok content recovery r" and res: "scan_tail_block src r pos pp len = Inr r'"
  shows "reader_ok content recovery r'"
proof (cases "\<not> tail_present r \<and> len = TAIL_PAYLOAD_LEN")
  case True
  define payload where "payload = slice content pp (pp + 52)"
  have rd: "read_exact src pp TAIL_PAYLOAD_LEN = Inr payload"
    using True assms(1,2) unfolding payload_def TAIL_PAYLOAD_LEN_def by (intro read_exact_inside) auto
  have len: "length (slice payload 20 52) = 32"
    using True assms(1) unfolding payload_def TAIL_PAYLOAD_LEN_def length_slice by simp
  have "r' = r\<lparr>tail_present := True, tail_offset := pos,
      tail_total_size := rd_u64 (slice payload 0 8), tail_objects := rd_u32 (slice payload 8 12),
      tail_indx_offset := rd_u64 (slice payload 12 20), tail_digest := slice payload 20 52\<rparr>"
    using res True by (simp add: scan_tail_block_def rd)
  then show ?thesis
    using ok len by (simp add: reader_ok_def del: length_slice)
next
  case False
  then show ?thesis
    using res ok by (auto simp: scan_tail_block_def Let_def reader_ok_def split: if_splits)
qed

lemma scan_block_ok:
  assumes bounds: "pos + 14 + len \<le> length content" "pos + 14 + len < u64_limit" "HEADER_LEN \<le> pos"
    and hdr: "framing_ok (slice content pos (pos + 14))"
      "rd_u64 (slice content (pos + 4) (pos + 12)) = len"
    and ok: "reader_ok content recovery r"
    and res: "scan_block src recovery r (slice content pos (pos + 4)) pos (pos + 14) len = Inr r'"
  shows "reader_ok content recovery r'"
proof (cases "from_code (slice content pos (pos + 4))")
  case None
  with res ok show ?thesis by (simp add: scan_block_def)
next
  case (Some t)
  then have code: "slice content pos (pos + 4) = code t"
    by (auto simp: from_code_def split: if_splits)
  show ?thesis
  proof (cases t)
    case Data
    with Some res code scan_data_payload_ok [OF bounds hdr(1) _ hdr(2) ok] show ?thesis
      by (simp add: scan_block_def)
  next
    case Manf
    with Some res scan_manf_payload_ok [OF bounds(1,2) ok] show ?thesis
      by (simp add: scan_block_def)
  next
    case Indx
    with Some res scan_indx_block_ok [OF bounds(1,2) ok] show ?thesis
      by (auto simp: scan_block_def)
  next
    case Tail
    with Some res scan_tail_block_ok [OF bounds(1,2) ok] show ?thesis
      by (simp add: scan_block_def)
  qed
qed

lemma scan_block_not_Io:
  assumes "pp + len \<le> length content" and "pp + len < u64_limit"
  shows "scan_block src recovery r ty pos pp len \<noteq> Inl (Io e)"
  using assms scan_data_payload_not_Io [OF assms]
  by (auto simp: scan_block_def scan_manf_payload_def scan_tail_block_def Let_def read_exact_inside
      split: option.splits block_type.splits if_splits sum.splits)

section \<open>The scan loop\<close>

text \<open>The length a block header at \<open>pos\<close> declares, and when the scan accepts the block.\<close>

abbreviation block_len :: "nat \<Rightarrow> nat" where
  "block_len pos \<equiv> rd_u64 (slice content (pos + 4) (pos + 12))"

abbreviation header_fits :: "nat \<Rightarrow> bool" where
  "header_fits pos \<equiv> pos + 14 < u64_limit \<and> pos + 14 \<le> length content"

abbreviation block_fits :: "nat \<Rightarrow> bool" where
  "block_fits pos \<equiv> framing_ok (slice content pos (pos + 14))
     \<and> pos + 14 + block_len pos < u64_limit \<and> pos + 14 + block_len pos \<le> length content"

lemma scan_loop_stop: "\<not> header_fits pos \<Longrightarrow> scan_loop src recovery pos r = Inr r"
  by (subst scan_loop.simps) (auto simp: size_eq BLOCK_HEADER_LEN_def)

lemma read_header: "header_fits pos \<Longrightarrow> read_exact src pos BLOCK_HEADER_LEN = Inr (slice content pos (pos + 14))"
  unfolding BLOCK_HEADER_LEN_def by (simp only: read_exact_inside)

lemma header_guard:
  "header_fits pos \<Longrightarrow> \<not> \<not> (pos + BLOCK_HEADER_LEN < u64_limit \<and> pos + BLOCK_HEADER_LEN \<le> bs_size src)"
  by (simp add: size_eq BLOCK_HEADER_LEN_def)

lemma framing_ok_len: "framing_ok (slice content pos (pos + 14)) \<Longrightarrow> block_len pos \<le> MAX_BLOCK_LENGTH"
  by (simp add: framing_ok_def slice_slice)

lemma scan_loop_resync:
  assumes "header_fits pos" and "\<not> block_fits pos"
  shows "scan_loop src recovery pos r = scan_loop src recovery (pos + 1) (r\<lparr>resynced := True\<rparr>)"
proof -
  have len: "rd_u64 (slice (slice content pos (pos + 14)) 4 12) = block_len pos"
    by (simp add: slice_slice)
  have add: "checked_add pos BLOCK_HEADER_LEN = Some (pos + 14)"
    using assms(1) by (simp add: BLOCK_HEADER_LEN_def)
  show ?thesis
    using assms
    unfolding scan_loop.simps [of src recovery pos r] if_not_P [OF header_guard [OF assms(1)]]
      read_header [OF assms(1)] sum.case Let_def len add option.case
    by (auto simp: checked_add_def size_eq)
qed

lemma scan_loop_block:
  assumes "header_fits pos" and "block_fits pos"
  shows "scan_loop src recovery pos r =
    (case scan_block src recovery r (slice content pos (pos + 4)) pos (pos + 14) (block_len pos) of
       Inl e \<Rightarrow> Inl e
     | Inr r' \<Rightarrow> scan_loop src recovery (pos + 14 + block_len pos) r')"
proof -
  have len: "rd_u64 (slice (slice content pos (pos + 14)) 4 12) = block_len pos"
    and ty: "slice (slice content pos (pos + 14)) 0 4 = slice content pos (pos + 4)"
    by (simp_all add: slice_slice)
  have add: "checked_add pos BLOCK_HEADER_LEN = Some (pos + 14)"
    using assms(1) by (simp add: BLOCK_HEADER_LEN_def)
  show ?thesis
    using assms framing_ok_len [of pos]
    unfolding scan_loop.simps [of src recovery pos r] if_not_P [OF header_guard [OF assms(1)]]
      read_header [OF assms(1)] sum.case Let_def len ty add option.case
    by (simp add: checked_add_def size_eq)
qed

lemma scan_loop_invariant:
  assumes "scan_loop src recovery pos r = Inr r'" and "HEADER_LEN \<le> pos" and "reader_ok content recovery r"
  shows "reader_ok content recovery r'"
  using assms
proof (induction "length content - pos" arbitrary: pos r rule: less_induct)
  case less
  consider "\<not> header_fits pos" | (resync) "header_fits pos" "\<not> block_fits pos"
    | (block) "header_fits pos" "block_fits pos" by blast
  then show ?case
  proof cases
    case 1
    with less.prems show ?thesis by (simp add: scan_loop_stop)
  next
    case resync
    have "reader_ok content recovery (r\<lparr>resynced := True\<rparr>)"
      using less.prems(3) by (simp add: reader_ok_def)
    moreover have "length content - (pos + 1) < length content - pos"
      using resync(1) by linarith
    ultimately show ?thesis
      using less.hyps [of "pos + 1" "r\<lparr>resynced := True\<rparr>"] less.prems scan_loop_resync [OF resync]
      by simp
  next
    case block
    then obtain r1 where
      blk: "scan_block src recovery r (slice content pos (pos + 4)) pos (pos + 14) (block_len pos) = Inr r1"
      and loop: "scan_loop src recovery (pos + 14 + block_len pos) r1 = Inr r'"
      using less.prems(1) by (auto simp: scan_loop_block split: sum.splits)
    have "reader_ok content recovery r1"
      using blk by (rule scan_block_ok [rotated -1]) (use block less.prems in simp_all)
    moreover have "length content - (pos + 14 + block_len pos) < length content - pos"
      using block(1) by linarith
    ultimately show ?thesis
      using less.hyps [OF _ loop] less.prems(2) by simp
  qed
qed

lemma scan_loop_not_Io: "scan_loop src recovery pos r \<noteq> Inl (Io e)"
proof (induction "length content - pos" arbitrary: pos r rule: less_induct)
  case less
  consider "\<not> header_fits pos" | (resync) "header_fits pos" "\<not> block_fits pos"
    | (block) "header_fits pos" "block_fits pos" by blast
  then show ?case
  proof cases
    case 1
    then show ?thesis by (simp add: scan_loop_stop)
  next
    case resync
    then have "length content - (pos + 1) < length content - pos" by linarith
    with less [of "pos + 1"] resync show ?thesis by (simp add: scan_loop_resync)
  next
    case block
    then have "scan_block src recovery r (slice content pos (pos + 4)) pos (pos + 14) (block_len pos) \<noteq> Inl (Io e)"
      by (intro scan_block_not_Io) simp_all
    moreover have "length content - (pos + 14 + block_len pos) < length content - pos"
      using block(1) by linarith
    ultimately show ?thesis
      using less [of "pos + 14 + block_len pos"] block
      by (auto simp: scan_loop_block split: sum.splits)
  qed
qed

end

section \<open>The index\<close>

text \<open>What \<open>parse_indx\<close> keeps true of the entries it has read.\<close>

definition entries_ok :: "nat \<Rightarrow> indx_entry list \<Rightarrow> bool" where
  "entries_ok fsize es \<longleftrightarrow> sorted_wrt (<) (map ie_path es)
     \<and> (\<forall>e\<in>set es. validate (ie_path e) = Inr () \<and> ie_length e \<le> MAX_FILE_BYTES
          \<and> ie_offset e + ie_length e \<le> fsize \<and> length (ie_sha256 e) = 32)"

lemma entries_ok_snoc:
  assumes "entries_ok fsize es" and "es = [] \<or> ie_path (last es) < ie_path e"
    and "validate (ie_path e) = Inr ()" and "ie_length e \<le> MAX_FILE_BYTES"
    and "ie_offset e + ie_length e \<le> fsize" and "length (ie_sha256 e) = 32"
  shows "entries_ok fsize (es @ [e])"
proof -
  have "p < ie_path e" if "p \<in> ie_path ` set es" for p
  proof (cases "es = []")
    case True
    with that show ?thesis by simp
  next
    case False
    then have split: "map ie_path es = map ie_path (butlast es) @ [ie_path (last es)]"
      by (metis append_butlast_last_id list.simps(8,9) map_append)
    moreover have "p \<in> set (map ie_path es)"
      using that by simp
    moreover have "sorted_wrt (<) (map ie_path (butlast es) @ [ie_path (last es)])"
      using assms(1) split by (simp add: entries_ok_def)
    ultimately have "p \<le> ie_path (last es)"
      by (auto simp: sorted_wrt_append)
    with assms(2) False show ?thesis by auto
  qed
  with assms show ?thesis
    by (auto simp: entries_ok_def sorted_wrt_append)
qed

lemma parse_indx_entries_ok:
  assumes "parse_indx_entries fsize payload k p es = Inr (p', es')" and "entries_ok fsize es"
  shows "entries_ok fsize es'"
  using assms
proof (induction k arbitrary: p es)
  case 0
  then show ?case by simp
next
  case (Suc k)
  define n where "n = rd_u16 (slice payload p (p + 2))"
  define path where "path = slice payload (p + 2) (p + 2 + n)"
  define q where "q = p + 2 + n"
  define e where "e = \<lparr>ie_path = path, ie_offset = rd_u64 (slice payload q (q + 8)),
      ie_length = rd_u64 (slice payload (q + 8) (q + 16)), ie_sha256 = slice payload (q + 16) (q + 48)\<rparr>"
  note body = Suc.prems(1) [unfolded parse_indx_entries.simps Let_def, folded n_def,
      folded path_def q_def, folded e_def]
  have rest: "parse_indx_entries fsize payload k (q + 48) (es @ [e]) = Inr (p', es')"
    and ok: "validate path = Inr ()" "es = [] \<or> ie_path (last es) < path" "q + 48 \<le> length payload"
      "ie_length e \<le> MAX_FILE_BYTES" "ie_offset e + ie_length e \<le> fsize"
    using body by (auto simp: e_def q_def split: if_splits)
  have "length (ie_sha256 e) = 32"
    using ok(3) by (simp add: e_def)
  then have "entries_ok fsize (es @ [e])"
    using ok Suc.prems(2) by (intro entries_ok_snoc) (simp_all add: e_def)
  with rest show ?case by (rule Suc.IH)
qed

text \<open>Binary search finds exactly the entry with the path.\<close>

lemma sorted_paths_less:
  "sorted_wrt (<) (map ie_path es) \<Longrightarrow> i < j \<Longrightarrow> j < length es \<Longrightarrow> ie_path (es ! i) < ie_path (es ! j)"
  by (auto simp: sorted_wrt_iff_nth_less)

lemma indx_search_Some:
  assumes "sorted_wrt (<) (map ie_path es)" and "hi \<le> length es"
    and "i < length es" and "lo \<le> i" and "i < hi" and "ie_path (es ! i) = rel"
  shows "indx_search es rel lo hi = Some i"
  using assms
proof (induction es rel lo hi rule: indx_search.induct)
  case (1 es rel lo hi)
  define mid where "mid = lo + (hi - lo) div 2"
  have mid: "lo \<le> mid" "mid < hi"
    using "1.prems" by (auto simp: mid_def)
  consider "i = mid" | (right) "mid < i" | (left) "i < mid" by linarith
  then show ?case
  proof cases
    case 1
    with "1.prems" show ?thesis
      by (subst indx_search.simps) (auto simp: mid_def [symmetric] Let_def)
  next
    case right
    then have "ie_path (es ! mid) < rel"
      using sorted_paths_less [of es mid i] "1.prems" by simp
    with right mid "1.IH"(1) [OF _ mid_def] "1.prems" show ?thesis
      by (subst indx_search.simps) (auto simp: mid_def [symmetric] Let_def)
  next
    case left
    then have "rel < ie_path (es ! mid)"
      using sorted_paths_less [of es i mid] "1.prems" mid by simp
    with left mid "1.IH"(2) [OF _ mid_def] "1.prems" show ?thesis
      by (subst indx_search.simps) (auto simp: mid_def [symmetric] Let_def)
  qed
qed

lemma indx_search_sound:
  "indx_search es rel lo hi = Some i \<Longrightarrow> hi \<le> length es \<Longrightarrow> ie_path (es ! i) = rel \<and> lo \<le> i \<and> i < hi"
proof (induction es rel lo hi rule: indx_search.induct)
  case (1 es rel lo hi)
  define mid where "mid = lo + (hi - lo) div 2"
  have lt: "lo < hi"
    using "1.prems"(1) by (subst (asm) indx_search.simps) (auto split: if_splits)
  then have mid: "lo \<le> mid" "mid < hi"
    by (auto simp: mid_def)
  have "(if ie_path (es ! mid) = rel then Some mid
         else if ie_path (es ! mid) < rel then indx_search es rel (mid + 1) hi
         else indx_search es rel lo mid) = Some i"
    using "1.prems"(1) unfolding indx_search.simps [of es rel lo hi] if_not_P [OF lt [unfolded not_le [symmetric]]]
      Let_def mid_def .
  with mid lt "1.IH" [OF _ mid_def] "1.prems"(2) show ?case
    by (auto split: if_splits)
qed

lemma indx_search_iff:
  assumes "sorted_wrt (<) (map ie_path es)"
  shows "indx_search es rel 0 (length es) = Some i \<longleftrightarrow> i < length es \<and> ie_path (es ! i) = rel"
  using indx_search_sound [of es rel 0 "length es" i] indx_search_Some [OF assms, of "length es" i 0 rel]
  by auto

section \<open>The result of a scan\<close>

definition index_consistent :: "mpak_reader \<Rightarrow> bool" where
  "index_consistent r \<longleftrightarrow> (indx_valid r \<longrightarrow>
     indx_present r \<and> entries_ok (file_size r) (indx_entries r)
     \<and> list_all2 indx_agrees (sort_key m_path (members r)) (indx_entries r))"

definition scan_result_ok :: "bytes \<Rightarrow> bool \<Rightarrow> mpak_reader \<Rightarrow> bool" where
  "scan_result_ok content recovery r \<longleftrightarrow>
     reader_ok content recovery (r\<lparr>indx_valid := False\<rparr>) \<and> index_consistent r"

lemma parse_indx_ok: "parse_indx source r = Inr es \<Longrightarrow> entries_ok (file_size r) es"
  by (auto simp: parse_indx_def Let_def entries_ok_def split: if_splits sum.splits
      dest!: parse_indx_entries_ok)

lemma reconcile_ok:
  assumes "reader_ok content recovery (r\<lparr>indx_valid := False\<rparr>)"
    and "indx_present r" and "entries_ok (file_size r) (indx_entries r)"
  shows "scan_result_ok content recovery (reconcile_indx r)"
  using assms
  by (auto simp: scan_result_ok_def index_consistent_def reconcile_indx_def reader_ok_def)

lemma finish_scan_ok:
  assumes "reader_ok content recovery r" and "finish_scan source r = Inr r'"
  shows "scan_result_ok content recovery r'"
proof (cases "indx_present r")
  case False
  with assms show ?thesis
    by (auto simp: finish_scan_def scan_result_ok_def index_consistent_def reader_ok_def)
next
  case True
  show ?thesis
  proof (cases "parse_indx source r")
    case (Inl f)
    with True assms show ?thesis
      by (auto simp: finish_scan_def scan_result_ok_def index_consistent_def reader_ok_def split: if_splits)
  next
    case (Inr es)
    with True assms(2) have "r' = reconcile_indx (r\<lparr>indx_entries := es, indx_valid := True\<rparr>)"
      by (simp add: finish_scan_def)
    moreover have "reader_ok content recovery (r\<lparr>indx_entries := es, indx_valid := True, indx_valid := False\<rparr>)"
      using assms(1) by (simp add: reader_ok_def)
    ultimately show ?thesis
      using True parse_indx_ok [OF Inr] by (auto intro!: reconcile_ok)
  qed
qed

lemma scan_result_members:
  assumes "scan_result_ok content recovery r"
  shows "member r p = Some m \<longleftrightarrow> m \<in> set (members r) \<and> m_path m = p"
proof -
  have idx: "indexes (member_index r) (members r)"
    using assms by (simp add: scan_result_ok_def reader_ok_def)
  show ?thesis
  proof
    assume "member r p = Some m"
    then obtain i where "member_index r p = Some i" "m = members r ! i"
      by (auto simp: member_def)
    with idx show "m \<in> set (members r) \<and> m_path m = p"
      by (auto simp: indexes_def)
  next
    assume "m \<in> set (members r) \<and> m_path m = p"
    then obtain i where "i < length (members r)" "members r ! i = m" "m_path m = p"
      by (auto simp: in_set_conv_nth)
    with idx show "member r p = Some m"
      by (auto simp: indexes_def member_def)
  qed
qed

lemma indx_sha256_present:
  assumes "scan_result_ok content recovery r" and "indx_valid r"
  shows "indx_sha256 r p \<noteq> None \<longleftrightarrow> member r p \<noteq> None"
proof -
  have cons: "entries_ok (file_size r) (indx_entries r)"
    "list_all2 indx_agrees (sort_key m_path (members r)) (indx_entries r)"
    using assms by (auto simp: scan_result_ok_def index_consistent_def)
  have paths: "map m_path (sort_key m_path (members r)) = map ie_path (indx_entries r)"
    using cons(2) by (induction rule: list_all2_induct) (auto simp: indx_agrees_def)
  have "indx_sha256 r p \<noteq> None \<longleftrightarrow> (\<exists>i. indx_search (indx_entries r) p 0 (length (indx_entries r)) = Some i)"
    using assms(2) by (auto simp: indx_sha256_def)
  also have "\<dots> \<longleftrightarrow> p \<in> set (map ie_path (indx_entries r))"
    using cons(1) by (fastforce simp: entries_ok_def indx_search_iff in_set_conv_nth)
  also have "\<dots> \<longleftrightarrow> p \<in> m_path ` set (members r)"
    unfolding paths [symmetric] by simp
  also have "\<dots> \<longleftrightarrow> member r p \<noteq> None"
    using scan_result_members [OF assms(1), of p] by auto
  finally show ?thesis .
qed

context exact_source
begin

lemma finish_scan_not_Io:
  assumes "reader_ok content recovery r"
  shows "finish_scan src r \<noteq> Inl (Io e)"
proof -
  have "\<not> if_io f" if "parse_indx_entries fsize payload k p es = Inl f" for fsize payload k p es f
    using that
    by (induction k arbitrary: p es)
      (auto simp: Let_def indx_malformed_def split: if_splits)
  moreover have "\<exists>out. read_exact src (indx_offset r + BLOCK_HEADER_LEN) (indx_length r) = Inr out" if "indx_present r"
    using assms that by (auto simp: reader_ok_def read_exact_Inr BLOCK_HEADER_LEN_def)
  ultimately show ?thesis
    by (fastforce simp: finish_scan_def parse_indx_def Let_def indx_malformed_def
        split: sum.splits if_splits)
qed

lemma scan_correct:
  assumes "scan src recovery = Inr r"
  shows "scan_result_ok content recovery r"
proof -
  obtain hdr r1 where
    loop: "scan_loop src recovery HEADER_LEN
        (reader_init (bs_size src) (hdr ! 5) (rd_be (slice hdr 8 16) \<noteq> 0)) = Inr r1"
    and fin: "finish_scan src r1 = Inr r"
    using assms by (auto simp: scan_def Let_def split: if_splits sum.splits)
  from loop have "reader_ok content recovery r1"
    by (rule scan_loop_invariant) (simp_all add: size_eq reader_ok_init)
  then show ?thesis
    using fin by (rule finish_scan_ok)
qed

lemma scan_not_Io: "scan src recovery \<noteq> Inl (Io e)"
proof
  assume io: "scan src recovery = Inl (Io e)"
  show False
  proof (cases "bs_size src < HEADER_LEN")
    case True
    with io show False by (simp add: scan_def)
  next
    case False
    then have rd: "read_exact src 0 HEADER_LEN = Inr (slice content 0 16)"
      using read_exact_inside [of 0 16] by (simp add: size_eq HEADER_LEN_def u64_limit_def)
    from io False show False
      by (auto simp: scan_def rd Let_def scan_loop_not_Io size_eq
          dest: scan_loop_invariant finish_scan_not_Io [rotated] simp: reader_ok_init split: if_splits sum.splits)
  qed
qed

text \<open>A member stream yields exactly the member's bytes, whatever the size of the reads.\<close>

lemma member_read_to_end_eq:
  assumes "mr_end s \<le> length content" and "mr_end s < u64_limit" and "0 < n"
  shows "member_read_to_end src n acc s = Inr (acc @ slice content (mr_pos s) (mr_end s))"
  using assms(1,2)
proof (induction "mr_end s - mr_pos s" arbitrary: s acc rule: less_induct)
  case less
  show ?case
  proof (cases "mr_pos s \<ge> mr_end s")
    case True
    then show ?thesis
      by (subst member_read_to_end.simps) simp
  next
    case False
    define want where "want = min n (mr_end s - mr_pos s)"
    have want: "0 < want" "mr_pos s + want \<le> mr_end s"
      using False assms(3) by (auto simp: want_def)
    then have "bs_read_at src (mr_pos s) want = Inr (slice content (mr_pos s) (mr_pos s + want))"
      using less.prems by (intro read_inside) auto
    then have "member_read_to_end src n acc s =
        member_read_to_end src n (acc @ slice content (mr_pos s) (mr_pos s + want)) (s\<lparr>mr_pos := mr_pos s + want\<rparr>)"
      using False assms(3) by (subst member_read_to_end.simps) (simp add: member_read_def want_def Let_def)
    also have "\<dots> = Inr ((acc @ slice content (mr_pos s) (mr_pos s + want)) @ slice content (mr_pos s + want) (mr_end s))"
      using less.hyps [of "s\<lparr>mr_pos := mr_pos s + want\<rparr>"] less.prems want False by simp
    also have "\<dots> = Inr (acc @ slice content (mr_pos s) (mr_end s))"
      using want(2) by (simp add: slice_join)
    finally show ?thesis .
  qed
qed

end

end
