(* ===== verification/Mpak_Write.thy ===== *)
theory Mpak_Write
  imports Mpak_Format
begin

text \<open>
  The deterministic MPAK v1 writer (\<open>write_mpak\<close> of \<open>src/format/mpak/write.rs\<close>). The layout is
  computed before the first byte is written; every member is checked against its declared size
  and SHA-256 while it is copied; \<open>TAIL\<close> holds the digest of everything before it.

  The sink is an in-memory buffer, so the only failures are the writer's own and the source's.
  Its contents are the accumulated bytes; \<open>HashingWriter\<close> hashes exactly those, so its count and
  digest are the length and the SHA-256 of the buffer.
\<close>

section \<open>Pack sources\<close>

record pack_member =
  pm_path :: rstr
  pm_sha256_hex :: rstr

text \<open>
  The trait \<open>PackSource\<close>: manifest bytes, members in canonical order, and the size and content of
  a member; the content is the list of results its reader yields.
\<close>

record pack_source =
  ps_manifest :: bytes
  ps_members :: "pack_member list"
  ps_member_size :: "rstr \<Rightarrow> error + nat"
  ps_read_member :: "rstr \<Rightarrow> error + read_results"

section \<open>Validation and layout\<close>

fun check_members ::
    "pack_source \<Rightarrow> rstr set \<Rightarrow> nat \<Rightarrow> pack_member list \<Rightarrow> error + (nat \<times> nat list)" where
  "check_members source seen agg [] = Inr (agg, [])"
| "check_members source seen agg (m # ms) =
     (let path_len = length (pm_path m) in
      if path_len = 0 \<or> path_len > PATH_MAX_BYTES
      then Inl (invalid ''member path length out of bounds'')
      else if \<not> is_valid_sha256_hex (pm_sha256_hex m)
      then Inl (invalid ''member sha256 is not 64 lowercase hex characters'')
      else if pm_path m \<in> seen then Inl (invalid ''duplicate member path'')
      else case ps_member_size source (pm_path m) of Inl e \<Rightarrow> Inl e | Inr msize \<Rightarrow>
      if msize > MAX_FILE_BYTES then Inl (invalid ''member exceeds the 8 GiB per-file limit'')
      else case checked_add agg msize of
        None \<Rightarrow> Inl (invalid ''aggregate size overflow'')
      | Some agg' \<Rightarrow>
        (case check_members source (insert (pm_path m) seen) agg' ms of
           Inl e \<Rightarrow> Inl e
         | Inr (t, sizes) \<Rightarrow> Inr (t, msize # sizes)))"

fun indx_payload_size :: "nat \<Rightarrow> pack_member list \<Rightarrow> error + nat" where
  "indx_payload_size acc [] = Inr acc"
| "indx_payload_size acc (m # ms) =
     (case checked_add acc (2 + length (pm_path m) + 48) of
        None \<Rightarrow> Inl (invalid ''INDX size overflow'')
      | Some acc' \<Rightarrow> indx_payload_size acc' ms)"

fun member_offsets :: "nat \<Rightarrow> (pack_member \<times> nat) list \<Rightarrow> error + nat list" where
  "member_offsets pos [] = Inr []"
| "member_offsets pos ((m, msize) # ms) =
     (case checked_add pos (BLOCK_HEADER_LEN + 2 + length (pm_path m)) of
        None \<Rightarrow> Inl (invalid ''member offset overflow'')
      | Some off \<Rightarrow>
        (case checked_add off msize of
           None \<Rightarrow> Inl (invalid ''member end overflow'')
         | Some pos' \<Rightarrow>
           (case member_offsets pos' ms of Inl e \<Rightarrow> Inl e | Inr offs \<Rightarrow> Inr (off # offs))))"

section \<open>Emitting the blocks\<close>

definition write_header :: bytes where
  "write_header =
     MAGIC @ [MAJOR_VERSION, MINOR_VERSION] @ be_bytes 2 FLAG_INDX_PRESENT @ replicate 8 0"

definition sorted_indices :: "pack_member list \<Rightarrow> nat list" where
  "sorted_indices ms = sort_key (\<lambda>i. pm_path (ms ! i)) [0..<length ms]"

fun write_indx_entries ::
    "pack_member list \<Rightarrow> nat list \<Rightarrow> nat list \<Rightarrow> bytes \<Rightarrow> nat list \<Rightarrow> error + bytes" where
  "write_indx_entries ms offsets sizes w [] = Inr w"
| "write_indx_entries ms offsets sizes w (i # is) =
     (let path = pm_path (ms ! i);
          w = w @ be_bytes 2 (length path) @ path @ be_bytes 8 (offsets ! i) @ be_bytes 8 (sizes ! i)
      in case sha256_hex_to_bytes (pm_sha256_hex (ms ! i)) of
           None \<Rightarrow> Inl (invalid ''member sha256 is not valid hex'')
         | Some digest \<Rightarrow> write_indx_entries ms offsets sizes (w @ digest) is)"

definition changed_suffix :: rstr where
  "changed_suffix = lit ''-byte member changed during pack''"

text \<open>
  The copy loop of one member: chunks are hashed and appended until an empty read; a read error
  is an I/O error, and the copied byte count is checked for overflow.
\<close>

fun copy_member :: "bytes \<Rightarrow> nat \<Rightarrow> read_results \<Rightarrow> error + (bytes \<times> nat)" where
  "copy_member content copied [] = Inr (content, copied)"
| "copy_member content copied (Inl e # rs) = Inl (Io e)"
| "copy_member content copied (Inr c # rs) =
     (if c = [] then Inr (content, copied)
      else case checked_add copied (length c) of
        None \<Rightarrow> Inl (invalid ''member size overflow'')
      | Some copied' \<Rightarrow> copy_member (content @ c) copied' rs)"

definition write_data ::
    "(bytes \<Rightarrow> bytes) \<Rightarrow> pack_source \<Rightarrow> pack_member \<Rightarrow> nat \<Rightarrow> bytes \<Rightarrow> error + bytes" where
  "write_data sha256 source m msize w =
     (let w = w @ block_header (code Data) (2 + length (pm_path m) + msize)
                @ be_bytes 2 (length (pm_path m)) @ pm_path m
      in case ps_read_member source (pm_path m) of Inl e \<Rightarrow> Inl e | Inr reader \<Rightarrow>
         case copy_member [] 0 reader of Inl e \<Rightarrow> Inl e | Inr (content, copied) \<Rightarrow>
         if copied \<noteq> msize then
           Inl (Checksum (pm_path m) (pm_sha256_hex m) (show_nat copied @ changed_suffix))
         else if to_hex (sha256 content) \<noteq> pm_sha256_hex m then
           Inl (Checksum (pm_path m) (pm_sha256_hex m) (to_hex (sha256 content)))
         else Inr (w @ content))"

fun write_datas ::
    "(bytes \<Rightarrow> bytes) \<Rightarrow> pack_source \<Rightarrow> bytes \<Rightarrow> (pack_member \<times> nat) list \<Rightarrow> error + bytes" where
  "write_datas sha256 source w [] = Inr w"
| "write_datas sha256 source w ((m, msize) # ms) =
     (case write_data sha256 source m msize w of
        Inl e \<Rightarrow> Inl e
      | Inr w' \<Rightarrow> write_datas sha256 source w' ms)"

definition write_tail :: "(bytes \<Rightarrow> bytes) \<Rightarrow> nat \<Rightarrow> bytes \<Rightarrow> bytes" where
  "write_tail sha256 n_members w =
     (let total_size = length w + BLOCK_HEADER_LEN + TAIL_PAYLOAD_LEN
      in w @ block_header (code Tail) TAIL_PAYLOAD_LEN
           @ be_bytes 8 total_size @ be_bytes 4 n_members @ be_bytes 8 HEADER_LEN @ sha256 w)"

section \<open>The writer\<close>

definition write_mpak :: "(bytes \<Rightarrow> bytes) \<Rightarrow> pack_source \<Rightarrow> error + bytes" where
  "write_mpak sha256 source =
     (let man = ps_manifest source; ms = ps_members source in
      if length man > MAX_MANIFEST_LEN
      then Inl (invalid ''manifest exceeds the 16 MiB container budget'')
      else if length ms > MAX_MEMBERS then Inl (invalid ''more than 4096 members'')
      else case check_members source {} 0 ms of Inl e \<Rightarrow> Inl e | Inr (agg, sizes) \<Rightarrow>
      if agg > MAX_TOTAL_BYTES
      then Inl (invalid ''aggregate member bytes exceed the 64 GiB limit'')
      else case indx_payload_size 4 ms of Inl e \<Rightarrow> Inl e | Inr indx_payload \<Rightarrow>
      case member_offsets
             (HEADER_LEN + BLOCK_HEADER_LEN + indx_payload + BLOCK_HEADER_LEN + length man)
             (zip ms sizes) of Inl e \<Rightarrow> Inl e | Inr offsets \<Rightarrow>
      let w = write_header @ block_header (code Indx) indx_payload @ be_bytes 4 (length ms) in
      case write_indx_entries ms offsets sizes w (sorted_indices ms) of Inl e \<Rightarrow> Inl e | Inr w \<Rightarrow>
      let w = w @ block_header (code Manf) (length man) @ man in
      case write_datas sha256 source w (zip ms sizes) of Inl e \<Rightarrow> Inl e | Inr w \<Rightarrow>
      Inr (write_tail sha256 (length ms) w))"

end
