(* ===== verification/Mpak_Layout.thy ===== *)
theory Mpak_Layout
  imports Mpak_Write
begin

text \<open>
  The bytes a successful pack consists of: the functional form of \<open>write_mpak\<close>. \<open>layout_ok\<close> lists
  what the writer has checked about sizes, offsets and contents, and \<open>container\<close> is the file as the
  concatenation of its five parts.
\<close>

section \<open>The parts of a container\<close>

definition entry_bytes :: "rstr \<Rightarrow> nat \<Rightarrow> nat \<Rightarrow> bytes \<Rightarrow> bytes" where
  "entry_bytes path off len digest =
     be_bytes 2 (length path) @ path @ be_bytes 8 off @ be_bytes 8 len @ digest"

definition data_block :: "rstr \<Rightarrow> bytes \<Rightarrow> bytes" where
  "data_block path content =
     block_header (code Data) (2 + length path + length content)
       @ be_bytes 2 (length path) @ path @ content"

definition declared :: "pack_member \<Rightarrow> bytes" where
  "declared m = the (sha256_hex_to_bytes (pm_sha256_hex m))"

definition indx_payload :: "pack_member list \<Rightarrow> nat list \<Rightarrow> nat list \<Rightarrow> bytes" where
  "indx_payload ms offs sizes = be_bytes 4 (length ms)
     @ concat (map (\<lambda>i. entry_bytes (pm_path (ms ! i)) (offs ! i) (sizes ! i) (declared (ms ! i)))
          (sorted_indices ms))"

definition container_prefix ::
    "bytes \<Rightarrow> pack_member list \<Rightarrow> nat list \<Rightarrow> bytes list \<Rightarrow> bytes" where
  "container_prefix man ms offs contents =
     write_header
       @ block_header (code Indx) (length (indx_payload ms offs (map length contents)))
       @ indx_payload ms offs (map length contents)
       @ block_header (code Manf) (length man) @ man
       @ concat (map2 (\<lambda>m c. data_block (pm_path m) c) ms contents)"

fun offsets_from :: "nat \<Rightarrow> pack_member list \<Rightarrow> bytes list \<Rightarrow> nat list" where
  "offsets_from pos (m # ms) (c # cs) =
     (let off = pos + (14 + 2 + length (pm_path m)) in off # offsets_from (off + length c) ms cs)"
| "offsets_from pos _ _ = []"

section \<open>What the checks establish\<close>

lemma check_members_Inr:
  assumes "check_members source seen agg ms = Inr (tot, sizes)"
  shows "length sizes = length ms \<and> distinct (map pm_path ms) \<and> set (map pm_path ms) \<inter> seen = {}
    \<and> tot = agg + sum_list sizes
    \<and> (\<forall>m\<in>set ms. 0 < length (pm_path m) \<and> length (pm_path m) \<le> PATH_MAX_BYTES
         \<and> is_valid_sha256_hex (pm_sha256_hex m))
    \<and> (\<forall>s\<in>set sizes. s \<le> MAX_FILE_BYTES)
    \<and> list_all2 (\<lambda>m s. ps_member_size source (pm_path m) = Inr s) ms sizes"
  using assms
proof (induction ms arbitrary: seen agg tot sizes)
  case Nil
  then show ?case by simp
next
  case (Cons m ms)
  then obtain s sizes' where
    rest: "check_members source (insert (pm_path m) seen) (agg + s) ms = Inr (tot, sizes')"
    and "sizes = s # sizes'"
    by (auto simp: Let_def split: if_splits sum.splits option.splits)
  with Cons.prems Cons.IH [OF rest] show ?case
    by (auto simp: Let_def split: if_splits sum.splits option.splits)
qed

lemma indx_payload_size_Inr:
  "indx_payload_size acc ms = Inr n \<Longrightarrow> n = acc + sum_list (map (\<lambda>m. 50 + length (pm_path m)) ms)"
  by (induction ms arbitrary: acc) (fastforce split: option.splits)+

lemma member_offsets_Inr:
  "member_offsets pos (zip ms (map length cs)) = Inr offs \<Longrightarrow> length ms = length cs
    \<Longrightarrow> offs = offsets_from pos ms cs"
proof (induction ms arbitrary: pos cs offs)
  case Nil
  then show ?case by simp
next
  case (Cons m ms)
  then obtain c cs' where cs: "cs = c # cs'" "length ms = length cs'"
    by (cases cs) auto
  define off where "off = pos + (14 + 2 + length (pm_path m))"
  obtain offs' where "offs = off # offs'" and "member_offsets (off + length c) (zip ms (map length cs')) = Inr offs'"
    using Cons.prems(1) cs
    by (auto simp: BLOCK_HEADER_LEN_def off_def split: option.splits sum.splits)
  with Cons.IH cs(2) have "offs = off # offsets_from (off + length c) ms cs'"
    by simp
  then show ?case
    by (simp add: cs(1) off_def Let_def)
qed

lemma copy_member_Inr:
  "copy_member acc (length acc) rs = Inr (content, copied) \<Longrightarrow> copied = length content"
proof (induction rs arbitrary: acc)
  case Nil
  then show ?case by auto
next
  case (Cons r rs)
  show ?case
  proof (cases r)
    case (Inl e)
    with Cons.prems show ?thesis by simp
  next
    case (Inr c)
    with Cons.prems Cons.IH [of "acc @ c"] show ?thesis
      by (auto split: if_splits option.splits)
  qed
qed

text \<open>What the copy of one member has established about its content.\<close>

definition packed :: "(bytes \<Rightarrow> bytes) \<Rightarrow> pack_source \<Rightarrow> pack_member \<Rightarrow> nat \<Rightarrow> bytes \<Rightarrow> bool" where
  "packed sha256 source m msize content \<longleftrightarrow>
     (\<exists>reader. ps_read_member source (pm_path m) = Inr reader
        \<and> copy_member [] 0 reader = Inr (content, length content))
     \<and> length content = msize \<and> to_hex (sha256 content) = pm_sha256_hex m"

lemma write_data_Inr:
  assumes "write_data sha256 source m msize w = Inr w'"
  obtains content where "w' = w @ data_block (pm_path m) content" "packed sha256 source m msize content"
proof -
  obtain reader content copied where r: "ps_read_member source (pm_path m) = Inr reader"
    "copy_member [] 0 reader = Inr (content, copied)" "copied = msize"
    "to_hex (sha256 content) = pm_sha256_hex m"
    and w': "w' = (w @ block_header (code Data) (2 + length (pm_path m) + msize)
                @ be_bytes 2 (length (pm_path m)) @ pm_path m) @ content"
    using assms by (auto simp: write_data_def Let_def split: if_splits sum.splits prod.splits)
  have "copied = length content"
    using copy_member_Inr [of "[]"] r(2) by simp
  with r w' that [of content] show ?thesis
    by (auto simp: data_block_def packed_def)
qed

lemma write_datas_Inr:
  assumes "write_datas sha256 source w (zip ms sizes) = Inr w'" and "length sizes = length ms"
  shows "\<exists>contents. length contents = length ms \<and> sizes = map length contents
    \<and> w' = w @ concat (map2 (\<lambda>m c. data_block (pm_path m) c) ms contents)
    \<and> list_all2 (\<lambda>m c. packed sha256 source m (length c) c) ms contents"
  using assms
proof (induction ms arbitrary: w sizes)
  case Nil
  then show ?case by simp
next
  case (Cons m ms)
  then obtain s sizes' where sizes: "sizes = s # sizes'" "length sizes' = length ms"
    by (cases sizes) auto
  with Cons.prems(1) obtain w1 where w1: "write_data sha256 source m s w = Inr w1"
    and rest: "write_datas sha256 source w1 (zip ms sizes') = Inr w'"
    by (auto split: sum.splits)
  from w1 obtain c where c: "w1 = w @ data_block (pm_path m) c" "packed sha256 source m s c"
    by (rule write_data_Inr)
  from Cons.IH [OF rest sizes(2)] obtain cs where "length cs = length ms" "sizes' = map length cs"
    "w' = w1 @ concat (map2 (\<lambda>m c. data_block (pm_path m) c) ms cs)"
    "list_all2 (\<lambda>m c. packed sha256 source m (length c) c) ms cs"
    by blast
  with c sizes show ?case
    by (intro exI [of _ "c # cs"]) (auto simp: packed_def)
qed

lemma write_indx_entries_Inr:
  assumes "\<forall>i\<in>set is. sha256_hex_to_bytes (pm_sha256_hex (ms ! i)) \<noteq> None"
  shows "write_indx_entries ms offs sizes w is = Inr (w @ concat
    (map (\<lambda>i. entry_bytes (pm_path (ms ! i)) (offs ! i) (sizes ! i) (declared (ms ! i))) is))"
  using assms
  by (induction "is" arbitrary: w) (auto simp: entry_bytes_def declared_def Let_def)

lemma set_sorted_indices [simp]: "set (sorted_indices ms) = {0..<length ms}"
  by (simp add: sorted_indices_def)

lemma length_declared: "is_valid_sha256_hex (pm_sha256_hex m) \<Longrightarrow> length (declared m) = 32"
  by (simp add: declared_def sha256_hex_to_bytes_def DIGEST_LEN_def)

lemma mset_sorted_indices: "mset (sorted_indices ms) = mset [0..<length ms]"
  by (simp add: sorted_indices_def)

lemma sum_list_sorted_indices:
  fixes f :: "nat \<Rightarrow> nat"
  shows "sum_list (map f (sorted_indices ms)) = sum_list (map f [0..<length ms])"
proof -
  have "sum_mset (mset (map f (sorted_indices ms))) = sum_mset (mset (map f [0..<length ms]))"
    by (simp only: mset_map mset_sorted_indices)
  then show ?thesis
    by (simp only: sum_mset_sum_list)
qed

lemma length_indx_payload:
  assumes "\<forall>m\<in>set ms. is_valid_sha256_hex (pm_sha256_hex m)"
  shows "length (indx_payload ms offs sizes) = 4 + sum_list (map (\<lambda>m. 50 + length (pm_path m)) ms)"
proof -
  have "length (entry_bytes (pm_path (ms ! i)) (offs ! i) (sizes ! i) (declared (ms ! i)))
      = 50 + length (pm_path (ms ! i))" if "i \<in> set (sorted_indices ms)" for i
    using that assms by (simp add: entry_bytes_def length_declared)
  then have eq: "map (\<lambda>i. length (entry_bytes (pm_path (ms ! i)) (offs ! i) (sizes ! i) (declared (ms ! i)))) (sorted_indices ms)
      = map (\<lambda>i. 50 + length (pm_path (ms ! i))) (sorted_indices ms)"
    by (intro map_cong refl)
  have "length (indx_payload ms offs sizes) = 4 + sum_list (map (\<lambda>i. length
      (entry_bytes (pm_path (ms ! i)) (offs ! i) (sizes ! i) (declared (ms ! i)))) (sorted_indices ms))"
    by (simp add: indx_payload_def length_concat comp_def)
  also have "\<dots> = 4 + sum_list (map (\<lambda>i. 50 + length (pm_path (ms ! i))) (sorted_indices ms))"
    by (simp only: eq)
  also have "\<dots> = 4 + sum_list (map (\<lambda>i. 50 + length (pm_path (ms ! i))) [0..<length ms])"
    by (simp only: sum_list_sorted_indices)
  also have "map (\<lambda>i. 50 + length (pm_path (ms ! i))) [0..<length ms] = map (\<lambda>m. 50 + length (pm_path m)) ms"
    by (rule nth_equalityI) simp_all
  finally show ?thesis .
qed

section \<open>The functional form of the writer\<close>

record layout =
  lo_offsets :: "nat list"
  lo_contents :: "bytes list"

definition layout_ok :: "(bytes \<Rightarrow> bytes) \<Rightarrow> pack_source \<Rightarrow> layout \<Rightarrow> bool" where
  "layout_ok sha256 source l \<longleftrightarrow>
     (let man = ps_manifest source; ms = ps_members source; cs = lo_contents l in
      length man \<le> MAX_MANIFEST_LEN \<and> length ms \<le> MAX_MEMBERS \<and> length cs = length ms
      \<and> distinct (map pm_path ms)
      \<and> (\<forall>m\<in>set ms. 0 < length (pm_path m) \<and> length (pm_path m) \<le> PATH_MAX_BYTES
           \<and> is_valid_sha256_hex (pm_sha256_hex m))
      \<and> (\<forall>c\<in>set cs. length c \<le> MAX_FILE_BYTES)
      \<and> sum_list (map length cs) \<le> MAX_TOTAL_BYTES
      \<and> list_all2 (\<lambda>m c. packed sha256 source m (length c) c) ms cs
      \<and> lo_offsets l = offsets_from
          (length (write_header @ block_header (code Indx) 0
             @ indx_payload ms (lo_offsets l) (map length cs) @ block_header (code Manf) 0 @ man)) ms cs)"

definition container :: "(bytes \<Rightarrow> bytes) \<Rightarrow> pack_source \<Rightarrow> layout \<Rightarrow> bytes" where
  "container sha256 source l = write_tail sha256 (length (ps_members source))
     (container_prefix (ps_manifest source) (ps_members source) (lo_offsets l) (lo_contents l))"

lemma length_write_header [simp]: "length write_header = 16"
  by (simp add: write_header_def MAGIC_def lit_def)

lemma write_mpak_Inr_sizes:
  assumes "write_mpak sha256 source = Inr out"
  obtains l where "layout_ok sha256 source l" "out = container sha256 source l"
    "list_all2 (\<lambda>m c. ps_member_size source (pm_path m) = Inr (length c)) (ps_members source) (lo_contents l)"
proof -
  define man ms where "man = ps_manifest source" and "ms = ps_members source"
  obtain agg sizes n offs w1 w2 where
    len: "length man \<le> MAX_MANIFEST_LEN" "length ms \<le> MAX_MEMBERS" "agg \<le> MAX_TOTAL_BYTES"
    and chk: "check_members source {} 0 ms = Inr (agg, sizes)"
    and ind: "indx_payload_size 4 ms = Inr n"
    and off: "member_offsets (HEADER_LEN + BLOCK_HEADER_LEN + n + BLOCK_HEADER_LEN + length man)
        (zip ms sizes) = Inr offs"
    and ent: "write_indx_entries ms offs sizes
        (write_header @ block_header (code Indx) n @ be_bytes 4 (length ms)) (sorted_indices ms) = Inr w1"
    and dat: "write_datas sha256 source (w1 @ block_header (code Manf) (length man) @ man) (zip ms sizes) = Inr w2"
    and out: "out = write_tail sha256 (length ms) w2"
    using assms unfolding write_mpak_def Let_def man_def [symmetric] ms_def [symmetric]
    by (auto split: if_splits sum.splits prod.splits)
  note c = check_members_Inr [OF chk]
  from write_datas_Inr [OF dat] c obtain contents where
    con: "length contents = length ms" "sizes = map length contents"
      "w2 = (w1 @ block_header (code Manf) (length man) @ man)
         @ concat (map2 (\<lambda>m c. data_block (pm_path m) c) ms contents)"
      "list_all2 (\<lambda>m c. packed sha256 source m (length c) c) ms contents"
    by auto
  have hex: "\<forall>i\<in>set (sorted_indices ms). sha256_hex_to_bytes (pm_sha256_hex (ms ! i)) \<noteq> None"
    using c by (simp add: sha256_hex_to_bytes_def)
  have n: "n = length (indx_payload ms offs sizes)"
    using indx_payload_size_Inr [OF ind] c by (simp add: length_indx_payload)
  have w1: "w1 = write_header @ block_header (code Indx) n @ indx_payload ms offs sizes"
    using ent write_indx_entries_Inr [OF hex, of offs sizes] by (simp add: indx_payload_def)
  have offs: "offs = offsets_from (30 + n + 14 + length man) ms contents"
    using member_offsets_Inr off con by (simp add: HEADER_LEN_def BLOCK_HEADER_LEN_def)
  define l where "l = \<lparr>lo_offsets = offs, lo_contents = contents\<rparr>"
  have "layout_ok sha256 source l"
    using len c con offs n
    by (simp add: layout_ok_def l_def Let_def man_def [symmetric] ms_def [symmetric] add.assoc add.left_commute)
  moreover have "out = container sha256 source l"
    using out w1 con n
    by (simp add: container_def container_prefix_def l_def man_def [symmetric] ms_def [symmetric])
  moreover have "list_all2 (\<lambda>m c. ps_member_size source (pm_path m) = Inr (length c)) (ps_members source) (lo_contents l)"
    using c con(2) by (simp add: l_def ms_def [symmetric] list_all2_map2)
  ultimately show ?thesis by (rule that)
qed

lemma write_mpak_Inr:
  assumes "write_mpak sha256 source = Inr out"
  obtains l where "layout_ok sha256 source l" "out = container sha256 source l"
  using assms by (elim write_mpak_Inr_sizes) (rule that)

end
