(* ===== verification/Mpak_Roundtrip.thy ===== *)
theory Mpak_Roundtrip
  imports Mpak_Scan Mpak_Layout
begin

text \<open>
  Reading back what the writer wrote: scanning a packed container yields exactly the packed
  members, at the offsets the writer computed, with the manifest, a valid index and the trailer.
\<close>

section \<open>One well-formed block\<close>

lemma rd_u64_be_bytes: "n < u64_limit \<Longrightarrow> rd_u64 (be_bytes 8 n) = n"
  by (simp add: rd_u64_def wire u64_limit_def)

lemma rd_u32_be_bytes: "n < 2 ^ 32 \<Longrightarrow> rd_u32 (be_bytes 4 n) = n"
  by (simp add: rd_u32_def wire)

lemma rd_u16_be_bytes: "n < 2 ^ 16 \<Longrightarrow> rd_u16 (be_bytes 2 n) = n"
  by (simp add: rd_u16_def wire)

lemma slice_at:
  "length pre = a \<Longrightarrow> b = a + length mid \<Longrightarrow> slice (pre @ mid @ post) a b = mid"
  by (simp add: slice_def)

lemma slice_in:
  "xs = pre @ mid @ post \<Longrightarrow> length pre = a \<Longrightarrow> b = a + length mid \<Longrightarrow> slice xs a b = mid"
  by (simp add: slice_at)

lemma framing_ok_block_header:
  assumes "length ty = 4" and "n \<le> MAX_BLOCK_LENGTH"
  shows "framing_ok (block_header ty n)"
proof -
  define crc where "crc = crc16_buypass (ty @ be_bytes 8 n)"
  have hdr: "block_header ty n = ty @ be_bytes 8 n @ be_bytes 2 (unat crc)"
    by (simp add: block_header_def crc_def Let_def)
  have "slice (block_header ty n) 0 12 = ty @ be_bytes 8 n"
    unfolding hdr using slice_at [of "[]" 0 12 "ty @ be_bytes 8 n" "be_bytes 2 (unat crc)"] assms(1) by simp
  moreover have "slice (block_header ty n) 4 12 = be_bytes 8 n"
    unfolding hdr using slice_at [of ty 4 12 "be_bytes 8 n" "be_bytes 2 (unat crc)"] assms(1) by simp
  moreover have "slice (block_header ty n) 12 14 = be_bytes 2 (unat crc)"
    unfolding hdr using slice_at [of "ty @ be_bytes 8 n" 12 14 "be_bytes 2 (unat crc)" "[]"] assms(1) by simp
  moreover have "unat crc < 2 ^ 16"
    using unsigned_less [of crc, where 'a = nat] by simp
  moreover have "n < u64_limit"
    using assms(2) by (simp add: MAX_BLOCK_LENGTH_def u64_limit_def)
  ultimately show ?thesis
    using assms by (simp add: framing_ok_def crc_def rd_u16_be_bytes rd_u64_be_bytes)
qed

lemma block_header_slices:
  assumes "length ty = 4" and "n < u64_limit" and "length pre = pos"
    and "content = pre @ block_header ty n @ post"
  shows "slice content pos (pos + 14) = block_header ty n"
    and "slice content pos (pos + 4) = ty"
    and "rd_u64 (slice content (pos + 4) (pos + 12)) = n"
proof -
  let ?crc = "be_bytes 2 (unat (crc16_buypass (ty @ be_bytes 8 n)))"
  have c: "content = pre @ ty @ be_bytes 8 n @ ?crc @ post"
    using assms(4) by (simp add: block_header_def Let_def)
  show "slice content pos (pos + 14) = block_header ty n"
    using assms(1,3) unfolding assms(4) by (intro slice_at) simp_all
  show "slice content pos (pos + 4) = ty"
    using assms(1,3) unfolding c by (intro slice_at) simp_all
  have "slice content (pos + 4) (pos + 12) = be_bytes 8 n"
    using slice_at [of "pre @ ty" "pos + 4" "pos + 12" "be_bytes 8 n" "?crc @ post"] assms(1,3)
    unfolding c by simp
  then show "rd_u64 (slice content (pos + 4) (pos + 12)) = n"
    using assms(2) by (simp add: rd_u64_be_bytes)
qed

context exact_source
begin

lemma scan_wf_block:
  assumes content: "content = pre @ block_header ty n @ payload @ post"
    and ty: "length ty = 4" and pos: "length pre = pos" and payload: "length payload = n"
    and n: "n \<le> MAX_BLOCK_LENGTH" and size: "length content < u64_limit"
  shows "scan_loop src recovery pos r =
    (case scan_block src recovery r ty pos (pos + 14) n of
       Inl e \<Rightarrow> Inl e
     | Inr r' \<Rightarrow> scan_loop src recovery (pos + 14 + n) r')"
proof -
  have n': "n < u64_limit"
    using n by (simp add: MAX_BLOCK_LENGTH_def u64_limit_def)
  have len: "length content = pos + 14 + n + length post"
    using content ty pos payload by simp
  note sl = block_header_slices [OF ty n' pos, of content "payload @ post", OF content]
  have fits: "header_fits pos" "block_fits pos"
    using len size framing_ok_block_header [OF ty n] sl by auto
  show ?thesis
    using scan_loop_block [OF fits, of recovery r] unfolding sl .
qed

lemma read_exact_at:
  assumes "content = pre @ mid @ post" and "length pre = off" and "length mid = n"
    and "length content < u64_limit"
  shows "read_exact src off n = Inr mid"
proof -
  have "slice content off (off + n) = mid"
    using assms(2,3) unfolding assms(1) by (intro slice_at) simp_all
  with assms show ?thesis by (subst read_exact_inside) simp_all
qed

section \<open>DATA blocks\<close>

lemma scan_data_payload_wf:
  assumes content: "content = pre @ be_bytes 2 (length path) @ path @ c @ post" and pp: "length pre = pp"
    and path: "0 < length path" "length path \<le> PATH_MAX_BYTES" "utf8_valid path" "validate path = Inr ()"
    and c: "length c \<le> MAX_FILE_BYTES" and size: "length content < u64_limit"
  shows "scan_data_payload src r pp (2 + length path + length c) recovery =
    add_member r path (pp + 2 + length path) (length c)"
proof -
  have r1: "read_exact src pp 2 = Inr (be_bytes 2 (length path))"
    using content pp size by (intro read_exact_at) simp_all
  have r2: "read_exact src (pp + 2) (length path) = Inr path"
    by (rule read_exact_at [where pre = "pre @ be_bytes 2 (length path)" and post = "c @ post"])
      (use content pp size in simp_all)
  have n: "rd_u16 (be_bytes 2 (length path)) = length path"
    using path(2) by (intro rd_u16_be_bytes) (simp add: PATH_MAX_BYTES_def)
  have lens: "\<not> 2 + length path + length c < 2" "\<not> (length path = 0 \<or> length path > PATH_MAX_BYTES)"
    "\<not> length path + 2 > 2 + length path + length c" "2 + length path + length c - 2 - length path = length c"
    using path by auto
  show ?thesis
    unfolding scan_data_payload_def if_not_P [OF lens(1)] r1 sum.case n Let_def
      if_not_P [OF lens(2)] if_not_P [OF lens(3)] r2 lens(4)
    using path c by simp
qed

end

text \<open>The members a list of \<open>DATA\<close> blocks starting at \<open>pos\<close> declares.\<close>

fun data_members :: "nat \<Rightarrow> rstr list \<Rightarrow> bytes list \<Rightarrow> mpak_member list" where
  "data_members pos (p # ps) (c # cs) =
     \<lparr>m_path = p, m_offset = pos + 16 + length p, m_length = length c\<rparr>
       # data_members (pos + 16 + length p + length c) ps cs"
| "data_members pos _ _ = []"

definition path_wf :: "rstr \<Rightarrow> bool" where
  "path_wf p \<longleftrightarrow> utf8_valid p \<and> validate p = Inr ()"

lemma path_wf_length: "path_wf p \<Longrightarrow> 0 < length p \<and> length p \<le> PATH_MAX_BYTES"
  by (auto simp: path_wf_def validate_def validate_reason_def split: if_splits)

lemma map_m_path_data_members: "length ps = length cs \<Longrightarrow> map m_path (data_members pos ps cs) = ps"
  by (induction pos ps cs rule: data_members.induct) auto

lemma length_data_members [simp]: "length ps = length cs \<Longrightarrow> length (data_members pos ps cs) = length ps"
  by (induction pos ps cs rule: data_members.induct) auto

context exact_source
begin

lemma scan_data_block_wf:
  assumes content: "content = pre @ data_block p c @ post" and pos: "length pre = pos"
    and wf: "path_wf p" and c: "length c \<le> MAX_FILE_BYTES" and size: "length content < u64_limit"
    and room: "length (members r) < MAX_MEMBERS" and new: "member_index r p = None"
  shows "scan_loop src recovery pos r =
    scan_loop src recovery (pos + 16 + length p + length c)
      (r\<lparr>member_index := (member_index r)(p \<mapsto> length (members r)),
         members := members r @ [\<lparr>m_path = p, m_offset = pos + 16 + length p, m_length = length c\<rparr>]\<rparr>)"
proof -
  let ?n = "2 + length p + length c"
  have block: "content = pre @ block_header (code Data) ?n @ (be_bytes 2 (length p) @ p @ c) @ post"
    using content by (simp only: data_block_def append_assoc)
  have n: "?n \<le> MAX_BLOCK_LENGTH"
    using path_wf_length [OF wf] c by (simp add: MAX_BLOCK_LENGTH_def MAX_FILE_BYTES_def PATH_MAX_BYTES_def)
  have "scan_data_payload src r (pos + 14) ?n recovery = add_member r p (pos + 14 + 2 + length p) (length c)"
  proof (rule scan_data_payload_wf)
    show "content = (pre @ block_header (code Data) ?n) @ be_bytes 2 (length p) @ p @ c @ post"
      using block by (simp only: append_assoc)
  qed (use pos wf path_wf_length [OF wf] c size in \<open>simp_all add: path_wf_def del: code.simps\<close>)
  then have "scan_block src recovery r (code Data) pos (pos + 14) ?n =
      Inr (r\<lparr>member_index := (member_index r)(p \<mapsto> length (members r)),
         members := members r @ [\<lparr>m_path = p, m_offset = pos + 16 + length p, m_length = length c\<rparr>]\<rparr>)"
    using room new
    by (simp add: scan_block_def from_code_code add_member_def del: code.simps)
  then show ?thesis
    by (subst scan_wf_block [OF block]) (use pos n size in \<open>simp_all add: ac_simps del: code.simps\<close>)
qed

lemma length_data_block [simp]: "length (data_block p c) = 16 + length p + length c"
  by (simp add: data_block_def)

lemma scan_data_blocks:
  assumes "content = pre @ concat (map2 data_block ps cs) @ post" and "length pre = pos"
    and "length ps = length cs" and "list_all path_wf ps" and "\<forall>c\<in>set cs. length c \<le> MAX_FILE_BYTES"
    and "length content < u64_limit" and "length (members r) + length ps \<le> MAX_MEMBERS"
    and "indexes (member_index r) (members r)" and "distinct (map m_path (members r) @ ps)"
  shows "\<exists>idx. scan_loop src recovery pos r =
      scan_loop src recovery (pos + length (concat (map2 data_block ps cs)))
        (r\<lparr>member_index := idx, members := members r @ data_members pos ps cs\<rparr>)
    \<and> indexes idx (members r @ data_members pos ps cs)"
  using assms
proof (induction ps arbitrary: pre pos cs r)
  case Nil
  have "r\<lparr>member_index := member_index r, members := members r\<rparr> = r"
    by simp
  with Nil show ?case
    by (intro exI [of _ "member_index r"]) simp
next
  case (Cons p ps)
  then obtain c cs' where cs: "cs = c # cs'" "length ps = length cs'"
    by (cases cs) auto
  define m where "m = \<lparr>m_path = p, m_offset = pos + 16 + length p, m_length = length c\<rparr>"
  define r1 where "r1 = r\<lparr>member_index := (member_index r)(p \<mapsto> length (members r)), members := members r @ [m]\<rparr>"
  have new: "member_index r p = None"
    using Cons.prems(8,9) by (simp add: indexes_lookup)
  have c1: "content = pre @ data_block p c @ concat (map2 data_block ps cs') @ post"
    using Cons.prems(1) cs by simp
  have step: "scan_loop src recovery pos r = scan_loop src recovery (pos + 16 + length p + length c) r1"
    unfolding r1_def m_def
    by (rule scan_data_block_wf [OF c1]) (use Cons.prems new cs in auto)
  have "\<exists>idx. scan_loop src recovery (pos + 16 + length p + length c) r1 =
      scan_loop src recovery (pos + 16 + length p + length c + length (concat (map2 data_block ps cs')))
        (r1\<lparr>member_index := idx, members := members r1 @ data_members (pos + 16 + length p + length c) ps cs'\<rparr>)
    \<and> indexes idx (members r1 @ data_members (pos + 16 + length p + length c) ps cs')"
  proof (rule Cons.IH)
    show "content = (pre @ data_block p c) @ concat (map2 data_block ps cs') @ post"
      using c1 by simp
    show "indexes (member_index r1) (members r1)"
      using indexes_snoc [OF Cons.prems(8) new, of m] by (simp add: r1_def m_def)
  qed (use Cons.prems cs in \<open>auto simp: r1_def m_def\<close>)
  with step cs show ?case
    by (auto simp: r1_def m_def add.assoc)
qed

end

section \<open>The index\<close>

lemma parse_indx_entries_wf:
  assumes "payload = pre @ concat (map (\<lambda>e. entry_bytes (ie_path e) (ie_offset e) (ie_length e) (ie_sha256 e)) es)"
    and "length pre = p" and "sorted_wrt (<) (map ie_path (acc @ es))"
    and "\<forall>e\<in>set es. path_wf (ie_path e) \<and> ie_length e \<le> MAX_FILE_BYTES
        \<and> ie_offset e + ie_length e \<le> fsize \<and> length (ie_sha256 e) = 32"
    and "fsize < u64_limit"
  shows "parse_indx_entries fsize payload (length es) p acc = Inr (length payload, acc @ es)"
  using assms(1-4)
proof (induction es arbitrary: pre p acc)
  case Nil
  then show ?case by simp
next
  case (Cons e es)
  define rest where "rest = concat (map (\<lambda>e. entry_bytes (ie_path e) (ie_offset e) (ie_length e) (ie_sha256 e)) es)"
  define path n q where "path = ie_path e" and "n = length path" and "q = p + 2 + n"
  have payload: "payload = pre @ be_bytes 2 n @ path @ be_bytes 8 (ie_offset e) @ be_bytes 8 (ie_length e)
      @ ie_sha256 e @ rest"
    using Cons.prems(1) by (simp add: entry_bytes_def rest_def path_def n_def)
  have wf: "path_wf path" "ie_length e \<le> MAX_FILE_BYTES" "ie_offset e + ie_length e \<le> fsize"
    "length (ie_sha256 e) = 32"
    using Cons.prems(4) by (simp_all add: path_def)
  then have n: "n \<noteq> 0" "n \<le> PATH_MAX_BYTES"
    using path_wf_length by (auto simp: n_def)
  have s1: "slice payload p (p + 2) = be_bytes 2 n"
    unfolding payload using Cons.prems(2) by (intro slice_at) simp_all
  have lp: "length pre = p" by (rule Cons.prems(2))
  have s2: "slice payload (p + 2) q = path"
    by (rule slice_in [where pre = "pre @ be_bytes 2 n"]) (simp_all add: payload lp n_def q_def)
  have s3: "slice payload q (q + 8) = be_bytes 8 (ie_offset e)"
    by (rule slice_in [where pre = "pre @ be_bytes 2 n @ path"]) (simp_all add: payload lp q_def n_def)
  have s4: "slice payload (q + 8) (q + 16) = be_bytes 8 (ie_length e)"
    by (rule slice_in [where pre = "pre @ be_bytes 2 n @ path @ be_bytes 8 (ie_offset e)"])
      (simp_all add: payload lp q_def n_def)
  have s5: "slice payload (q + 16) (q + 48) = ie_sha256 e"
    by (rule slice_in [where pre = "pre @ be_bytes 2 n @ path @ be_bytes 8 (ie_offset e) @ be_bytes 8 (ie_length e)"])
      (simp_all add: payload lp q_def n_def wf)
  have len: "q + 48 \<le> length payload"
    using Cons.prems(2) wf(4) unfolding payload q_def n_def by simp
  have rd: "rd_u16 (be_bytes 2 n) = n" "rd_u64 (be_bytes 8 (ie_offset e)) = ie_offset e"
    "rd_u64 (be_bytes 8 (ie_length e)) = ie_length e"
    using n(2) wf assms(5) by (simp_all add: rd_u16_be_bytes rd_u64_be_bytes PATH_MAX_BYTES_def)
  have last: "acc \<noteq> [] \<Longrightarrow> ie_path (last acc) < path"
    using Cons.prems(3) by (auto simp: sorted_wrt_append path_def)
  have "parse_indx_entries fsize payload (Suc (length es)) p acc
      = parse_indx_entries fsize payload (length es) (q + 48) (acc @ [e])"
  proof -
    have g: "\<not> p + 2 > length payload"
      "\<not> (n = 0 \<or> n > PATH_MAX_BYTES \<or> q > length payload)"
      "\<not> \<not> utf8_valid path" "\<not> validate path \<noteq> Inr ()"
      "\<not> (acc \<noteq> [] \<and> ie_path (last acc) = path)"
      "\<not> (acc \<noteq> [] \<and> \<not> ie_path (last acc) < path)"
      "\<not> q + 48 > length payload" "\<not> ie_length e > MAX_FILE_BYTES"
      "\<not> \<not> (ie_offset e + ie_length e < u64_limit \<and> ie_offset e + ie_length e \<le> fsize)"
      using len n wf last assms(5) by (auto simp: q_def path_wf_def)
    have e: "\<lparr>ie_path = path, ie_offset = ie_offset e, ie_length = ie_length e, ie_sha256 = ie_sha256 e\<rparr> = e"
      by (simp add: path_def)
    show ?thesis
      unfolding parse_indx_entries.simps Let_def s1 rd q_def [symmetric] s2 s3 s4 s5
      by (simp only: g e if_not_P if_False not_not simp_thms)
  qed
  also have "\<dots> = Inr (length payload, (acc @ [e]) @ es)"
  proof (rule Cons.IH)
    show "payload = (pre @ entry_bytes (ie_path e) (ie_offset e) (ie_length e) (ie_sha256 e)) @
        concat (map (\<lambda>e. entry_bytes (ie_path e) (ie_offset e) (ie_length e) (ie_sha256 e)) es)"
      using Cons.prems(1) by simp
    show "length (pre @ entry_bytes (ie_path e) (ie_offset e) (ie_length e) (ie_sha256 e)) = q + 48"
      using Cons.prems(2) wf(4) by (simp add: entry_bytes_def q_def n_def path_def)
  qed (use Cons.prems in simp_all)
  finally show ?case by simp
qed

end
