(* ===== verification/Mpak_Pack.thy ===== *)
theory Mpak_Pack
  imports Mpak_Roundtrip
begin

text \<open>
  The whole container: the functional form of a pack (\<open>container\<close>) is scanned block by block into
  an explicit reader state, \<open>packed_reader\<close>, from which the round-trip properties follow.
\<close>

section \<open>Sizes\<close>

lemma sum_list_bounded: "\<forall>x\<in>set xs. f x \<le> b \<Longrightarrow> sum_list (map f xs) \<le> length xs * (b :: nat)"
  by (induction xs) auto

lemma indx_payload_bound:
  assumes "layout_ok sha256 source l"
  shows "length (indx_payload (ps_members source) offs sizes) \<le> 4 + 4096 * 4146"
proof -
  let ?ms = "ps_members source"
  have "sum_list (map (\<lambda>m. 50 + length (pm_path m)) ?ms) \<le> length ?ms * 4146"
    using assms by (intro sum_list_bounded) (auto simp: layout_ok_def Let_def PATH_MAX_BYTES_def)
  moreover have "length ?ms * 4146 \<le> 4096 * 4146"
    using assms by (intro mult_le_mono1) (simp add: layout_ok_def Let_def MAX_MEMBERS_def)
  moreover have "\<forall>m\<in>set ?ms. is_valid_sha256_hex (pm_sha256_hex m)"
    using assms by (simp add: layout_ok_def Let_def)
  ultimately show ?thesis
    by (simp add: length_indx_payload)
qed

lemma length_data_blocks:
  "length ps = length cs \<Longrightarrow> length (concat (map2 data_block ps cs))
    = sum_list (map (\<lambda>p. 16 + length p) ps) + sum_list (map length cs)"
  by (induction ps cs rule: list_induct2) (simp_all add: data_block_def)

lemma data_blocks_bound:
  assumes "layout_ok sha256 source l"
  shows "length (concat (map2 data_block (map pm_path (ps_members source)) (lo_contents l)))
    \<le> 4096 * 4112 + MAX_TOTAL_BYTES"
proof -
  let ?ps = "map pm_path (ps_members source)"
  have "sum_list (map (\<lambda>p. 16 + length p) ?ps) \<le> length ?ps * 4112"
    using assms by (intro sum_list_bounded) (auto simp: layout_ok_def Let_def PATH_MAX_BYTES_def)
  moreover have "length ?ps * 4112 \<le> 4096 * 4112"
    using assms by (intro mult_le_mono1) (simp add: layout_ok_def Let_def MAX_MEMBERS_def)
  ultimately show ?thesis
    using assms by (subst length_data_blocks) (simp_all add: layout_ok_def Let_def)
qed

section \<open>The index entries\<close>

definition indx_entry_of :: "pack_member list \<Rightarrow> nat list \<Rightarrow> nat list \<Rightarrow> nat \<Rightarrow> indx_entry" where
  "indx_entry_of ms offs sizes i =
     \<lparr>ie_path = pm_path (ms ! i), ie_offset = offs ! i, ie_length = sizes ! i,
      ie_sha256 = declared (ms ! i)\<rparr>"

definition indx_entries_of :: "pack_member list \<Rightarrow> nat list \<Rightarrow> nat list \<Rightarrow> indx_entry list" where
  "indx_entries_of ms offs sizes = map (indx_entry_of ms offs sizes) (sorted_indices ms)"

definition member_of :: "pack_member list \<Rightarrow> nat list \<Rightarrow> nat list \<Rightarrow> nat \<Rightarrow> mpak_member" where
  "member_of ms offs sizes i =
     \<lparr>m_path = pm_path (ms ! i), m_offset = offs ! i, m_length = sizes ! i\<rparr>"

lemma length_sorted_indices [simp]: "length (sorted_indices ms) = length ms"
  by (simp add: sorted_indices_def)

lemma length_indx_entries_of [simp]: "length (indx_entries_of ms offs sizes) = length ms"
  by (simp add: indx_entries_of_def)

lemma indx_payload_entries:
  "indx_payload ms offs sizes = be_bytes 4 (length ms)
     @ concat (map (\<lambda>e. entry_bytes (ie_path e) (ie_offset e) (ie_length e) (ie_sha256 e))
         (indx_entries_of ms offs sizes))"
  by (simp add: indx_payload_def indx_entries_of_def indx_entry_of_def comp_def)

lemma indx_entries_sorted:
  assumes "distinct (map pm_path ms)"
  shows "sorted_wrt (<) (map ie_path (indx_entries_of ms offs sizes))"
proof -
  have paths: "map ie_path (indx_entries_of ms offs sizes) = map (\<lambda>i. pm_path (ms ! i)) (sorted_indices ms)"
    by (simp add: indx_entries_of_def indx_entry_of_def)
  have "sorted (map (\<lambda>i. pm_path (ms ! i)) (sorted_indices ms))"
    unfolding sorted_indices_def by (rule sorted_sort_key)
  moreover have "distinct (map (\<lambda>i. pm_path (ms ! i)) (sorted_indices ms))"
  proof -
    have "distinct (sorted_indices ms)"
      by (simp add: sorted_indices_def)
    moreover have "inj_on (\<lambda>i. pm_path (ms ! i)) {0..<length ms}"
      using assms by (force simp: inj_on_def distinct_conv_nth)
    ultimately show ?thesis
      by (simp only: distinct_map set_sorted_indices)
  qed
  ultimately show ?thesis
    unfolding paths strict_sorted_iff by blast
qed

lemma length_offsets_from [simp]: "length ms = length cs \<Longrightarrow> length (offsets_from pos ms cs) = length ms"
  by (induction pos ms cs rule: offsets_from.induct) (auto simp: Let_def)

lemma data_members_nth:
  "length ms = length cs \<Longrightarrow> i < length ms \<Longrightarrow>
    data_members pos (map pm_path ms) cs ! i = member_of ms (offsets_from pos ms cs) (map length cs) i"
proof (induction pos ms cs arbitrary: i rule: offsets_from.induct)
  case (1 pos m ms c cs)
  show ?case
  proof (cases i)
    case 0
    then show ?thesis by (simp add: member_of_def Let_def)
  next
    case (Suc j)
    with "1.IH" [OF refl, of j] "1.prems" show ?thesis
      by (simp add: member_of_def Let_def add.assoc)
  qed
qed auto

lemma data_members_eq:
  assumes "length ms = length cs"
  shows "data_members pos (map pm_path ms) cs
    = map (member_of ms (offsets_from pos ms cs) (map length cs)) [0..<length ms]"
  by (rule nth_equalityI) (simp_all add: assms data_members_nth)

lemma offsets_from_fit:
  assumes "length ms = length cs" and "i < length ms"
  shows "offsets_from pos ms cs ! i + length (cs ! i)
    \<le> pos + length (concat (map2 data_block (map pm_path ms) cs))"
  using assms
proof (induction pos ms cs arbitrary: i rule: offsets_from.induct)
  case (1 pos m ms c cs)
  show ?case
  proof (cases i)
    case 0
    then show ?thesis by (simp add: Let_def data_block_def)
  next
    case (Suc j)
    with "1.IH" [OF refl, of j] "1.prems" show ?thesis
      by (simp add: Let_def data_block_def)
  qed
qed auto

text \<open>The content of every member stands at the offset the layout computed.\<close>

lemma content_at_offset:
  assumes "length ms = length cs" and "i < length ms"
    and "out = pre @ concat (map2 data_block (map pm_path ms) cs) @ post" and "length pre = pos"
  shows "slice out (offsets_from pos ms cs ! i) (offsets_from pos ms cs ! i + length (cs ! i)) = cs ! i"
  using assms
proof (induction pos ms cs arbitrary: i pre rule: offsets_from.induct)
  case (1 pos m ms c cs)
  let ?rest = "concat (map2 data_block (map pm_path ms) cs)"
  show ?case
  proof (cases i)
    case 0
    have "out = (pre @ block_header (code Data) (2 + length (pm_path m) + length c)
        @ be_bytes 2 (length (pm_path m)) @ pm_path m) @ c @ (?rest @ post)"
      using "1.prems"(3) by (simp add: data_block_def)
    then have "slice out (pos + (14 + 2 + length (pm_path m))) (pos + (14 + 2 + length (pm_path m)) + length c) = c"
      by (rule slice_in) (use "1.prems"(4) in \<open>simp_all del: code.simps\<close>)
    then show ?thesis
      using 0 by (simp add: Let_def)
  next
    case (Suc j)
    have "out = (pre @ data_block (pm_path m) c) @ ?rest @ post"
      using "1.prems"(3) by simp
    with Suc "1.IH" [OF refl, of j "pre @ data_block (pm_path m) c"] "1.prems" show ?thesis
      by (simp add: Let_def data_block_def)
  qed
qed auto

lemma reconcile_agrees:
  "list_all2 indx_agrees (sort_key m_path (map (member_of ms offs sizes) [0..<length ms]))
     (indx_entries_of ms offs sizes)"
proof -
  have "sort_key m_path (map (member_of ms offs sizes) [0..<length ms])
      = map (member_of ms offs sizes) (sort_key (\<lambda>i. m_path (member_of ms offs sizes i)) [0..<length ms])"
    by (rule sort_key_map [symmetric])
  also have "\<dots> = map (member_of ms offs sizes) (sorted_indices ms)"
    by (simp add: member_of_def sorted_indices_def)
  finally show ?thesis
    by (simp add: indx_entries_of_def list_all2_map1 list_all2_map2 indx_agrees_def member_of_def
        indx_entry_of_def list_all2_same)
qed

section \<open>The scan of a packed container\<close>

definition packed_reader ::
    "(bytes \<Rightarrow> bytes) \<Rightarrow> pack_source \<Rightarrow> layout \<Rightarrow> (rstr \<rightharpoonup> nat) \<Rightarrow> mpak_reader" where
  "packed_reader sha256 source l idx =
     (let man = ps_manifest source; ms = ps_members source; sizes = map length (lo_contents l);
          prefix = container_prefix man ms (lo_offsets l) (lo_contents l);
          r = reader_init (length prefix + 66) 0 False
      in r\<lparr>members := map (member_of ms (lo_offsets l) sizes) [0..<length ms], member_index := idx,
           manifest := Some man, manifest_count := 1,
           indx_present := True, indx_offset := 16,
           indx_length := length (indx_payload ms (lo_offsets l) sizes),
           indx_entries := indx_entries_of ms (lo_offsets l) sizes, indx_valid := True,
           tail_present := True, tail_offset := length prefix, tail_total_size := length prefix + 66,
           tail_objects := length ms, tail_indx_offset := 16, tail_digest := sha256 prefix\<rparr>)"

lemma scan_header:
  assumes "out = write_header @ rest" and "length out < u64_limit"
  shows "scan (memory_source out) recovery =
    (case scan_loop (memory_source out) recovery 16 (reader_init (length out) 0 False) of
       Inl e \<Rightarrow> Inl e | Inr r \<Rightarrow> finish_scan (memory_source out) r)"
proof -
  have rd: "read_exact (memory_source out) 0 16 = Inr write_header"
    by (rule memory.read_exact_at [where pre = "[]" and post = rest]) (use assms in simp_all)
  have hdr: "slice write_header 0 4 = MAGIC" "write_header ! 4 = MAJOR_VERSION" "write_header ! 5 = 0"
    "rd_be (slice write_header 8 16) = 0"
    by code_simp+
  have sz: "\<not> bs_size (memory_source out) < 16"
    using assms(1) by (simp add: memory_source_def)
  have size: "bs_size (memory_source out) = length out"
    by (simp add: memory_source_def)
  show ?thesis
    unfolding scan_def HEADER_LEN_def if_not_P [OF sz] rd sum.case hdr size Let_def
    using sz [unfolded size] by simp
qed

lemma parse_indx_packed:
  assumes out: "out = pre @ block_header (code Indx) n @ indx_payload ms offs sizes @ post"
    and n: "n = length (indx_payload ms offs sizes)" "n \<le> MAX_INDX_PAYLOAD" and pre: "length pre = 16"
    and ms: "length ms \<le> MAX_MEMBERS" "distinct (map pm_path ms)"
    and ents: "\<forall>i<length ms. path_wf (pm_path (ms ! i)) \<and> sizes ! i \<le> MAX_FILE_BYTES
        \<and> offs ! i + sizes ! i \<le> length out \<and> length (declared (ms ! i)) = 32"
    and size: "length out < u64_limit"
    and r: "indx_length r = n" "indx_offset r = 16" "file_size r = length out"
  shows "parse_indx (memory_source out) r = Inr (indx_entries_of ms offs sizes)"
proof -
  let ?p = "indx_payload ms offs sizes" and ?es = "indx_entries_of ms offs sizes"
  have rd: "read_exact (memory_source out) (indx_offset r + BLOCK_HEADER_LEN) (indx_length r) = Inr ?p"
    by (rule memory.read_exact_at [where pre = "pre @ block_header (code Indx) n" and post = post])
      (use out n pre size r in \<open>simp_all add: BLOCK_HEADER_LEN_def del: code.simps\<close>)
  have "slice ?p 0 4 = be_bytes 4 (length ms)"
    by (rule slice_in [where pre = "[]"]) (simp_all add: indx_payload_def)
  then have count: "rd_u32 (slice ?p 0 4) = length ms"
    using ms(1) by (simp add: rd_u32_be_bytes MAX_MEMBERS_def)
  have entries: "parse_indx_entries (length out) ?p (length ?es) 4 [] = Inr (length ?p, [] @ ?es)"
  proof (rule parse_indx_entries_wf [where pre = "be_bytes 4 (length ms)"])
    show "\<forall>e\<in>set ?es. path_wf (ie_path e) \<and> ie_length e \<le> MAX_FILE_BYTES
        \<and> ie_offset e + ie_length e \<le> length out \<and> length (ie_sha256 e) = 32"
      using ents by (auto simp: indx_entries_of_def indx_entry_of_def)
  qed (use ms(2) size in \<open>simp_all add: indx_payload_entries indx_entries_sorted\<close>)
  have g: "\<not> (indx_length r < 4 \<or> MAX_INDX_PAYLOAD < indx_length r)" "\<not> MAX_MEMBERS < length ms"
    using n ms(1) r(1) by (simp_all add: indx_payload_def)
  show ?thesis
    using entries by (simp add: parse_indx_def g rd count r(3))
qed

lemma scan_indx_wf:
  assumes "content = pre @ block_header (code Indx) (length payload) @ payload @ post"
    and "length pre = pos" and "length payload \<le> MAX_BLOCK_LENGTH" and "length content < u64_limit"
    and "\<not> indx_present r"
  shows "scan_loop (memory_source content) recovery pos r =
    scan_loop (memory_source content) recovery (pos + 14 + length payload)
      (r\<lparr>indx_present := True, indx_offset := pos, indx_length := length payload\<rparr>)"
  by (subst memory.scan_wf_block [OF assms(1) length_code assms(2) refl assms(3,4)])
    (use assms(5) in \<open>simp add: scan_block_def from_code_code scan_indx_block_def del: code.simps\<close>)

lemma scan_manf_wf:
  assumes "content = pre @ block_header (code Manf) (length man) @ man @ post"
    and "length pre = pos" and "length man \<le> MAX_MANIFEST_LEN" and "length content < u64_limit"
    and "manifest_count r = 0"
  shows "scan_loop (memory_source content) recovery pos r =
    scan_loop (memory_source content) recovery (pos + 14 + length man)
      (r\<lparr>manifest := Some man, manifest_count := 1\<rparr>)"
proof -
  have "length man \<le> MAX_BLOCK_LENGTH"
    using assms(3) by (simp add: limits)
  moreover have "read_exact (memory_source content) (pos + 14) (length man) = Inr man"
    by (rule memory.read_exact_at [where pre = "pre @ block_header (code Manf) (length man)" and post = post])
      (use assms in \<open>simp_all del: code.simps\<close>)
  ultimately show ?thesis
    by (subst memory.scan_wf_block [OF assms(1) length_code assms(2) refl])
      (use assms in \<open>simp_all add: scan_block_def from_code_code scan_manf_payload_def del: code.simps\<close>)
qed

lemma scan_tail_wf:
  assumes content: "content = pre @ block_header (code Tail) TAIL_PAYLOAD_LEN @ be_bytes 8 total_sz
      @ be_bytes 4 objs @ be_bytes 8 ioff @ digest"
    and pre: "length pre = pos" and lim: "length content < u64_limit"
    and vals: "total_sz < u64_limit" "objs < 2 ^ 32" "ioff < u64_limit" "length digest = 32"
    and r: "\<not> tail_present r"
  shows "scan_loop (memory_source content) recovery pos r =
    Inr (r\<lparr>tail_present := True, tail_offset := pos, tail_total_size := total_sz,
           tail_objects := objs, tail_indx_offset := ioff, tail_digest := digest\<rparr>)"
proof -
  let ?p = "be_bytes 8 total_sz @ be_bytes 4 objs @ be_bytes 8 ioff @ digest"
  have blk: "content = pre @ block_header (code Tail) 52 @ ?p @ []"
    using content by (simp add: TAIL_PAYLOAD_LEN_def del: code.simps)
  have lp: "length ?p = 52"
    using vals(4) by simp
  have rd: "read_exact (memory_source content) (pos + 14) 52 = Inr ?p"
    by (rule memory.read_exact_at [where pre = "pre @ block_header (code Tail) 52" and post = "[]"])
      (use blk pre lim lp in \<open>simp_all del: code.simps\<close>)
  have f: "slice ?p 0 8 = be_bytes 8 total_sz"
    by (rule slice_in [where pre = "[]"]) simp_all
  have f2: "slice ?p 8 12 = be_bytes 4 objs"
    by (rule slice_in [where pre = "be_bytes 8 total_sz"]) simp_all
  have f3: "slice ?p 12 20 = be_bytes 8 ioff"
    by (rule slice_in [where pre = "be_bytes 8 total_sz @ be_bytes 4 objs"]) simp_all
  have f4: "slice ?p 20 52 = digest"
    by (rule slice_in [where pre = "be_bytes 8 total_sz @ be_bytes 4 objs @ be_bytes 8 ioff" and post = "[]"])
      (use vals(4) in simp_all)
  have fields: "rd_u64 (slice ?p 0 8) = total_sz" "rd_u32 (slice ?p 8 12) = objs"
    "rd_u64 (slice ?p 12 20) = ioff" "slice ?p 20 52 = digest"
    unfolding f f2 f3 f4 using vals by (simp_all add: rd_u64_be_bytes rd_u32_be_bytes)
  have blk': "scan_block (memory_source content) recovery r (code Tail) pos (pos + 14) 52 =
    Inr (r\<lparr>tail_present := True, tail_offset := pos, tail_total_size := total_sz,
           tail_objects := objs, tail_indx_offset := ioff, tail_digest := digest\<rparr>)"
    using r unfolding scan_block_def from_code_code option.case block_type.case scan_tail_block_def
      TAIL_PAYLOAD_LEN_def rd sum.case fields by (simp add: Let_def)
  have len: "length content = pos + 14 + 52"
    using blk pre lp by (simp del: code.simps)
  have "scan_loop (memory_source content) recovery pos r =
      scan_loop (memory_source content) recovery (pos + 14 + 52)
        (r\<lparr>tail_present := True, tail_offset := pos, tail_total_size := total_sz,
           tail_objects := objs, tail_indx_offset := ioff, tail_digest := digest\<rparr>)"
    by (subst memory.scan_wf_block [OF blk length_code pre lp])
      (use lim in \<open>simp_all add: blk' MAX_BLOCK_LENGTH_def del: code.simps\<close>)
  also have "\<dots> = Inr (r\<lparr>tail_present := True, tail_offset := pos, tail_total_size := total_sz,
           tail_objects := objs, tail_indx_offset := ioff, tail_digest := digest\<rparr>)"
    by (rule memory.scan_loop_stop) (simp add: len)
  finally show ?thesis .
qed

lemma container_parts:
  "container sha256 source l =
     container_prefix (ps_manifest source) (ps_members source) (lo_offsets l) (lo_contents l)
       @ block_header (code Tail) TAIL_PAYLOAD_LEN
       @ be_bytes 8 (length (container_prefix (ps_manifest source) (ps_members source)
           (lo_offsets l) (lo_contents l)) + 66)
       @ be_bytes 4 (length (ps_members source)) @ be_bytes 8 16
       @ sha256 (container_prefix (ps_manifest source) (ps_members source) (lo_offsets l) (lo_contents l))"
  by (simp add: container_def write_tail_def Let_def HEADER_LEN_def BLOCK_HEADER_LEN_def TAIL_PAYLOAD_LEN_def
      add.commute del: code.simps)

lemma length_container:
  assumes "\<And>x. length (sha256 x) = 32"
  shows "length (container sha256 source l) = length (container_prefix (ps_manifest source)
    (ps_members source) (lo_offsets l) (lo_contents l)) + 66"
  unfolding container_parts by (simp add: assms del: code.simps)

lemma map2_data_block_paths:
  "map2 (\<lambda>m c. data_block (pm_path m) c) ms cs = map2 data_block (map pm_path ms) cs"
  by (simp add: zip_map1 split_def)

lemma container_prefix_bound:
  assumes "layout_ok sha256 source l"
  shows "length (container_prefix (ps_manifest source) (ps_members source) (lo_offsets l) (lo_contents l)) + 66
    < u64_limit"
  using indx_payload_bound [OF assms, of "lo_offsets l" "map length (lo_contents l)"]
    data_blocks_bound [OF assms] assms
  by (simp add: container_prefix_def map2_data_block_paths layout_ok_def Let_def limits del: code.simps)

lemma scan_container:
  assumes l: "layout_ok sha256 source l" and sha: "\<And>x. length (sha256 x) = 32"
    and wf: "\<forall>m\<in>set (ps_members source). path_wf (pm_path m)"
  shows "\<exists>idx. scan (memory_source (container sha256 source l)) recovery
      = Inr (packed_reader sha256 source l idx)
    \<and> indexes idx (members (packed_reader sha256 source l idx))"
proof -
  define man ms offs cs where "man = ps_manifest source" and "ms = ps_members source"
    and "offs = lo_offsets l" and "cs = lo_contents l"
  define ip where "ip = indx_payload ms offs (map length cs)"
  define ds where "ds = concat (map2 data_block (map pm_path ms) cs)"
  define prefix where "prefix = container_prefix man ms offs cs"
  define out where "out = container sha256 source l"
  define tl where "tl = block_header (code Tail) TAIL_PAYLOAD_LEN @ be_bytes 8 (length prefix + 66)
      @ be_bytes 4 (length ms) @ be_bytes 8 16 @ sha256 prefix"
  note defs = man_def [symmetric] ms_def [symmetric] offs_def [symmetric] cs_def [symmetric]
  have prefix: "prefix = write_header @ block_header (code Indx) (length ip) @ ip
      @ block_header (code Manf) (length man) @ man @ ds"
    by (simp only: prefix_def container_prefix_def map2_data_block_paths ip_def ds_def)
  have out: "out = prefix @ tl"
    unfolding out_def container_parts defs tl_def prefix_def ..
  have lout: "length out = length prefix + 66"
    using length_container [of sha256 source l, OF sha] unfolding out_def defs prefix_def by simp
  have lim: "length out < u64_limit"
    unfolding lout using container_prefix_bound [OF l] unfolding defs prefix_def .
  have ok: "length man \<le> MAX_MANIFEST_LEN" "length ms \<le> MAX_MEMBERS" "length cs = length ms"
    "distinct (map pm_path ms)" "\<forall>c\<in>set cs. length c \<le> MAX_FILE_BYTES"
    "\<forall>m\<in>set ms. is_valid_sha256_hex (pm_sha256_hex m)"
    using l by (simp_all add: layout_ok_def Let_def defs)
  have ipb: "length ip \<le> MAX_INDX_PAYLOAD"
    using indx_payload_bound [OF l, of offs "map length cs"] by (simp add: defs ip_def limits)
  define pos where "pos = 16 + 14 + length ip + 14 + length man"
  have offs: "offs = offsets_from pos ms cs"
    using l by (simp add: layout_ok_def Let_def defs ip_def pos_def add.assoc)
  have mem: "data_members pos (map pm_path ms) cs = map (member_of ms offs (map length cs)) [0..<length ms]"
    using data_members_eq [of ms cs pos] ok(3) offs by simp
  define r0 where "r0 = reader_init (length out) 0 False"
  define r1 where "r1 = r0\<lparr>indx_present := True, indx_offset := 16, indx_length := length ip\<rparr>"
  define r2 where "r2 = r1\<lparr>manifest := Some man, manifest_count := 1\<rparr>"
  have s1: "scan_loop (memory_source out) recovery 16 r0 = scan_loop (memory_source out) recovery (16 + 14 + length ip) r1"
    unfolding r1_def
    by (rule scan_indx_wf [where pre = write_header and post = "block_header (code Manf) (length man) @ man @ ds @ tl"])
      (use lim ipb in \<open>simp_all add: out prefix r0_def reader_init_def limits del: code.simps\<close>)
  have s2: "scan_loop (memory_source out) recovery (16 + 14 + length ip) r1 = scan_loop (memory_source out) recovery pos r2"
    unfolding r2_def pos_def
    by (rule scan_manf_wf [where pre = "write_header @ block_header (code Indx) (length ip) @ ip" and post = "ds @ tl"])
      (use lim ok in \<open>simp_all add: out prefix r0_def r1_def reader_init_def del: code.simps\<close>)
  have "\<exists>idx. scan_loop (memory_source out) recovery pos r2 =
      scan_loop (memory_source out) recovery (pos + length ds)
        (r2\<lparr>member_index := idx, members := members r2 @ data_members pos (map pm_path ms) cs\<rparr>)
    \<and> indexes idx (members r2 @ data_members pos (map pm_path ms) cs)"
    unfolding ds_def
  proof (rule memory.scan_data_blocks)
    show "out = (write_header @ block_header (code Indx) (length ip) @ ip @ block_header (code Manf) (length man) @ man)
        @ concat (map2 data_block (map pm_path ms) cs) @ tl"
      by (simp only: out prefix ds_def append_assoc)
    show "list_all path_wf (map pm_path ms)"
      using wf by (simp add: ms_def list_all_iff)
  qed (use ok lim in \<open>simp_all add: r2_def r1_def r0_def reader_init_def pos_def indexes_empty del: code.simps\<close>)
  then obtain idx where s3: "scan_loop (memory_source out) recovery pos r2 =
      scan_loop (memory_source out) recovery (pos + length ds)
        (r2\<lparr>member_index := idx, members := data_members pos (map pm_path ms) cs\<rparr>)"
    and idx: "indexes idx (data_members pos (map pm_path ms) cs)"
    by (auto simp: r2_def r1_def r0_def reader_init_def)
  define r3 where "r3 = r2\<lparr>member_index := idx, members := data_members pos (map pm_path ms) cs\<rparr>"
  define r4 where "r4 = r3\<lparr>tail_present := True, tail_offset := pos + length ds,
      tail_total_size := length prefix + 66, tail_objects := length ms, tail_indx_offset := 16,
      tail_digest := sha256 prefix\<rparr>"
  have lp: "length prefix = pos + length ds"
    unfolding prefix by (simp add: pos_def del: code.simps)
  have s4: "scan_loop (memory_source out) recovery (pos + length ds) r3 = Inr r4"
    unfolding r4_def
  proof (rule scan_tail_wf)
    show "out = prefix @ block_header (code Tail) TAIL_PAYLOAD_LEN @ be_bytes 8 (length prefix + 66)
      @ be_bytes 4 (length ms) @ be_bytes 8 16 @ sha256 prefix"
      by (simp only: out tl_def)
    show "length ms < 2 ^ 32"
      using ok(2) by (simp add: limits)
  qed (use lp lim lout sha in \<open>simp_all add: r3_def r2_def r1_def r0_def reader_init_def u64_limit_def\<close>)
  have loop: "scan_loop (memory_source out) recovery 16 r0 = Inr r4"
    unfolding s1 s2 s3 using s4 unfolding r3_def .
  have "scan (memory_source out) recovery =
    (case scan_loop (memory_source out) recovery 16 (reader_init (length out) 0 False) of
       Inl e \<Rightarrow> Inl e | Inr r \<Rightarrow> finish_scan (memory_source out) r)"
    by (rule scan_header [where rest = "block_header (code Indx) (length ip) @ ip
        @ block_header (code Manf) (length man) @ man @ ds @ tl"])
      (use lim in \<open>simp_all add: out prefix del: code.simps\<close>)
  then have scan: "scan (memory_source out) recovery = finish_scan (memory_source out) r4"
    unfolding r0_def [symmetric] loop by simp
  define es where "es = indx_entries_of ms offs (map length cs)"
  have "parse_indx (memory_source out) r4 = Inr es"
    unfolding es_def
  proof (rule parse_indx_packed)
    show "out = write_header @ block_header (code Indx) (length ip) @ indx_payload ms offs (map length cs)
        @ block_header (code Manf) (length man) @ man @ ds @ tl"
      by (simp only: out prefix ip_def append_assoc)
    have "offs ! i + length (cs ! i) \<le> length out" if "i < length ms" for i
      using offsets_from_fit [of ms cs i pos] that ok(3) lp lout by (simp add: offs ds_def)
    then show "\<forall>i<length ms. path_wf (pm_path (ms ! i)) \<and> map length cs ! i \<le> MAX_FILE_BYTES
        \<and> offs ! i + map length cs ! i \<le> length out \<and> length (declared (ms ! i)) = 32"
      using ok wf by (simp add: ms_def length_declared)
  qed (use ok ipb lim in \<open>simp_all add: r4_def r3_def r2_def r1_def r0_def reader_init_def ip_def\<close>)
  then have fin: "finish_scan (memory_source out) r4
      = Inr (reconcile_indx (r4\<lparr>indx_entries := es, indx_valid := True\<rparr>))"
    by (simp add: finish_scan_def r4_def r3_def r2_def r1_def)
  have "reconcile_indx (r4\<lparr>indx_entries := es, indx_valid := True\<rparr>) = r4\<lparr>indx_entries := es, indx_valid := True\<rparr>"
    using reconcile_agrees [of ms offs "map length cs"]
    by (simp add: reconcile_indx_def r4_def r3_def es_def mem)
  also have "\<dots> = packed_reader sha256 source l idx"
    unfolding r4_def r3_def r2_def r1_def r0_def packed_reader_def Let_def defs prefix_def [symmetric]
      ip_def [symmetric] es_def mem [symmetric] lout lp by (simp add: reader_init_def)
  finally have res: "scan (memory_source out) recovery = Inr (packed_reader sha256 source l idx)"
    unfolding scan fin by simp
  moreover have "indexes idx (members (packed_reader sha256 source l idx))"
    using idx by (simp add: packed_reader_def Let_def defs mem)
  ultimately show ?thesis
    unfolding out_def by blast
qed

end
