(* ===== verification/Mpak_Properties.thy ===== *)
theory Mpak_Properties
  imports Mpak_Pack
begin

text \<open>
  The properties of the MPAK container: what the scan of arbitrary bytes guarantees, and that the
  reader gets back what the writer packed.
\<close>

lemma list_all2_in_right: "list_all2 P xs ys \<Longrightarrow> y \<in> set ys \<Longrightarrow> \<exists>x\<in>set xs. P x y"
  by (induction rule: list_all2_induct) auto

section \<open>Scanning arbitrary bytes\<close>

text \<open>C13: A scan of any bytes never fails with an I/O error: every read the scan makes lies inside the
  container, whatever lengths and offsets the container declares, in both modes.\<close>

theorem scan_reads_inside: "scan (memory_source bs) recovery \<noteq> Inl (Io e)"
  by (rule memory.scan_not_Io)

text \<open>C10: Every member a successful scan reports stands in the file: a \<open>DATA\<close> block after the file
  header whose CRC and lengths check, whose path is valid UTF-8 and accepted by \<open>validate\<close>, and whose
  content lies inside the file; paths are unique, at most 4096, and the lookup table finds exactly
  the members.\<close>

theorem scan_members_sound:
  assumes "scan (memory_source bs) recovery = Inr r"
  shows "(\<forall>m\<in>set (members r). (\<exists>pos\<ge>HEADER_LEN. data_block_at bs pos m)
      \<and> validate (m_path m) = Inr () \<and> utf8_valid (m_path m) \<and> m_length m \<le> MAX_FILE_BYTES)
    \<and> distinct (map m_path (members r)) \<and> length (members r) \<le> MAX_MEMBERS
    \<and> (\<forall>p m. member r p = Some m \<longleftrightarrow> m \<in> set (members r) \<and> m_path m = p)"
proof -
  have ok: "scan_result_ok bs recovery r"
    using assms by (rule memory.scan_correct)
  then have "indexes (member_index r) (members r)" "list_all (member_ok bs) (members r)"
    "length (members r) \<le> MAX_MEMBERS"
    by (simp_all add: scan_result_ok_def reader_ok_def)
  with scan_result_members [OF ok] show ?thesis
    by (auto simp: member_ok_def list_all_iff dest: indexes_distinct)
qed

text \<open>C11: A valid index agrees with the scan: it is strictly sorted by path, its digest lookup answers
  exactly for the members, and every entry gives the offset and the length of its member.\<close>

theorem scan_index_agrees:
  assumes "scan (memory_source bs) recovery = Inr r" and "indx_valid r"
  shows "sorted_wrt (<) (map ie_path (indx_entries r))
    \<and> (\<forall>p. indx_sha256 r p \<noteq> None \<longleftrightarrow> member r p \<noteq> None)
    \<and> (\<forall>e\<in>set (indx_entries r).
         member r (ie_path e) = Some \<lparr>m_path = ie_path e, m_offset = ie_offset e, m_length = ie_length e\<rparr>)"
proof -
  have ok: "scan_result_ok bs recovery r"
    using assms(1) by (rule memory.scan_correct)
  with assms(2) have cons: "entries_ok (file_size r) (indx_entries r)"
    "list_all2 indx_agrees (sort_key m_path (members r)) (indx_entries r)"
    by (auto simp: scan_result_ok_def index_consistent_def)
  have "member r (ie_path e) = Some \<lparr>m_path = ie_path e, m_offset = ie_offset e, m_length = ie_length e\<rparr>"
    if e: "e \<in> set (indx_entries r)" for e
  proof -
    obtain m where "m \<in> set (members r)" "indx_agrees m e"
      using list_all2_in_right [OF cons(2) e] by auto
    moreover from this(2) have "m = \<lparr>m_path = ie_path e, m_offset = ie_offset e, m_length = ie_length e\<rparr>"
      by (cases m) (simp add: indx_agrees_def)
    ultimately show ?thesis
      unfolding scan_result_members [OF ok] by simp
  qed
  with cons(1) indx_sha256_present [OF ok assms(2)] show ?thesis
    by (simp add: entries_ok_def)
qed

text \<open>C12: Reading a member to its end yields exactly its bytes of the container, whatever the size of
  the reads: the stream neither stops early nor runs into the next block.\<close>

theorem member_stream_exact:
  assumes "scan (memory_source bs) recovery = Inr r" and "m \<in> set (members r)"
    and "length bs < u64_limit" and "0 < n"
  shows "member_read_to_end (memory_source bs) n [] (member_reader_new (m_offset m) (m_length m))
      = Inr (slice bs (m_offset m) (m_offset m + m_length m))
    \<and> length (slice bs (m_offset m) (m_offset m + m_length m)) = m_length m"
proof -
  have "member_ok bs m"
    using memory.scan_correct [OF assms(1)] assms(2)
    by (simp add: scan_result_ok_def reader_ok_def list_all_iff)
  then have "m_offset m + m_length m \<le> length bs"
    by (auto simp: member_ok_def data_block_at_def)
  with assms(3,4) show ?thesis
    by (subst memory.member_read_to_end_eq) (simp_all add: member_reader_new_def)
qed

lemma rd_be_one_byte: "rd_be (xs @ b # ys) = rd_be (xs @ b' # ys) \<Longrightarrow> b = b'"
  by (induction xs) (auto simp: rd_be_Cons intro: unsigned_word_eqI)

lemma slice_one_byte:
  assumes "length xs < n"
  shows "slice (xs @ b # ys) 0 n = xs @ b # take (n - Suc (length xs)) ys"
  using assms by (simp add: slice_def take_Cons')

text \<open>C14: One corrupted byte anywhere in a block header, the CRC field included, is detected: the
  header no longer passes the framing check.\<close>

theorem framing_detects_one_byte:
  assumes "framing_ok (xs @ b # ys)" and "length (xs @ b # ys) = 14" and "b \<noteq> b'"
  shows "\<not> framing_ok (xs @ b' # ys)"
proof
  assume "framing_ok (xs @ b' # ys)"
  with assms(1) have eq: "rd_u16 (slice (xs @ c # ys) 12 14) = unat (crc16_buypass (slice (xs @ c # ys) 0 12))"
    if "c = b \<or> c = b'" for c
    using that by (auto simp: framing_ok_def)
  show False
  proof (cases "length xs < 12")
    case True
    then obtain k where "12 - length xs = Suc k"
      by (metis zero_less_diff gr0_implies_Suc)
    with True have "slice (xs @ b # ys) 12 14 = slice (xs @ b' # ys) 12 14"
      by (simp add: slice_def)
    with eq [of b] eq [of b'] have "crc16_buypass (slice (xs @ b # ys) 0 12) = crc16_buypass (slice (xs @ b' # ys) 0 12)"
      by (simp add: word_unat_eq_iff)
    with True assms(3) show False
      by (auto simp: slice_one_byte dest: crc16_one_byte)
  next
    case False
    then have "slice (xs @ b # ys) 0 12 = slice (xs @ b' # ys) 0 12"
      by (simp add: slice_def)
    moreover have "slice (xs @ c # ys) 12 14 = drop 12 xs @ c # ys" for c
      using False assms(2) by (simp add: slice_def)
    ultimately have "rd_be (drop 12 xs @ b # ys) = rd_be (drop 12 xs @ b' # ys)"
      using eq [of b] eq [of b'] assms(2) False by (simp add: rd_u16_def)
    with assms(3) show False
      using rd_be_one_byte by blast
  qed
qed

section \<open>Reading back a pack\<close>

lemma container_prefix_take:
  "take (length (container_prefix (ps_manifest source) (ps_members source) (lo_offsets l) (lo_contents l)))
     (container sha256 source l)
   = container_prefix (ps_manifest source) (ps_members source) (lo_offsets l) (lo_contents l)"
  unfolding container_parts by (rule append_eq_conv_conj [THEN iffD1, THEN conjunct1, symmetric]) (rule refl)

lemma packed_reader_facts:
  assumes "write_mpak sha256 source = Inr out" and "\<And>x. length (sha256 x) = 32"
    and "\<forall>m\<in>set (ps_members source). path_wf (pm_path m)"
  obtains l idx where "layout_ok sha256 source l" and "out = container sha256 source l"
    and "scan (memory_source out) recovery = Inr (packed_reader sha256 source l idx)"
proof -
  from assms(1) obtain l where l: "layout_ok sha256 source l" and out: "out = container sha256 source l"
    by (rule write_mpak_Inr)
  obtain idx where "scan (memory_source out) recovery = Inr (packed_reader sha256 source l idx)"
    using scan_container [OF l assms(2,3), of recovery] unfolding out by blast
  with l out show ?thesis
    by (rule that)
qed

lemma packed_reader_fields:
  assumes "layout_ok sha256 source l" and "out = container sha256 source l" and "\<And>x. length (sha256 x) = 32"
    and r: "r = packed_reader sha256 source l idx"
  shows "Mpak_Read.manifest r = Some (ps_manifest source) \<and> manifest_count r = 1
    \<and> map m_path (members r) = map pm_path (ps_members source)
    \<and> \<not> resynced r \<and> duplicate_members r = 0 \<and> skipped_members r = 0
    \<and> indx_valid r \<and> \<not> indx_invalid r \<and> \<not> indx_extra r
    \<and> tail_present r \<and> \<not> tail_extra r \<and> \<not> tail_malformed r
    \<and> tail_total_size r = length out \<and> tail_objects r = length (members r)
    \<and> tail_indx_offset r = indx_offset r \<and> tail_digest r = sha256 (take (tail_offset r) out)"
    and "minor r = 0 \<and> indx_present r \<and> file_size r = length out \<and> tail_offset r \<le> length out
      \<and> map m_length (members r) = map length (lo_contents l)"
proof -
  have len: "length (lo_contents l) = length (ps_members source)"
    using assms(1) by (simp add: layout_ok_def Let_def)
  have "map (\<lambda>i. pm_path (ps_members source ! i)) [0..<length (ps_members source)] = map pm_path (ps_members source)"
    "map ((!) (map length (lo_contents l))) [0..<length (ps_members source)] = map length (lo_contents l)"
    by (rule nth_equalityI; simp add: len)+
  then show "Mpak_Read.manifest r = Some (ps_manifest source) \<and> manifest_count r = 1
    \<and> map m_path (members r) = map pm_path (ps_members source)
    \<and> \<not> resynced r \<and> duplicate_members r = 0 \<and> skipped_members r = 0
    \<and> indx_valid r \<and> \<not> indx_invalid r \<and> \<not> indx_extra r
    \<and> tail_present r \<and> \<not> tail_extra r \<and> \<not> tail_malformed r
    \<and> tail_total_size r = length out \<and> tail_objects r = length (members r)
    \<and> tail_indx_offset r = indx_offset r \<and> tail_digest r = sha256 (take (tail_offset r) out)"
    and "minor r = 0 \<and> indx_present r \<and> file_size r = length out \<and> tail_offset r \<le> length out
      \<and> map m_length (members r) = map length (lo_contents l)"
    by (simp_all add: r packed_reader_def Let_def reader_init_def indx_invalid_def member_of_def comp_def
        length_container [of sha256 source l, OF assms(3)] assms(2) container_prefix_take)
qed

text \<open>C8: Whatever \<open>write_mpak\<close> packs (paths accepted by the reader), \<open>scan\<close> reads back, in both modes:
  the manifest byte for byte, the members in order, no resynchronisation, no duplicate and no skip,
  a valid index, and a trailer whose size, object count, index offset and digest are those of the
  container.\<close>

theorem write_scan_roundtrip:
  assumes "write_mpak sha256 source = Inr out" and "\<And>x. length (sha256 x) = 32"
    and "\<forall>m\<in>set (ps_members source). path_wf (pm_path m)"
  shows "\<exists>r. scan (memory_source out) recovery = Inr r
    \<and> manifest r = Some (ps_manifest source) \<and> manifest_count r = 1
    \<and> map m_path (members r) = map pm_path (ps_members source)
    \<and> \<not> resynced r \<and> duplicate_members r = 0 \<and> skipped_members r = 0
    \<and> indx_valid r \<and> \<not> indx_invalid r \<and> \<not> indx_extra r
    \<and> tail_present r \<and> \<not> tail_extra r \<and> \<not> tail_malformed r
    \<and> tail_total_size r = length out \<and> tail_objects r = length (members r)
    \<and> tail_indx_offset r = indx_offset r \<and> tail_digest r = sha256 (take (tail_offset r) out)"
proof -
  obtain l idx where l: "layout_ok sha256 source l" "out = container sha256 source l"
    and scan: "scan (memory_source out) recovery = Inr (packed_reader sha256 source l idx)"
    by (rule packed_reader_facts [OF assms])
  show ?thesis
    by (rule exI, rule conjI [OF scan packed_reader_fields(1) [OF l assms(2) refl]])
qed

lemma copy_member_read_all:
  "copy_member acc n rs = Inr (content, k) \<Longrightarrow> read_all acc rs = Inr content"
proof (induction rs arbitrary: acc n)
  case Nil
  then show ?case by simp
next
  case (Cons r rs)
  then show ?case
    by (cases r) (auto split: if_splits option.splits)
qed

lemma indx_sha256_packed:
  assumes l: "layout_ok sha256 source l" and i: "i < length (ps_members source)"
  shows "indx_sha256 (packed_reader sha256 source l idx) (pm_path (ps_members source ! i))
    = sha256_hex_to_bytes (pm_sha256_hex (ps_members source ! i))"
proof -
  define ms es where "ms = ps_members source"
    and "es = indx_entries_of ms (lo_offsets l) (map length (lo_contents l))"
  have d: "distinct (map pm_path ms)" "is_valid_sha256_hex (pm_sha256_hex (ms ! i))"
    using l i by (simp_all add: layout_ok_def Let_def ms_def)
  have "i \<in> set (sorted_indices ms)"
    using i by (simp add: ms_def)
  then obtain j where j: "j < length es" "sorted_indices ms ! j = i"
    unfolding in_set_conv_nth by (auto simp: es_def)
  then have e: "es ! j = indx_entry_of ms (lo_offsets l) (map length (lo_contents l)) i"
    by (simp add: es_def indx_entries_of_def)
  have "indx_search es (pm_path (ms ! i)) 0 (length es) = Some j"
    using j e indx_entries_sorted [OF d(1), of "lo_offsets l" "map length (lo_contents l)"]
    by (subst indx_search_iff) (simp_all add: es_def [symmetric] indx_entry_of_def)
  then show ?thesis
    using d(2) e
    by (simp add: indx_sha256_def packed_reader_def Let_def ms_def [symmetric] es_def [symmetric]
        indx_entry_of_def declared_def sha256_hex_to_bytes_def)
qed

lemma packed_reader_content:
  assumes "layout_ok sha256 source l" and out: "out = container sha256 source l" and "\<And>x. length (sha256 x) = 32"
    and "0 < n" and r: "r = packed_reader sha256 source l idx"
  shows "list_all2 (\<lambda>m pm. \<exists>rs c. ps_read_member source (pm_path pm) = Inr rs \<and> read_all [] rs = Inr c
        \<and> member_read_to_end (memory_source out) n [] (member_reader_new (m_offset m) (m_length m)) = Inr c
        \<and> to_hex (sha256 c) = pm_sha256_hex pm
        \<and> indx_sha256 r (m_path m) = sha256_hex_to_bytes (pm_sha256_hex pm)
        \<and> m_length m = length c)
      (members r) (ps_members source)"
proof -
  note l = assms(1)
  define ms cs offs where "ms = ps_members source" and "cs = lo_contents l" and "offs = lo_offsets l"
  define man ip where "man = ps_manifest source" and "ip = indx_payload ms offs (map length cs)"
  define pre where "pre = write_header @ block_header (code Indx) (length ip) @ ip
      @ block_header (code Manf) (length man) @ man"
  have parts: "\<exists>post. out = pre @ concat (map2 data_block (map pm_path ms) cs) @ post"
    unfolding out container_parts container_prefix_def map2_data_block_paths pre_def ip_def man_def
      ms_def cs_def offs_def by (simp only: append_assoc) blast
  then obtain post where parts: "out = pre @ concat (map2 data_block (map pm_path ms) cs) @ post" ..
  have ok: "length cs = length ms" "list_all2 (\<lambda>m c. packed sha256 source m (length c) c) ms cs"
    "offs = offsets_from (length pre) ms cs"
    using l by (simp_all add: layout_ok_def Let_def ms_def cs_def offs_def pre_def ip_def man_def
        del: code.simps)
  have mem: "members (packed_reader sha256 source l idx) = map (member_of ms offs (map length cs)) [0..<length ms]"
    by (simp add: packed_reader_def Let_def ms_def cs_def offs_def)
  have lim: "length out < u64_limit"
    using container_prefix_bound [OF l] length_container [of sha256 source l, OF assms(3)] by (simp add: out)
  have one: "\<exists>rs c. ps_read_member source (pm_path (ms ! i)) = Inr rs \<and> read_all [] rs = Inr c
        \<and> member_read_to_end (memory_source out) n [] (member_reader_new (offs ! i) (length (cs ! i))) = Inr c
        \<and> to_hex (sha256 c) = pm_sha256_hex (ms ! i) \<and> length (cs ! i) = length c"
    if i: "i < length ms" for i
  proof -
    have "packed sha256 source (ms ! i) (length (cs ! i)) (cs ! i)"
      using ok(2) i by (simp add: list_all2_conv_all_nth)
    then obtain rs where rs: "ps_read_member source (pm_path (ms ! i)) = Inr rs"
      "read_all [] rs = Inr (cs ! i)" "to_hex (sha256 (cs ! i)) = pm_sha256_hex (ms ! i)"
      by (auto simp: packed_def dest: copy_member_read_all)
    have "offs ! i + length (cs ! i) \<le> length out"
      using offsets_from_fit [of ms cs i "length pre"] ok(1,3) i by (simp add: parts)
    then have "member_read_to_end (memory_source out) n [] (member_reader_new (offs ! i) (length (cs ! i)))
        = Inr (slice out (offs ! i) (offs ! i + length (cs ! i)))"
      using lim assms(4) by (subst memory.member_read_to_end_eq) (simp_all add: member_reader_new_def)
    also have "slice out (offs ! i) (offs ! i + length (cs ! i)) = cs ! i"
      using content_at_offset [OF ok(1) [symmetric] i parts refl] ok(3) by simp
    finally show ?thesis
      using rs by blast
  qed
  then show ?thesis
    using indx_sha256_packed [OF l, of _ idx]
    by (auto simp: r mem list_all2_conv_all_nth member_of_def ms_def [symmetric] ok(1))
qed

text \<open>C9: Every packed member reads back as the content its source supplied: streaming the member
  from the container, with reads of any size, yields the bytes the source's reader yielded, their
  digest is the declared one, and the index reports that digest.\<close>

theorem packed_content_roundtrip:
  assumes "write_mpak sha256 source = Inr out" and "\<And>x. length (sha256 x) = 32"
    and "\<forall>m\<in>set (ps_members source). path_wf (pm_path m)" and "0 < n"
  shows "\<exists>r. scan (memory_source out) recovery = Inr r
    \<and> list_all2 (\<lambda>m pm. \<exists>rs c. ps_read_member source (pm_path pm) = Inr rs \<and> read_all [] rs = Inr c
        \<and> member_read_to_end (memory_source out) n [] (member_reader_new (m_offset m) (m_length m)) = Inr c
        \<and> to_hex (sha256 c) = pm_sha256_hex pm
        \<and> indx_sha256 r (m_path m) = sha256_hex_to_bytes (pm_sha256_hex pm))
      (members r) (ps_members source)"
proof -
  obtain l idx where l: "layout_ok sha256 source l" "out = container sha256 source l"
    and scan: "scan (memory_source out) recovery = Inr (packed_reader sha256 source l idx)"
    by (rule packed_reader_facts [OF assms(1-3)])
  have "list_all2 (\<lambda>m pm. \<exists>rs c. ps_read_member source (pm_path pm) = Inr rs \<and> read_all [] rs = Inr c
        \<and> member_read_to_end (memory_source out) n [] (member_reader_new (m_offset m) (m_length m)) = Inr c
        \<and> to_hex (sha256 c) = pm_sha256_hex pm
        \<and> indx_sha256 (packed_reader sha256 source l idx) (m_path m) = sha256_hex_to_bytes (pm_sha256_hex pm))
      (members (packed_reader sha256 source l idx)) (ps_members source)"
    by (rule list_all2_mono [OF packed_reader_content [OF l assms(2,4) refl]]) blast
  with scan show ?thesis by blast
qed

section \<open>Concrete containers\<close>

text \<open>One member, a constant 32-byte digest function, and the manifest \<open>{}\<close>.\<close>

definition sample_sha256 :: "bytes \<Rightarrow> bytes" where
  "sample_sha256 bs = replicate 32 0"

definition sample_source :: pack_source where
  "sample_source = \<lparr>ps_manifest = lit ''{}'',
     ps_members = [\<lparr>pm_path = lit ''a'', pm_sha256_hex = replicate 64 0x30\<rparr>],
     ps_member_size = (\<lambda>p. Inr 3), ps_read_member = (\<lambda>p. Inr [Inr [1, 2], Inr [3]])\<rparr>"

definition sample_container :: bytes where
  "sample_container = (case write_mpak sample_sha256 sample_source of Inl e \<Rightarrow> [] | Inr out \<Rightarrow> out)"

lemma sample_hex: "is_valid_sha256_hex (replicate 64 0x30)"
  by (simp add: is_valid_sha256_hex_def is_lower_hex_def list_all_iff limits)

lemma sample_packs: "write_mpak sample_sha256 sample_source = Inr sample_container"
proof -
  have chk: "check_members sample_source {} 0 (ps_members sample_source) = Inr (3, [3])"
    by (simp add: sample_source_def lit_def sample_hex limits checked_add_def)
  have sizes: "indx_payload_size 4 (ps_members sample_source) = Inr 55"
    by (simp add: sample_source_def lit_def limits checked_add_def)
  have offs: "member_offsets n (zip (ps_members sample_source) [3]) = Inr [n + 17]" if "n < 1000" for n
    using that by (simp add: sample_source_def lit_def limits checked_add_def)
  have idx: "sorted_indices (ps_members sample_source) = [0]"
    by (simp add: sorted_indices_def sample_source_def)
  have hex: "sha256_hex_to_bytes (pm_sha256_hex (ps_members sample_source ! 0)) = Some (replicate 32 0)"
    by code_simp
  have ents: "\<exists>w'. write_indx_entries (ps_members sample_source) offs sizes w [0] = Inr w'" for offs sizes w
    using hex by (simp add: Let_def)
  have sha: "to_hex (sample_sha256 c) = replicate 64 0x30" for c
    unfolding sample_sha256_def by code_simp
  have dat: "\<exists>w'. write_datas sample_sha256 sample_source w (zip (ps_members sample_source) [3]) = Inr w'" for w
    by (simp add: sample_source_def write_data_def sha limits checked_add_def)
  have "\<exists>out. write_mpak sample_sha256 sample_source = Inr out"
  proof -
    obtain w1 where w1: "write_indx_entries (ps_members sample_source) [118] [3]
        (write_header @ block_header (code Indx) 55 @ be_bytes 4 (length (ps_members sample_source))) [0] = Inr w1"
      using ents by blast
    obtain w2 where w2: "write_datas sample_sha256 sample_source
        (w1 @ block_header (code Manf) (Suc (Suc 0)) @ lit ''{}'') (zip (ps_members sample_source) [3]) = Inr w2"
      using dat by blast
    have man: "ps_manifest sample_source = lit ''{}''" "length (lit ''{}'') = Suc (Suc 0)" "length (ps_members sample_source) = 1"
      by (simp_all add: sample_source_def lit_def)
    show ?thesis
      unfolding write_mpak_def Let_def man(1)
      using w1 w2 man by (simp add: chk sizes offs idx limits del: code.simps)
  qed
  then show ?thesis
    by (auto simp: sample_container_def)
qed

lemma sample_paths: "\<forall>m\<in>set (ps_members sample_source). path_wf (pm_path m)"
  unfolding path_wf_def by code_simp

lemma length_sample_sha256: "length (sample_sha256 x) = 32"
  by (simp add: sample_sha256_def)

lemma sample_layout:
  assumes "layout_ok sample_sha256 sample_source l"
  shows "lo_contents l = [[1, 2, 3]] \<and> lo_offsets l = [118]"
proof -
  have ms: "ps_members sample_source = [\<lparr>pm_path = lit ''a'', pm_sha256_hex = replicate 64 0x30\<rparr>]"
    by (simp add: sample_source_def)
  have "length (lo_contents l) = 1"
    using assms by (simp add: layout_ok_def Let_def ms)
  then obtain c where c: "lo_contents l = [c]"
    by (auto simp: length_Suc_conv)
  have "packed sample_sha256 sample_source \<lparr>pm_path = lit ''a'', pm_sha256_hex = replicate 64 0x30\<rparr> (length c) c"
    using assms by (simp add: layout_ok_def Let_def ms c)
  then have content: "c = [1, 2, 3]"
    by (auto simp: packed_def sample_source_def limits checked_add_def)
  have "length (indx_payload (ps_members sample_source) offs sizes) = 55" for offs sizes
    using sample_hex by (subst length_indx_payload) (simp_all add: ms lit_def)
  then have "lo_offsets l = [118]"
    using assms by (simp add: layout_ok_def Let_def c ms lit_def) (simp add: sample_source_def lit_def)
  with c content show ?thesis by simp
qed

lemma sample_scan:
  obtains r where "scan (memory_source sample_container) False = Inr r" "indx_valid r"
    "members r = [\<lparr>m_path = lit ''a'', m_offset = 118, m_length = 3\<rparr>]"
proof -
  obtain l where l: "layout_ok sample_sha256 sample_source l"
    and out: "sample_container = container sample_sha256 sample_source l"
    by (rule write_mpak_Inr [OF sample_packs])
  obtain idx where scan: "scan (memory_source sample_container) False
      = Inr (packed_reader sample_sha256 sample_source l idx)"
    using scan_container [OF l length_sample_sha256 sample_paths, of False] unfolding out by blast
  show ?thesis
    by (rule that [OF scan])
      (simp_all add: packed_reader_def Let_def sample_layout [OF l] member_of_def sample_source_def)
qed

text \<open>The properties applied to the sample container.\<close>

lemma sample_container_size: "length sample_container < u64_limit"
proof -
  obtain l where l: "layout_ok sample_sha256 sample_source l"
    and out: "sample_container = container sample_sha256 sample_source l"
    by (rule write_mpak_Inr [OF sample_packs])
  show ?thesis
    unfolding out length_container [of sample_sha256, OF length_sample_sha256]
    by (rule container_prefix_bound [OF l])
qed

theorem scan_members_sound_witness:
  "\<exists>r. scan (memory_source sample_container) False = Inr r \<and> members r \<noteq> []
    \<and> (\<forall>m\<in>set (members r). \<exists>pos\<ge>HEADER_LEN. data_block_at sample_container pos m)"
proof -
  obtain r where r: "scan (memory_source sample_container) False = Inr r"
    "members r = [\<lparr>m_path = lit ''a'', m_offset = 118, m_length = 3\<rparr>]"
    by (rule sample_scan)
  from scan_members_sound [OF r(1)] r show ?thesis by auto
qed

theorem scan_index_agrees_witness:
  "\<exists>r. scan (memory_source sample_container) False = Inr r \<and> indx_valid r
    \<and> indx_sha256 r (lit ''a'') \<noteq> None"
proof -
  obtain r where r: "scan (memory_source sample_container) False = Inr r" "indx_valid r"
    "members r = [\<lparr>m_path = lit ''a'', m_offset = 118, m_length = 3\<rparr>]"
    by (rule sample_scan)
  have "member r (lit ''a'') = Some \<lparr>m_path = lit ''a'', m_offset = 118, m_length = 3\<rparr>"
    using scan_result_members [OF memory.scan_correct [OF r(1)]] r(3) by simp
  with scan_index_agrees [OF r(1,2)] r show ?thesis by auto
qed

theorem member_stream_exact_witness:
  "member_read_to_end (memory_source sample_container) 2 [] (member_reader_new 118 3)
    = Inr (slice sample_container 118 121)"
proof -
  obtain r where r: "scan (memory_source sample_container) False = Inr r"
    "members r = [\<lparr>m_path = lit ''a'', m_offset = 118, m_length = 3\<rparr>]"
    by (rule sample_scan)
  from member_stream_exact [OF r(1) _ sample_container_size, of "\<lparr>m_path = lit ''a'', m_offset = 118, m_length = 3\<rparr>" 2]
  show ?thesis by (simp add: r(2))
qed

theorem framing_detects_one_byte_witness:
  "\<not> framing_ok (69 # tl (block_header (code Data) 5))"
proof -
  have hdr: "block_header (code Data) 5 = [] @ 68 # tl (block_header (code Data) 5)"
    by (simp add: block_header_def Let_def lit_def)
  have "framing_ok (block_header (code Data) 5)"
    by (rule framing_ok_block_header) (simp_all add: limits del: code.simps)
  then have "framing_ok ([] @ 68 # tl (block_header (code Data) 5))"
    using hdr by simp
  then have "\<not> framing_ok ([] @ 69 # tl (block_header (code Data) 5))"
    by (rule framing_detects_one_byte) (simp_all del: code.simps)
  then show ?thesis by simp
qed

theorem write_scan_roundtrip_witness:
  "\<exists>r. scan (memory_source sample_container) True = Inr r \<and> manifest r = Some (lit ''{}'')
    \<and> map m_path (members r) = [lit ''a''] \<and> indx_valid r"
  using write_scan_roundtrip [OF sample_packs length_sample_sha256 sample_paths, of True]
  by (auto simp: sample_source_def)

theorem packed_content_roundtrip_witness:
  "\<exists>r. scan (memory_source sample_container) False = Inr r
    \<and> (\<exists>m. members r = [m] \<and> member_read_to_end (memory_source sample_container) 7 []
         (member_reader_new (m_offset m) (m_length m)) = Inr [1, 2, 3])"
  using packed_content_roundtrip [OF sample_packs length_sample_sha256 sample_paths, of 7 False]
  by (auto simp: sample_source_def list_all2_Cons2)

end
