(* ===== verification/Queue.thy ===== *)
theory Queue
  imports Complex_Main Prelude
begin

text \<open>
  The playback queue: the ordering policy of \<open>src/player/order.rs\<close> and the model of
  \<open>src/player/queue.rs\<close>. Items are opaque to the queue, so their type is a parameter. Indices are
  \<open>i64\<close> in the code and \<open>int\<close> here: under the invariant they lie between \<open>-1\<close> and the number of
  items, far from the bounds of the type.

  The host's random number generator is a parameter: \<open>rng k i\<close> is the product of its \<open>k\<close>-th draw
  with \<open>i + 1\<close> in \<open>f64\<close>, \<open>None\<close> when that is not finite; nothing else of a draw is used.
\<close>

section \<open>Ordering policy\<close>

datatype repeat_mode = RepeatOff | RepeatOne | RepeatAll

type_synonym rng = "nat \<Rightarrow> nat \<Rightarrow> rat option"

definition draw_index :: "rng \<Rightarrow> nat \<Rightarrow> nat \<Rightarrow> nat" where
  "draw_index rng k i = (case rng k i of
      None \<Rightarrow> 0
    | Some scaled \<Rightarrow> nat (min (max \<lfloor>scaled\<rfloor> 0) (int i)))"

definition swap :: "'a list \<Rightarrow> nat \<Rightarrow> nat \<Rightarrow> 'a list" where
  "swap xs i j = xs[i := xs ! j, j := xs ! i]"

fun shuffle_loop :: "rng \<Rightarrow> nat \<Rightarrow> 'a list \<Rightarrow> nat \<Rightarrow> 'a list \<times> nat" where
  "shuffle_loop rng k out 0 = (out, k)"
| "shuffle_loop rng k out (Suc i) =
     shuffle_loop rng (k + 1) (swap out (Suc i) (draw_index rng k (Suc i))) i"

text \<open>\<open>shuffle_order\<close>: the shuffled list and the number of draws made so far.\<close>

definition shuffle_order :: "rng \<Rightarrow> nat \<Rightarrow> 'a list \<Rightarrow> 'a list \<times> nat" where
  "shuffle_order rng k upcoming =
     (if upcoming = [] then (upcoming, k)
      else shuffle_loop rng k upcoming (length upcoming - 1))"

definition next_index_under_repeat :: "int \<Rightarrow> nat \<Rightarrow> repeat_mode \<Rightarrow> nat option" where
  "next_index_under_repeat cursor len repeat =
     (if len = 0 then None
      else if cursor + 1 < int len then Some (nat (cursor + 1))
      else if repeat = RepeatAll then Some 0
      else None)"

section \<open>The queue model\<close>

record 'a queue_model =
  q_items :: "'a list"
  q_index :: int
  q_order :: "nat list"
  q_history :: "int list"
  q_draws :: nat
  q_repeat :: repeat_mode
  q_shuffling :: bool

definition queue_new :: "'a queue_model" where
  "queue_new = \<lparr>q_items = [], q_index = -1, q_order = [], q_history = [], q_draws = 0,
     q_repeat = RepeatOff, q_shuffling = False\<rparr>"

definition queue_at :: "'a queue_model \<Rightarrow> int \<Rightarrow> 'a option" where
  "queue_at q i =
     (if i < 0 then None
      else if nat i < length (q_items q) then Some (q_items q ! nat i) else None)"

definition queue_current :: "'a queue_model \<Rightarrow> 'a option" where
  "queue_current q = queue_at q (q_index q)"

definition set_all :: "'a queue_model \<Rightarrow> 'a list \<Rightarrow> int \<Rightarrow> 'a queue_model" where
  "set_all q items i = q\<lparr>q_items := items, q_index := i\<rparr>"

definition set_repeat :: "'a queue_model \<Rightarrow> repeat_mode \<Rightarrow> 'a queue_model" where
  "set_repeat q mode = q\<lparr>q_repeat := mode\<rparr>"

definition rebuild_order :: "rng \<Rightarrow> 'a queue_model \<Rightarrow> 'a queue_model" where
  "rebuild_order rng q =
     (if \<not> q_shuffling q \<or> q_items q = [] then q\<lparr>q_order := []\<rparr>
      else let upcoming = filter (\<lambda>i. int i \<noteq> q_index q) [0..<length (q_items q)];
               (rest, k) = shuffle_order rng (q_draws q) upcoming
           in q\<lparr>q_draws := k,
                q_order := (if q_index q \<ge> 0 then nat (q_index q) # rest else rest)\<rparr>)"

definition set_shuffle :: "rng \<Rightarrow> 'a queue_model \<Rightarrow> bool \<Rightarrow> 'a queue_model" where
  "set_shuffle rng q on =
     (if q_shuffling q = on then q
      else rebuild_order rng (q\<lparr>q_shuffling := on, q_history := []\<rparr>))"

definition presentation_order :: "'a queue_model \<Rightarrow> nat list" where
  "presentation_order q = (if q_shuffling q then q_order q else [])"

definition play_sequence ::
    "rng \<Rightarrow> 'a queue_model \<Rightarrow> 'a list \<Rightarrow> int \<Rightarrow> (rstr + 'a) \<times> 'a queue_model" where
  "play_sequence rng q items start_index =
     (if items = [] then (Inl (lit ''This release has no playable tracks.''), q)
      else let i = min (max start_index 0) (int (length items) - 1);
               q' = rebuild_order rng (q\<lparr>q_items := items, q_index := i, q_history := []\<rparr>)
           in case queue_at q' i of
                None \<Rightarrow> (Inl (lit ''This release has no playable tracks.''), q')
              | Some x \<Rightarrow> (Inr x, q'))"

definition play_now :: "rng \<Rightarrow> 'a queue_model \<Rightarrow> 'a \<Rightarrow> 'a \<times> 'a queue_model" where
  "play_now rng q x =
     (x, rebuild_order rng (q\<lparr>q_items := [x], q_index := 0, q_history := []\<rparr>))"

definition insert_at :: "nat \<Rightarrow> 'a \<Rightarrow> 'a list \<Rightarrow> 'a list" where
  "insert_at i x xs = take i xs @ x # drop i xs"

definition remove_nth :: "nat \<Rightarrow> 'a list \<Rightarrow> 'a list" where
  "remove_nth i xs = take i xs @ drop (Suc i) xs"

definition play_next :: "rng \<Rightarrow> 'a queue_model \<Rightarrow> 'a \<Rightarrow> 'a queue_model" where
  "play_next rng q x =
     rebuild_order rng
       (if q_items q = [] then q\<lparr>q_items := [x], q_index := 0\<rparr>
        else let i = min (nat (max (q_index q + 1) 0)) (length (q_items q))
             in q\<lparr>q_items := insert_at i x (q_items q)\<rparr>)"

definition enqueue :: "rng \<Rightarrow> 'a queue_model \<Rightarrow> 'a \<Rightarrow> 'a queue_model" where
  "enqueue rng q x = rebuild_order rng (q\<lparr>q_items := q_items q @ [x]\<rparr>)"

definition enqueue_many :: "rng \<Rightarrow> 'a queue_model \<Rightarrow> 'a list \<Rightarrow> 'a queue_model" where
  "enqueue_many rng q xs = rebuild_order rng (q\<lparr>q_items := q_items q @ xs\<rparr>)"

section \<open>Navigation\<close>

definition push_history :: "int \<Rightarrow> 'a queue_model \<Rightarrow> 'a queue_model" where
  "push_history c q =
     (let h = (if c \<ge> 0 then q_history q @ [c] else q_history q)
      in q\<lparr>q_history := drop (length h - 500) h\<rparr>)"

fun position :: "(nat \<Rightarrow> bool) \<Rightarrow> nat list \<Rightarrow> nat option" where
  "position P [] = None"
| "position P (x # xs) = (if P x then Some 0 else map_option Suc (position P xs))"

definition peek_next_index :: "rng \<Rightarrow> 'a queue_model \<Rightarrow> nat option \<times> 'a queue_model" where
  "peek_next_index rng q =
     (if q_items q = [] then (None, q)
      else let cursor = q_index q; q = push_history cursor q in
        if \<not> q_shuffling q
        then (next_index_under_repeat cursor (length (q_items q)) (q_repeat q), q)
        else case position (\<lambda>x. int x = cursor) (q_order q) of
            Some pos \<Rightarrow>
              if pos + 1 < length (q_order q) then (Some (q_order q ! (pos + 1)), q)
              else if q_repeat q = RepeatAll then
                (let q = rebuild_order rng q in
                 (if q_order q = [] then None else Some (hd (q_order q)), q))
              else (None, q)
          | None \<Rightarrow>
              if q_repeat q = RepeatAll then
                (let q = rebuild_order rng q in
                 (if q_order q = [] then None else Some (hd (q_order q)), q))
              else (None, q))"

definition next_item :: "rng \<Rightarrow> 'a queue_model \<Rightarrow> 'a option \<times> 'a queue_model" where
  "next_item rng q =
     (case peek_next_index rng q of
        (None, q') \<Rightarrow> (None, q')
      | (Some t, q') \<Rightarrow> let q'' = q'\<lparr>q_index := int t\<rparr> in (queue_at q'' (int t), q''))"

text \<open>
  The \<open>while let Some(prev) = history.pop()\<close> loop: the most recent entry that is a valid index
  other than the cursor, and the history below it. The history is kept newest last.
\<close>

fun pop_history :: "nat \<Rightarrow> int \<Rightarrow> int list \<Rightarrow> int option \<times> int list" where
  "pop_history n cur [] = (None, [])"
| "pop_history n cur (h # older) =
     (if h \<ge> 0 \<and> h < int n \<and> h \<noteq> cur then (Some h, rev older) else pop_history n cur older)"

definition peek_prev_index :: "'a queue_model \<Rightarrow> nat option \<times> 'a queue_model" where
  "peek_prev_index q =
     (if q_items q = [] then (None, q)
      else case pop_history (length (q_items q)) (q_index q) (rev (q_history q)) of
        (Some prev, h) \<Rightarrow> (Some (nat prev), q\<lparr>q_history := h\<rparr>)
      | (None, h) \<Rightarrow>
          let q = q\<lparr>q_history := h\<rparr> in
          if \<not> q_shuffling q
          then (if q_index q - 1 \<ge> 0 then Some (nat (q_index q - 1)) else None, q)
          else case position (\<lambda>x. int x = q_index q) (q_order q) of
              None \<Rightarrow> (None, q)
            | Some p \<Rightarrow> (if p > 0 then Some (q_order q ! (p - 1)) else None, q))"

definition previous_item :: "'a queue_model \<Rightarrow> 'a option \<times> 'a queue_model" where
  "previous_item q =
     (case peek_prev_index q of
        (None, q') \<Rightarrow> (None, q')
      | (Some t, q') \<Rightarrow> let q'' = q'\<lparr>q_index := int t\<rparr> in (queue_at q'' (int t), q''))"

definition move_to :: "'a queue_model \<Rightarrow> int \<Rightarrow> 'a queue_model" where
  "move_to q i = (if i < 0 \<or> i \<ge> int (length (q_items q)) then q else q\<lparr>q_index := i\<rparr>)"

section \<open>Editing\<close>

definition remap :: "int \<Rightarrow> int \<Rightarrow> int \<Rightarrow> int" where
  "remap fr to i =
     (if i = fr then to
      else if fr < to \<and> i > fr \<and> i \<le> to then i - 1
      else if fr > to \<and> i \<ge> to \<and> i < fr then i + 1
      else i)"

definition move_item :: "rng \<Rightarrow> 'a queue_model \<Rightarrow> int \<Rightarrow> int \<Rightarrow> 'a queue_model" where
  "move_item rng q fr to =
     (let n = int (length (q_items q)) in
      if fr < 0 \<or> fr \<ge> n \<or> to < 0 \<or> to \<ge> n \<or> fr = to then q
      else rebuild_order rng
        (q\<lparr>q_items := insert_at (nat to) (q_items q ! nat fr) (remove_nth (nat fr) (q_items q)),
           q_history := map (remap fr to) (q_history q),
           q_index := remap fr to (q_index q)\<rparr>))"

definition remove_at :: "rng \<Rightarrow> 'a queue_model \<Rightarrow> int \<Rightarrow> 'a queue_model" where
  "remove_at rng q i =
     (if i < 0 \<or> i \<ge> int (length (q_items q)) then q
      else let shift = (if i < q_index q then 1 else 0);
               items = remove_nth (nat i) (q_items q);
               ix = q_index q - shift;
               ix = (if i = q_index q then min ix (int (length items) - 1) else ix);
               history = map (\<lambda>h. if h > i then h - 1 else h) (filter (\<lambda>h. h \<noteq> i) (q_history q))
           in rebuild_order rng (q\<lparr>q_items := items, q_history := history, q_index := ix\<rparr>))"

definition queue_clear :: "'a queue_model \<Rightarrow> 'a queue_model" where
  "queue_clear q = q\<lparr>q_items := [], q_index := -1, q_history := [], q_order := []\<rparr>"

end
