(* ===== verification/Queue_Properties.thy ===== *)
theory Queue_Properties
  imports Queue
begin

text \<open>
  The invariant of the playback queue and what its operations keep: the cursor follows the item
  through every edit, the presentation order is a permutation of the queue, and Previous retraces
  Next.
\<close>

section \<open>Shuffling permutes\<close>

lemma length_swap [simp]: "length (swap xs i j) = length xs"
  by (simp add: swap_def)

lemma mset_swap_elems: "i < length xs \<Longrightarrow> j < length xs \<Longrightarrow> mset (swap xs i j) = mset xs"
  by (simp add: swap_def mset_swap)

lemma draw_index_le: "draw_index rng k i \<le> i"
  by (auto simp: draw_index_def split: option.splits)

lemma mset_shuffle_loop: "i < length out \<Longrightarrow> mset (fst (shuffle_loop rng k out i)) = mset out"
proof (induction rng k out i rule: shuffle_loop.induct)
  case (2 rng k out i)
  have "draw_index rng k (Suc i) < length out"
    using "2.prems" draw_index_le [of rng k "Suc i"] by linarith
  with 2 show ?case by (simp add: mset_swap_elems)
qed simp

lemma mset_shuffle_order: "mset (fst (shuffle_order rng k xs)) = mset xs"
  by (simp add: shuffle_order_def mset_shuffle_loop)

section \<open>The invariant\<close>

definition queue_ok :: "'a queue_model \<Rightarrow> bool" where
  "queue_ok q \<longleftrightarrow>
     -1 \<le> q_index q \<and> q_index q < int (length (q_items q))
     \<and> (if q_shuffling q \<and> q_items q \<noteq> [] then mset (q_order q) = mset [0..<length (q_items q)]
        else q_order q = [])
     \<and> (\<forall>h\<in>set (q_history q). 0 \<le> h \<and> h < int (length (q_items q)))
     \<and> length (q_history q) \<le> 500"

lemma mset_upt_split:
  assumes "i < n"
  shows "mset (i # filter (\<lambda>k. k \<noteq> i) [0..<n]) = mset [0..<n]"
  using assms by (subst set_eq_iff_mset_eq_distinct [symmetric]) auto

lemma rebuild_order_fields [simp]:
  "q_items (rebuild_order rng q) = q_items q" "q_index (rebuild_order rng q) = q_index q"
  "q_history (rebuild_order rng q) = q_history q" "q_repeat (rebuild_order rng q) = q_repeat q"
  "q_shuffling (rebuild_order rng q) = q_shuffling q"
  by (simp_all add: rebuild_order_def Let_def split: prod.splits)

lemma mset_rebuild_order:
  assumes "-1 \<le> q_index q" and "q_index q < int (length (q_items q))" and "q_shuffling q" "q_items q \<noteq> []"
  shows "mset (q_order (rebuild_order rng q)) = mset [0..<length (q_items q)]"
proof -
  let ?n = "length (q_items q)"
  let ?up = "filter (\<lambda>i. int i \<noteq> q_index q) [0..<?n]"
  obtain rest k where sh: "shuffle_order rng (q_draws q) ?up = (rest, k)"
    by (cases "shuffle_order rng (q_draws q) ?up")
  then have rest: "mset rest = mset ?up"
    by (metis fst_conv mset_shuffle_order)
  show ?thesis
  proof (cases "0 \<le> q_index q")
    case True
    then have "?up = filter (\<lambda>k. k \<noteq> nat (q_index q)) [0..<?n]"
      by (intro filter_cong) auto
    moreover have "nat (q_index q) < ?n"
      using True assms(2) by linarith
    ultimately have "mset (nat (q_index q) # rest) = mset [0..<?n]"
      using rest mset_upt_split [of "nat (q_index q)" ?n] by simp
    then show ?thesis
      using True assms sh by (simp add: rebuild_order_def)
  next
    case False
    then have "?up = [0..<?n]"
      by (intro filter_True) auto
    then show ?thesis
      using False assms sh rest by (simp add: rebuild_order_def)
  qed
qed

lemma rebuild_order_idle: "\<not> (q_shuffling q \<and> q_items q \<noteq> []) \<Longrightarrow> q_order (rebuild_order rng q) = []"
  by (auto simp: rebuild_order_def)

lemma queue_ok_rebuild:
  assumes "-1 \<le> q_index q" and "q_index q < int (length (q_items q))"
    and "\<forall>h\<in>set (q_history q). 0 \<le> h \<and> h < int (length (q_items q))" and "length (q_history q) \<le> 500"
  shows "queue_ok (rebuild_order rng q)"
  using assms mset_rebuild_order [of q rng] rebuild_order_idle [of q rng]
  unfolding queue_ok_def by auto

section \<open>Every operation keeps the invariant\<close>

lemma queue_ok_new: "queue_ok queue_new"
  by (simp add: queue_ok_def queue_new_def)

lemma queue_ok_D:
  assumes "queue_ok q"
  shows "-1 \<le> q_index q" "q_index q < int (length (q_items q))"
    "\<And>h. h \<in> set (q_history q) \<Longrightarrow> 0 \<le> h \<and> h < int (length (q_items q))" "length (q_history q) \<le> 500"
  using assms by (auto simp: queue_ok_def)

lemma queue_ok_set_repeat: "queue_ok q \<Longrightarrow> queue_ok (set_repeat q m)"
  by (simp add: queue_ok_def set_repeat_def)

lemma queue_ok_set_shuffle: "queue_ok q \<Longrightarrow> queue_ok (set_shuffle rng q on)"
  by (auto simp: set_shuffle_def queue_ok_D intro!: queue_ok_rebuild)

lemma queue_ok_play_sequence: "queue_ok q \<Longrightarrow> queue_ok (snd (play_sequence rng q xs i))"
  by (cases "xs = []")
    (auto simp: play_sequence_def Let_def min_def max_def Suc_le_eq split: option.splits intro!: queue_ok_rebuild)

lemma queue_ok_play_now: "queue_ok (snd (play_now rng q x))"
  by (simp add: play_now_def queue_ok_rebuild)

lemma length_insert_at [simp]: "length (insert_at i x xs) = Suc (length xs)"
  by (simp add: insert_at_def)

lemma length_remove_nth [simp]: "i < length xs \<Longrightarrow> length (remove_nth i xs) = length xs - 1"
  by (simp add: remove_nth_def)

lemma queue_ok_play_next:
  assumes "queue_ok q"
  shows "queue_ok (play_next rng q x)"
proof (cases "q_items q = []")
  case True
  with queue_ok_D [OF assms] show ?thesis
    unfolding play_next_def by (intro queue_ok_rebuild) (auto, fastforce)
next
  case False
  with queue_ok_D [OF assms] show ?thesis
    unfolding play_next_def Let_def by (intro queue_ok_rebuild) (auto, fastforce+)
qed

lemma queue_ok_enqueue_many: "queue_ok q \<Longrightarrow> queue_ok (enqueue_many rng q xs)"
  unfolding enqueue_many_def
  by (rule queue_ok_rebuild) (use queue_ok_D [of q] in \<open>fastforce+\<close>)

lemma queue_ok_enqueue: "queue_ok q \<Longrightarrow> queue_ok (enqueue rng q x)"
  using queue_ok_enqueue_many [of q rng "[x]"] by (simp add: enqueue_def enqueue_many_def)

lemma remap_range: "0 \<le> i \<Longrightarrow> i < n \<Longrightarrow> 0 \<le> to \<Longrightarrow> to < n \<Longrightarrow> 0 \<le> fr \<Longrightarrow> fr < n
    \<Longrightarrow> 0 \<le> remap fr to i \<and> remap fr to i < n"
  by (auto simp: remap_def)

lemma remap_minus_one: "0 \<le> to \<Longrightarrow> 0 \<le> fr \<Longrightarrow> remap fr to (-1) = -1"
  by (simp add: remap_def)

lemma queue_ok_move_item:
  assumes "queue_ok q"
  shows "queue_ok (move_item rng q fr to)"
proof (cases "fr < 0 \<or> fr \<ge> int (length (q_items q)) \<or> to < 0 \<or> to \<ge> int (length (q_items q)) \<or> fr = to")
  case True
  then have "move_item rng q fr to = q"
    by (auto simp: move_item_def Let_def)
  with assms show ?thesis by simp
next
  case False
  have ix: "-1 \<le> remap fr to (q_index q) \<and> remap fr to (q_index q) < int (length (q_items q))"
    using queue_ok_D(1,2) [OF assms] False remap_range [of "q_index q" "int (length (q_items q))" to fr]
    by (cases "q_index q = -1") (auto simp: remap_minus_one)
  have len: "length (insert_at (nat to) x (remove_nth (nat fr) (q_items q))) = length (q_items q)" for x
  proof -
    have "nat fr < length (q_items q)"
      using False by linarith
    then show ?thesis by simp
  qed
  have hist: "\<forall>h\<in>set (map (remap fr to) (q_history q)). 0 \<le> h \<and> h < int (length (q_items q))"
    using queue_ok_D(3) [OF assms] False remap_range [of _ "int (length (q_items q))" to fr]
    by auto
  have eq: "move_item rng q fr to = rebuild_order rng
        (q\<lparr>q_items := insert_at (nat to) (q_items q ! nat fr) (remove_nth (nat fr) (q_items q)),
           q_history := map (remap fr to) (q_history q), q_index := remap fr to (q_index q)\<rparr>)"
    unfolding move_item_def Let_def using False by (simp only: if_False)
  show ?thesis
    unfolding eq by (rule queue_ok_rebuild) (use ix hist queue_ok_D(4) [OF assms] in \<open>simp_all add: len del: length_insert_at\<close>)
qed

lemma queue_ok_remove_at:
  assumes "queue_ok q"
  shows "queue_ok (remove_at rng q i)"
proof (cases "i < 0 \<or> i \<ge> int (length (q_items q))")
  case True
  with assms show ?thesis by (auto simp: remove_at_def)
next
  case False
  have len: "length (remove_nth (nat i) (q_items q)) = length (q_items q) - 1"
    using False by (simp add: nat_less_iff)
  have pos: "0 < length (q_items q)"
    using False by (cases "q_items q") auto
  have "length (filter (\<lambda>h. h \<noteq> i) (q_history q)) \<le> 500"
    using length_filter_le [of "\<lambda>h. h \<noteq> i" "q_history q"] queue_ok_D(4) [OF assms] by linarith
  moreover have "0 \<le> (if h > i then h - 1 else h) \<and> (if h > i then h - 1 else h) < int (length (q_items q) - 1)"
    if "h \<in> set (q_history q)" "h \<noteq> i" for h
    using queue_ok_D(3) [OF assms that(1)] that(2) False pos by (auto simp: of_nat_diff)
  then have "\<forall>h\<in>set (map (\<lambda>h. if h > i then h - 1 else h) (filter (\<lambda>h. h \<noteq> i) (q_history q))).
      0 \<le> h \<and> h < int (length (q_items q) - 1)"
    unfolding set_map set_filter ball_simps by blast
  moreover have "int (length (q_items q) - 1) = int (length (q_items q)) - 1"
    using pos by linarith
  moreover note queue_ok_D(1,2) [OF assms]
  ultimately show ?thesis
    unfolding remove_at_def Let_def if_not_P [OF False] len
    by (intro queue_ok_rebuild) (use False in \<open>simp_all add: len min_def split: if_splits\<close>)
qed

lemma queue_ok_clear: "queue_ok (queue_clear q)"
  by (simp add: queue_ok_def queue_clear_def)

lemma queue_ok_move_to: "queue_ok q \<Longrightarrow> queue_ok (move_to q i)"
  by (simp add: queue_ok_def move_to_def)

lemma queue_ok_push_history:
  assumes "queue_ok q" and "c < int (length (q_items q))"
  shows "queue_ok (push_history c q)"
  using assms by (auto simp: queue_ok_def push_history_def Let_def dest: in_set_dropD)

lemma push_history_fields [simp]:
  "q_items (push_history c q) = q_items q" "q_index (push_history c q) = q_index q"
  "q_order (push_history c q) = q_order q" "q_repeat (push_history c q) = q_repeat q"
  "q_shuffling (push_history c q) = q_shuffling q"
  by (simp_all add: push_history_def Let_def)

lemma order_elem:
  assumes "queue_ok q" and "x \<in> set (q_order q)"
  shows "x < length (q_items q)"
proof -
  have "q_order q = [] \<or> mset (q_order q) = mset [0..<length (q_items q)]"
    using assms(1) unfolding queue_ok_def by presburger
  then have "q_order q = [] \<or> set (q_order q) = set [0..<length (q_items q)]"
    by (blast dest: mset_eq_setD)
  with assms(2) show ?thesis by auto
qed

lemma position_Some: "position P xs = Some p \<Longrightarrow> p < length xs \<and> P (xs ! p)"
  by (induction xs arbitrary: p) (auto split: if_splits)

lemma queue_ok_rebuild_id: "queue_ok q \<Longrightarrow> queue_ok (rebuild_order rng q)"
  by (rule queue_ok_rebuild) (auto simp: queue_ok_D)

lemma hd_order: "queue_ok q \<Longrightarrow> q_order q \<noteq> [] \<Longrightarrow> hd (q_order q) < length (q_items q)"
  by (simp add: order_elem)

lemma peek_next_ok:
  assumes "queue_ok q" and "peek_next_index rng q = (t, q')"
  shows "queue_ok q' \<and> q_items q' = q_items q \<and> q_index q' = q_index q
    \<and> (\<forall>i. t = Some i \<longrightarrow> i < length (q_items q))"
proof (cases "q_items q = []")
  case True
  with assms show ?thesis by (auto simp: peek_next_index_def)
next
  case False
  define p where "p = push_history (q_index q) q"
  have p: "queue_ok p" "q_items p = q_items q" "q_index p = q_index q"
    using queue_ok_push_history [OF assms(1), of "q_index q"] queue_ok_D(2) [OF assms(1)] by (simp_all add: p_def)
  have r: "queue_ok (rebuild_order rng p)"
    using p(1) by (rule queue_ok_rebuild_id)
  show ?thesis
    using assms(2) False p r order_elem [OF p(1)] hd_order [OF r] queue_ok_D(1) [OF assms(1)]
    unfolding peek_next_index_def Let_def if_not_P [OF False] p_def [symmetric]
    by (auto simp: next_index_under_repeat_def split: if_splits option.splits dest!: position_Some)
qed

lemma queue_ok_index: "queue_ok q \<Longrightarrow> i < length (q_items q) \<Longrightarrow> queue_ok (q\<lparr>q_index := int i\<rparr>)"
  by (simp add: queue_ok_def)

lemma queue_ok_next:
  assumes "queue_ok q"
  shows "queue_ok (snd (next_item rng q))"
proof -
  obtain t q' where pk: "peek_next_index rng q = (t, q')" by fastforce
  from peek_next_ok [OF assms pk] show ?thesis
    by (cases t) (simp_all add: next_item_def pk Let_def queue_ok_index)
qed

lemma pop_history_ok:
  assumes "pop_history n cur h = (t, h')"
  shows "set h' \<subseteq> set h \<and> length h' \<le> length h \<and> (\<forall>i. t = Some i \<longrightarrow> 0 \<le> i \<and> i < int n \<and> i \<noteq> cur)"
  using assms by (induction n cur h rule: pop_history.induct) (auto split: if_splits)

lemma peek_prev_ok:
  assumes "queue_ok q" and "peek_prev_index q = (t, q')"
  shows "queue_ok q' \<and> q_items q' = q_items q \<and> (\<forall>i. t = Some i \<longrightarrow> i < length (q_items q))"
proof (cases "q_items q = []")
  case True
  with assms show ?thesis by (auto simp: peek_prev_index_def)
next
  case False
  obtain pv h where pop: "pop_history (length (q_items q)) (q_index q) (rev (q_history q)) = (pv, h)"
    by fastforce
  have h: "set h \<subseteq> set (q_history q)" "length h \<le> length (q_history q)"
    "\<forall>i. pv = Some i \<longrightarrow> 0 \<le> i \<and> i < int (length (q_items q)) \<and> i \<noteq> q_index q"
    using pop_history_ok [OF pop] by auto
  then have ok: "queue_ok (q\<lparr>q_history := h\<rparr>)"
    using assms(1) by (auto simp: queue_ok_def)
  show ?thesis
    using assms(2) False ok h(3) order_elem [OF assms(1)] queue_ok_D(1,2) [OF assms(1)]
    by (auto simp: peek_prev_index_def pop Let_def split: option.splits if_splits dest!: position_Some)
qed

lemma queue_ok_previous:
  assumes "queue_ok q"
  shows "queue_ok (snd (previous_item q))"
proof -
  obtain t q' where pk: "peek_prev_index q = (t, q')" by fastforce
  from peek_prev_ok [OF assms pk] show ?thesis
    by (cases t) (simp_all add: previous_item_def pk Let_def queue_ok_index)
qed

section \<open>Runs of the queue\<close>

text \<open>The operations of the model, and a run of them from a new queue.\<close>

datatype 'a queue_op = SetRepeat repeat_mode | SetShuffle bool | PlaySequence "'a list" int
  | PlayNow 'a | PlayNext 'a | Enqueue 'a | EnqueueMany "'a list" | NextItem | PreviousItem
  | MoveTo int | MoveItem int int | RemoveAt int | ClearAll

fun queue_apply :: "rng \<Rightarrow> 'a queue_op \<Rightarrow> 'a queue_model \<Rightarrow> 'a queue_model" where
  "queue_apply rng (SetRepeat m) q = set_repeat q m"
| "queue_apply rng (SetShuffle on) q = set_shuffle rng q on"
| "queue_apply rng (PlaySequence xs i) q = snd (play_sequence rng q xs i)"
| "queue_apply rng (PlayNow x) q = snd (play_now rng q x)"
| "queue_apply rng (PlayNext x) q = play_next rng q x"
| "queue_apply rng (Enqueue x) q = enqueue rng q x"
| "queue_apply rng (EnqueueMany xs) q = enqueue_many rng q xs"
| "queue_apply rng NextItem q = snd (next_item rng q)"
| "queue_apply rng PreviousItem q = snd (previous_item q)"
| "queue_apply rng (MoveTo i) q = move_to q i"
| "queue_apply rng (MoveItem fr to) q = move_item rng q fr to"
| "queue_apply rng (RemoveAt i) q = remove_at rng q i"
| "queue_apply rng ClearAll q = queue_clear q"

inductive queue_reach :: "rng \<Rightarrow> 'a queue_model \<Rightarrow> bool" for rng where
  start: "queue_reach rng queue_new"
| step: "queue_reach rng q \<Longrightarrow> queue_reach rng (queue_apply rng op q)"

lemma queue_apply_ok: "queue_ok q \<Longrightarrow> queue_ok (queue_apply rng op q)"
  by (cases op) (simp_all add: queue_ok_set_repeat queue_ok_set_shuffle queue_ok_play_sequence
      queue_ok_play_now queue_ok_play_next queue_ok_enqueue queue_ok_enqueue_many queue_ok_next
      queue_ok_previous queue_ok_move_to queue_ok_move_item queue_ok_remove_at queue_ok_clear)

lemma queue_reach_ok: "queue_reach rng q \<Longrightarrow> queue_ok q"
  by (induction rule: queue_reach.induct) (simp_all add: queue_ok_new queue_apply_ok)

lemma queue_run_reach: "queue_reach rng q \<Longrightarrow> queue_reach rng (fold (queue_apply rng) ops q)"
  by (induction ops arbitrary: q) (auto intro: queue_reach.step)


text \<open>Fisher-Yates with any random number generator, an out-of-range or non-finite one included,
  returns a permutation of its input: no item is lost or repeated and no index is out of bounds.\<close>

theorem shuffle_permutes: "mset (fst (shuffle_order rng k xs)) = mset xs"
  by (rule mset_shuffle_order)

section \<open>The cursor follows the item\<close>

lemma nth_remove_nth:
  "i < length xs \<Longrightarrow> k < length xs - 1 \<Longrightarrow> remove_nth i xs ! k = xs ! (if k < i then k else Suc k)"
  by (auto simp: remove_nth_def nth_append min_def)

lemma nth_insert_at:
  "i \<le> length xs \<Longrightarrow> k \<le> length xs \<Longrightarrow>
    insert_at i x xs ! k = (if k < i then xs ! k else if k = i then x else xs ! (k - 1))"
  by (auto simp: insert_at_def nth_append nth_Cons' min_def)

lemma mset_insert_remove: "i < length xs \<Longrightarrow> mset (insert_at j (xs ! i) (remove_nth i xs)) = mset xs"
proof -
  assume "i < length xs"
  then have "mset (remove_nth i xs) + {#xs ! i#} = mset xs"
    by (metis remove_nth_def id_take_nth_drop mset_append mset.simps(2) add_mset_add_single union_mset_add_mset_right)
  moreover have "mset (insert_at j (xs ! i) (remove_nth i xs)) = mset (remove_nth i xs) + {#xs ! i#}"
    by (simp add: insert_at_def) (metis append_take_drop_id mset_append)
  ultimately show ?thesis by simp
qed

lemma remap_int:
  "remap (int a) (int b) (int k) = int (if k = a then b
     else if a < b \<and> a < k \<and> k \<le> b then k - 1 else if b < a \<and> b \<le> k \<and> k < a then Suc k else k)"
  by (auto simp: remap_def)

lemma moved_item_nat:
  assumes "a < length xs" "b < length xs" "k < length xs"
  shows "insert_at b (xs ! a) (remove_nth a xs) ! (if k = a then b
     else if a < b \<and> a < k \<and> k \<le> b then k - 1 else if b < a \<and> b \<le> k \<and> k < a then Suc k else k) = xs ! k"
proof -
  have l: "length (remove_nth a xs) = length xs - 1"
    using assms(1) by simp
  have ins: "insert_at b (xs ! a) (remove_nth a xs) ! j =
      (if j < b then remove_nth a xs ! j else if j = b then xs ! a else remove_nth a xs ! (j - 1))"
    if "j < length xs" for j
    using that l assms by (intro nth_insert_at) simp_all
  have rem: "remove_nth a xs ! j = xs ! (if j < a then j else Suc j)" if "j < length xs - 1" for j
    using assms(1) that by (rule nth_remove_nth)
  consider "k = a" | "a < b" "a < k" "k \<le> b" | "b < a" "b \<le> k" "k < a"
    | "k \<noteq> a" "\<not> (a < b \<and> a < k \<and> k \<le> b)" "\<not> (b < a \<and> b \<le> k \<and> k < a)" by blast
  then show ?thesis
  proof cases
    case 1
    with assms ins show ?thesis by simp
  next
    case 2
    then obtain m where "k = Suc m"
      by (cases k) auto
    with 2 assms ins [of m] rem [of m] show ?thesis by simp
  next
    case 3
    with assms ins [of "Suc k"] rem [of k] show ?thesis by simp
  next
    case 4
    then have "(k < a \<and> k < b) \<or> (a < k \<and> b < k)" by linarith
    with 4 assms ins [of k] rem [of k] rem [of "k - 1"] show ?thesis by (elim disjE) auto
  qed
qed

lemma moved_item:
  assumes "0 \<le> fr" "fr < int (length xs)" "0 \<le> to" "to < int (length xs)" "0 \<le> i" "i < int (length xs)"
  shows "insert_at (nat to) (xs ! nat fr) (remove_nth (nat fr) xs) ! nat (remap fr to i) = xs ! nat i"
proof -
  obtain a b k where n: "fr = int a" "to = int b" "i = int k"
    using assms by (metis nonneg_int_cases)
  show ?thesis
    using assms moved_item_nat [of a xs b k] unfolding n remap_int nat_int by simp
qed

text \<open>C20: Moving an item permutes the queue and puts the item at its new place; the current item and
  every item of the navigation history stay the items they were.\<close>

theorem move_item_follows:
  assumes "queue_ok q" and "0 \<le> fr" "fr < int (length (q_items q))"
    and "0 \<le> to" "to < int (length (q_items q))"
  shows "mset (q_items (move_item rng q fr to)) = mset (q_items q)
    \<and> q_items (move_item rng q fr to) ! nat to = q_items q ! nat fr
    \<and> queue_current (move_item rng q fr to) = queue_current q
    \<and> map (queue_at (move_item rng q fr to)) (q_history (move_item rng q fr to))
        = map (queue_at q) (q_history q)"
proof (cases "fr = to")
  case True
  then have "move_item rng q fr to = q"
    by (simp add: move_item_def Let_def)
  with True show ?thesis by simp
next
  case False
  define q' where "q' = move_item rng q fr to"
  define xs where "xs = q_items q"
  have q': "q_items q' = insert_at (nat to) (xs ! nat fr) (remove_nth (nat fr) xs)"
    "q_index q' = remap fr to (q_index q)" "q_history q' = map (remap fr to) (q_history q)"
    using assms False by (simp_all add: q'_def move_item_def Let_def xs_def)
  have lt: "nat fr < length xs" "nat to < length xs"
    using assms by (simp_all add: xs_def nat_less_iff)
  have len: "length (q_items q') = length xs"
    unfolding q' using lt by simp
  have at: "queue_at q' (remap fr to i) = queue_at q i" if "-1 \<le> i" "i < int (length xs)" for i
  proof (cases "i = -1")
    case True
    then show ?thesis
      using assms by (simp add: queue_at_def remap_minus_one)
  next
    case False
    with that assms have "0 \<le> remap fr to i \<and> remap fr to i < int (length xs)"
      by (intro remap_range) (simp_all add: xs_def)
    then show ?thesis
      using that False assms moved_item [of fr xs to i] len
      by (simp add: queue_at_def q'(1) xs_def nat_less_iff)
  qed
  have "queue_current q' = queue_current q"
    using queue_ok_D(1,2) [OF assms(1)] by (simp add: queue_current_def q'(2) at xs_def)
  moreover have "map (queue_at q') (q_history q') = map (queue_at q) (q_history q)"
    unfolding q'(3) map_map comp_def
    by (intro map_cong refl at) (use queue_ok_D(3) [OF assms(1)] in \<open>force simp: xs_def\<close>)+
  moreover have "q_items q' ! nat to = xs ! nat fr"
    unfolding q'(1) using lt by (subst nth_insert_at) simp_all
  ultimately show ?thesis
    using mset_insert_remove [OF lt(1)] by (simp add: q'_def [symmetric] q'(1) xs_def)
qed

text \<open>C21: Removing an item removes exactly it. When it is not the current item the current item stays;
  when it is, the cursor passes to its successor, or to its predecessor at the end of the queue. The
  history keeps the other items it held.\<close>

theorem remove_at_follows:
  assumes "queue_ok q" and "0 \<le> i" "i < int (length (q_items q))"
  shows "q_items (remove_at rng q i) = remove_nth (nat i) (q_items q)
    \<and> queue_current (remove_at rng q i) =
        (if i \<noteq> q_index q then queue_current q
         else if i + 1 < int (length (q_items q)) then queue_at q (i + 1) else queue_at q (i - 1))
    \<and> map (queue_at (remove_at rng q i)) (q_history (remove_at rng q i))
        = map (queue_at q) (filter (\<lambda>h. h \<noteq> i) (q_history q))"
proof -
  define q' where "q' = remove_at rng q i"
  define n where "n = length (q_items q)"
  let ?down = "\<lambda>h. if h > i then h - 1 else h"
  have len: "length (remove_nth (nat i) (q_items q)) = n - 1"
    using assms(2,3) by (simp add: n_def nat_less_iff)
  have n: "int (n - 1) = int n - 1" "0 < n" "i < int n"
    using assms(2,3) unfolding n_def by linarith+
  have guard: "\<not> (i < 0 \<or> int (length (q_items q)) \<le> i)"
    using assms by simp
  have items: "q_items q' = remove_nth (nat i) (q_items q)"
    and hist: "q_history q' = map ?down (filter (\<lambda>h. h \<noteq> i) (q_history q))"
    and index: "q_index q' = (if i = q_index q then min i (int n - 1 - 1) else ?down (q_index q))"
    unfolding q'_def remove_at_def Let_def if_not_P [OF guard] len using n(1) by (simp_all add: min_def)
  have at: "queue_at q' (?down h) = queue_at q h" if "-1 \<le> h" "h < int n" "h \<noteq> i" for h
  proof (cases "h = -1")
    case True
    with assms(2) show ?thesis by (simp add: queue_at_def)
  next
    case False
    with that have "0 \<le> h" by linarith
    with that assms(2) obtain k where k: "h = int k" "k < n" "k \<noteq> nat i"
      by (cases h) auto
    show ?thesis
    proof (cases "k < nat i")
      case True
      then have "\<not> h > i" using k(1) by linarith
      with True k n assms(2,3) show ?thesis
        by (simp add: queue_at_def items len nth_remove_nth n_def [symmetric] nat_less_iff)
    next
      case False
      then have "h > i" using k by linarith
      moreover obtain m where m: "k = Suc m" "nat i \<le> m"
        using False k(3) by (cases k) auto
      moreover have "nat (1 + int m) = Suc m" "m < n - 1"
        using k m by simp_all
      ultimately show ?thesis
        using k n assms(2,3)
        by (simp add: queue_at_def items len nth_remove_nth n_def [symmetric] nat_less_iff)
    qed
  qed
  have cur: "queue_current q' = (if i \<noteq> q_index q then queue_current q
      else if i + 1 < int n then queue_at q (i + 1) else queue_at q (i - 1))"
  proof (cases "i = q_index q")
    case False
    with at [of "q_index q"] queue_ok_D(1,2) [OF assms(1)] show ?thesis
      by (simp add: queue_current_def index n_def)
  next
    case True
    show ?thesis
    proof (cases "i + 1 < int n")
      case a: True
      with True at [of "i + 1"] assms(2) show ?thesis
        by (simp add: queue_current_def index min_def)
    next
      case a: False
      with n have "i = int n - 1" by linarith
      with True at [of "i - 1"] a assms(2) show ?thesis
        by (simp add: queue_current_def index min_def)
    qed
  qed
  moreover have "map (queue_at q') (q_history q') = map (queue_at q) (filter (\<lambda>h. h \<noteq> i) (q_history q))"
    unfolding hist map_map comp_def
    by (intro map_cong refl at) (use queue_ok_D(3) [OF assms(1)] in \<open>force simp: n_def\<close>)+
  ultimately show ?thesis
    unfolding q'_def [symmetric] items n_def by blast
qed

section \<open>Next and Previous\<close>

lemma peek_next_history:
  assumes "peek_next_index rng q = (t, q')" and "q_items q \<noteq> []" and "0 \<le> q_index q"
  shows "\<exists>h. q_history q' = h @ [q_index q]"
proof -
  have "q_history q' = q_history (push_history (q_index q) q)"
    using assms(1,2) by (auto simp: peek_next_index_def Let_def split: if_splits option.splits)
  moreover have "\<exists>h. q_history (push_history c q) = h @ [c]" if "0 \<le> c" for c
    using that by (intro exI [of _ "drop (length (q_history q @ [c]) - 500) (q_history q)"])
      (simp add: push_history_def Let_def)
  ultimately show ?thesis
    using assms(3) by simp
qed

text \<open>C22: Previous undoes Next: after a Next that moved the cursor, Previous returns the item that was
  current and puts the cursor back on it, whatever the repeat mode and also while shuffling.\<close>

theorem previous_undoes_next:
  assumes "queue_ok q" and "0 \<le> q_index q" and "next_item rng q = (Some x, q')"
    and "q_index q' \<noteq> q_index q"
  shows "fst (previous_item q') = queue_current q \<and> q_index (snd (previous_item q')) = q_index q
    \<and> q_items (snd (previous_item q')) = q_items q"
proof -
  obtain t p where pk: "peek_next_index rng q = (t, p)" by fastforce
  note ok = peek_next_ok [OF assms(1) pk]
  obtain i where t: "t = Some i" "q' = p\<lparr>q_index := int i\<rparr>"
    using assms(3) pk by (cases t) (auto simp: next_item_def Let_def)
  have ne: "q_items q \<noteq> []"
    using assms(2) queue_ok_D(2) [OF assms(1)] by auto
  obtain h where h: "q_history p = h @ [q_index q]"
    using peek_next_history [OF pk ne assms(2)] by blast
  have q': "q_items q' = q_items q" "q_history q' = h @ [q_index q]" "q_index q' = int i"
    using ok h t by simp_all
  have "pop_history (length (q_items q)) (int i) (rev (q_history q')) = (Some (q_index q), h)"
    using assms(2,4) queue_ok_D(2) [OF assms(1)] by (simp add: q')
  then have "peek_prev_index q' = (Some (nat (q_index q)), q'\<lparr>q_history := h\<rparr>)"
    using ne q' by (simp add: peek_prev_index_def)
  then have "previous_item q' = (queue_at (q'\<lparr>q_history := h, q_index := q_index q\<rparr>) (q_index q),
      q'\<lparr>q_history := h, q_index := q_index q\<rparr>)"
    using assms(2) by (simp add: previous_item_def Let_def)
  then show ?thesis
    by (simp add: q' queue_current_def queue_at_def)
qed

text \<open>The items \<open>k\<close> calls of Next return.\<close>

fun nexts :: "rng \<Rightarrow> nat \<Rightarrow> 'a queue_model \<Rightarrow> 'a option list" where
  "nexts rng 0 q = []"
| "nexts rng (Suc k) q = (case next_item rng q of (x, q') \<Rightarrow> x # nexts rng k q')"

lemma position_nth:
  "distinct xs \<Longrightarrow> p < length xs \<Longrightarrow> position (\<lambda>x. int x = int (xs ! p)) xs = Some p"
proof (induction xs arbitrary: p)
  case (Cons x xs)
  then show ?case by (cases p) auto
qed simp

lemma next_item_in_order:
  assumes "queue_ok q" and "q_shuffling q" and "p + 1 < length (q_order q)" and "q_index q = int (q_order q ! p)"
  shows "\<exists>q'. next_item rng q = (Some (q_items q ! (q_order q ! (p + 1))), q') \<and> queue_ok q'
    \<and> q_shuffling q' \<and> q_order q' = q_order q \<and> q_items q' = q_items q
    \<and> q_index q' = int (q_order q ! (p + 1))"
proof -
  have ne: "q_items q \<noteq> []"
    using assms(1,3) by (auto simp: queue_ok_def)
  then have "mset (q_order q) = mset [0..<length (q_items q)]"
    using assms(1,2) unfolding queue_ok_def by presburger
  then have dist: "distinct (q_order q)"
    by (metis distinct_upt mset_eq_imp_distinct_iff)
  have pk: "peek_next_index rng q = (Some (q_order q ! (p + 1)), push_history (q_index q) q)"
    using assms ne position_nth [OF dist, of p] by (simp add: peek_next_index_def Let_def)
  have el: "q_order q ! (p + 1) < length (q_items q)"
    using assms(3) order_elem [OF assms(1)] by simp
  have "next_item rng q = (Some (q_items q ! (q_order q ! (p + 1))),
      (push_history (q_index q) q)\<lparr>q_index := int (q_order q ! (p + 1))\<rparr>)"
    using pk el by (simp add: next_item_def Let_def queue_at_def)
  moreover have "queue_ok ((push_history (q_index q) q)\<lparr>q_index := int (q_order q ! (p + 1))\<rparr>)"
    using peek_next_ok [OF assms(1) pk] el by (intro queue_ok_index) simp_all
  ultimately show ?thesis
    using assms(2) by simp
qed

lemma nexts_in_order:
  assumes "queue_ok q" and "q_shuffling q" and "p + k < length (q_order q)" and "q_index q = int (q_order q ! p)"
  shows "nexts rng k q = map (\<lambda>i. Some (q_items q ! i)) (take k (drop (p + 1) (q_order q)))"
  using assms
proof (induction k arbitrary: p q)
  case 0
  then show ?case by simp
next
  case (Suc k)
  then have "p + 1 < length (q_order q)" by simp
  from next_item_in_order [OF Suc.prems(1,2) this Suc.prems(4), of rng] obtain q' where
    q': "next_item rng q = (Some (q_items q ! (q_order q ! (p + 1))), q')" "queue_ok q'" "q_shuffling q'"
      "q_order q' = q_order q" "q_items q' = q_items q" "q_index q' = int (q_order q ! (p + 1))"
    by blast
  have "nexts rng k q' = map (\<lambda>i. Some (q_items q' ! i)) (take k (drop (p + 1 + 1) (q_order q')))"
    using q' Suc.prems(3) by (intro Suc.IH) simp_all
  moreover have "drop (p + 1) (q_order q) = q_order q ! (p + 1) # drop (p + 2) (q_order q)"
    using Suc.prems(3) by (simp add: Cons_nth_drop_Suc)
  ultimately show ?case
    using q' by simp
qed

text \<open>C19: Shuffling plays every item exactly once: after shuffle is turned on, the current item
  followed by as many Next as there are other items is a permutation of the queue, and the list of
  items itself is unchanged.\<close>

theorem shuffle_plays_each_once:
  assumes "queue_ok q" and "\<not> q_shuffling q" and "0 \<le> q_index q"
  shows "mset (queue_current q # nexts rng (length (q_items q) - 1) (set_shuffle rng q True))
      = mset (map Some (q_items q))
    \<and> q_items (set_shuffle rng q True) = q_items q"
proof -
  define s where "s = set_shuffle rng q True"
  define n where "n = length (q_items q)"
  have s: "queue_ok s" "q_shuffling s" "q_items s = q_items q" "q_index s = q_index q"
    using queue_ok_set_shuffle [OF assms(1), of rng True] assms(2) by (simp_all add: s_def set_shuffle_def)
  have ne: "q_items q \<noteq> []"
    using assms(3) queue_ok_D(2) [OF assms(1)] by auto
  have ord: "mset (q_order s) = mset [0..<n]"
    using s ne unfolding queue_ok_def n_def by presburger
  have len: "length (q_order s) = n"
    using arg_cong [OF ord, of size] by simp
  have hd: "q_order s = nat (q_index q) # tl (q_order s)"
    using assms ne by (auto simp: s_def set_shuffle_def rebuild_order_def Let_def split: prod.splits)
  have "nexts rng (n - 1) s = map (\<lambda>i. Some (q_items s ! i)) (take (n - 1) (drop (0 + 1) (q_order s)))"
  proof (rule nexts_in_order)
    show "0 + (n - 1) < length (q_order s)"
      using ne len by (simp add: n_def)
    show "q_index s = int (q_order s ! 0)"
      using hd assms(3) s(4) by (metis nth_Cons_0 nat_0_le)
  qed (use s in simp_all)
  also have "take (n - 1) (drop (0 + 1) (q_order s)) = tl (q_order s)"
    using len by (simp add: drop_Suc)
  finally have nx: "nexts rng (n - 1) s = map (\<lambda>i. Some (q_items q ! i)) (tl (q_order s))"
    by (simp add: s(3))
  have cur: "queue_current q = Some (q_items q ! nat (q_index q))"
    using assms(3) queue_ok_D(2) [OF assms(1)] by (simp add: queue_current_def queue_at_def nat_less_iff)
  have "mset (queue_current q # nexts rng (n - 1) s) = mset (map (\<lambda>i. Some (q_items q ! i)) (q_order s))"
    by (subst hd) (simp add: cur nx [simplified])
  also have "\<dots> = image_mset (\<lambda>i. Some (q_items q ! i)) (mset [0..<n])"
    by (simp only: mset_map ord)
  also have "\<dots> = mset (map (\<lambda>i. Some (q_items q ! i)) [0..<n])"
    by (simp only: mset_map)
  also have "map (\<lambda>i. Some (q_items q ! i)) [0..<n] = map Some (q_items q)"
    by (rule nth_equalityI) (simp_all add: n_def)
  finally show ?thesis
    using s(3) by (simp add: s_def n_def)
qed

section \<open>Where navigation and the documentation disagree\<close>

text \<open>C23: Repeat-all under shuffle plays the last item of a pass twice: at the end of the presentation
  order Next reshuffles with the current item first and returns that item again.\<close>

theorem shuffle_repeat_all_replays:
  assumes "queue_ok q" and "q_shuffling q" and "q_repeat q = RepeatAll" and "q_items q \<noteq> []"
    and "q_index q = int (last (q_order q))"
  shows "fst (next_item rng q) = queue_current q \<and> q_index (snd (next_item rng q)) = q_index q"
proof -
  have ord: "mset (q_order q) = mset [0..<length (q_items q)]"
    using assms(1,2,4) unfolding queue_ok_def by presburger
  then have dist: "distinct (q_order q)"
    by (metis distinct_upt mset_eq_imp_distinct_iff)
  have "length (q_order q) = length (q_items q)"
    using arg_cong [OF ord, of size] by simp
  with assms(4) have ne: "q_order q \<noteq> []" by auto
  have last: "last (q_order q) = q_order q ! (length (q_order q) - 1)"
    using ne by (rule last_conv_nth)
  have pos: "position (\<lambda>x. int x = q_index q) (q_order q) = Some (length (q_order q) - 1)"
    unfolding assms(5) last by (rule position_nth [OF dist]) (use ne in simp)
  define r where "r = rebuild_order rng (push_history (q_index q) q)"
  have r: "q_items r = q_items q" "q_index r = q_index q" "q_order r \<noteq> []" "hd (q_order r) = nat (q_index q)"
    using assms by (auto simp: r_def rebuild_order_def Let_def split: prod.splits)
  have "peek_next_index rng q = (Some (nat (q_index q)), r)"
    using assms(2-4) pos r ne by (simp add: peek_next_index_def Let_def r_def [symmetric])
  then show ?thesis
    using assms(5) r by (simp add: next_item_def Let_def queue_current_def queue_at_def)
qed

definition played_around :: "nat queue_model" where
  "played_around = fold (queue_apply (\<lambda>k i. None))
     [PlaySequence [10, 20, 30] 0, SetRepeat RepeatAll, NextItem, NextItem, NextItem] queue_new"


lemma played_around_ok: "queue_ok played_around"
  unfolding played_around_def by (rule queue_reach_ok) (rule queue_run_reach, rule queue_reach.start)

lemma played_around_fields:
  "q_items played_around = [10, 20, 30]" "q_index played_around = 0" "q_history played_around = [0, 1, 2]"
  "\<not> q_shuffling played_around" "q_repeat played_around = RepeatAll"
  by code_simp+

theorem move_item_follows_witness:
  "queue_current (move_item (\<lambda>k i. None) played_around 0 2) = queue_current played_around
    \<and> mset (q_items (move_item (\<lambda>k i. None) played_around 0 2)) = {#10, 20, 30#}"
  using move_item_follows [OF played_around_ok, of 0 2 "\<lambda>k i. None"]
  by (simp add: played_around_fields)

theorem remove_at_follows_witness:
  "queue_current (remove_at (\<lambda>k i. None) played_around 0) = queue_at played_around 1"
  using remove_at_follows [OF played_around_ok, of 0 "\<lambda>k i. None"]
  by (simp add: played_around_fields)

theorem previous_undoes_next_witness:
  "fst (previous_item (snd (next_item (\<lambda>k i. None) played_around))) = Some 10"
proof -
  have "next_item (\<lambda>k i. None) played_around = (Some 20, snd (next_item (\<lambda>k i. None) played_around))"
    "q_index (snd (next_item (\<lambda>k i. None) played_around)) \<noteq> q_index played_around"
    "queue_current played_around = Some 10"
    by code_simp+
  with previous_undoes_next [OF played_around_ok _ this(1,2)] show ?thesis
    by (simp add: played_around_fields)
qed

theorem shuffle_plays_each_once_witness:
  "q_items played_around = [10, 20, 30] \<and> mset (queue_current played_around
      # nexts (\<lambda>k i. None) (length (q_items played_around) - 1) (set_shuffle (\<lambda>k i. None) played_around True))
    = mset (map Some (q_items played_around))"
proof -
  have "0 \<le> q_index played_around"
    by (simp add: played_around_fields)
  from shuffle_plays_each_once [OF played_around_ok played_around_fields(4) this] show ?thesis
    using played_around_fields(1) by blast
qed

theorem shuffle_repeat_all_replays_witness:
  "let q = fold (queue_apply (\<lambda>k i. None)) [NextItem, NextItem]
       (set_shuffle (\<lambda>k i. None) played_around True)
   in fst (next_item (\<lambda>k i. None) q) = queue_current q"
proof -
  let ?q = "fold (queue_apply (\<lambda>k i. None)) [SetShuffle True, NextItem, NextItem] played_around"
  have ok: "queue_ok ?q"
    by (simp only: fold.simps comp_apply id_apply) (intro queue_apply_ok played_around_ok)
  have facts: "q_shuffling ?q" "q_repeat ?q = RepeatAll" "q_items ?q \<noteq> []" "q_index ?q = int (last (q_order ?q))"
    by code_simp+
  from shuffle_repeat_all_replays [OF ok facts] show ?thesis
    by simp
qed

end
