(* ===== verification/Ring.thy ===== *)
theory Ring
  imports Prelude
begin

text \<open>
  The bounded interleaved PCM ring buffer of the playback engine
  (\<open>crates/musicpack-engine/src/ring.rs\<close>). Samples are opaque, so their type is a parameter; the
  playheads are \<open>u64\<close> counts of frames since the last reset, \<open>nat\<close> here (on a 64-bit target the
  casts to \<open>usize\<close> are the identity).

  The abstract view of a ring is the list of frames between the playheads. Writing appends to it,
  reading takes from its front: the laws of a bounded queue, locale \<open>bounded_fifo\<close>, whose lemma on
  whole runs then holds of the ring.
\<close>

section \<open>The ring\<close>

record 'a ring =
  rb_data :: "'a list"
  rb_capacity_frames :: nat
  rb_read_abs :: nat
  rb_write_abs :: nat
  rb_reported_base :: nat
  rb_channels :: nat

definition ring_new :: "'a \<Rightarrow> nat \<Rightarrow> nat \<Rightarrow> 'a ring option" where
  "ring_new silence capacity_frames channels =
     (if capacity_frames = 0 \<or> channels = 0 then None
      else Some \<lparr>rb_data = replicate (capacity_frames * channels) silence,
        rb_capacity_frames = capacity_frames, rb_read_abs = 0, rb_write_abs = 0,
        rb_reported_base = 0, rb_channels = channels\<rparr>)"

definition available_frames :: "'a ring \<Rightarrow> nat" where
  "available_frames r = rb_write_abs r - rb_read_abs r"

definition free_frames :: "'a ring \<Rightarrow> nat" where
  "free_frames r = rb_capacity_frames r - available_frames r"

definition rendered_frames :: "'a ring \<Rightarrow> nat" where
  "rendered_frames r = rb_read_abs r + rb_reported_base r"

text \<open>\<open>copy_from_slice\<close> of \<open>src\<close> over \<open>xs[at .. at + length src]\<close>.\<close>

definition splice :: "'a list \<Rightarrow> nat \<Rightarrow> 'a list \<Rightarrow> 'a list" where
  "splice xs at src = take at xs @ src @ drop (at + length src) xs"

definition write_interleaved :: "'a ring \<Rightarrow> 'a list \<Rightarrow> nat \<times> 'a ring" where
  "write_interleaved r chunk =
     (let ch = rb_channels r;
          n = min (length chunk div ch) (free_frames r)
      in if n = 0 then (0, r)
         else (n, r\<lparr>rb_data := foldl (\<lambda>d i.
                 let w = (rb_write_abs r + i) mod rb_capacity_frames r
                 in splice d (w * ch) (slice chunk (i * ch) (i * ch + ch))) (rb_data r) [0..<n],
               rb_write_abs := rb_write_abs r + n\<rparr>))"

definition read_interleaved :: "'a ring \<Rightarrow> 'a list \<Rightarrow> nat \<Rightarrow> nat \<times> 'a list \<times> 'a ring" where
  "read_interleaved r out max_frames =
     (let ch = rb_channels r;
          n = min (min max_frames (available_frames r)) (length out div ch)
      in if n = 0 then (0, out, r)
         else (n, foldl (\<lambda>o' i.
                 let p = (rb_read_abs r + i) mod rb_capacity_frames r
                 in splice o' (i * ch) (slice (rb_data r) (p * ch) (p * ch + ch))) out [0..<n],
               r\<lparr>rb_read_abs := rb_read_abs r + n\<rparr>))"



definition ring_reset :: "'a ring \<Rightarrow> 'a ring" where
  "ring_reset r = r\<lparr>rb_read_abs := 0, rb_write_abs := 0, rb_reported_base := 0\<rparr>"

definition continue_playhead_from :: "'a ring \<Rightarrow> nat \<Rightarrow> 'a ring" where
  "continue_playhead_from r delta =
     (if delta = 0 then r
      else r\<lparr>rb_reported_base := min (rb_reported_base r + delta) (u64_limit - 1)\<rparr>)"

section \<open>The frames a ring holds\<close>

definition ring_ok :: "'a ring \<Rightarrow> bool" where
  "ring_ok r \<longleftrightarrow> 0 < rb_capacity_frames r \<and> 0 < rb_channels r
     \<and> length (rb_data r) = rb_capacity_frames r * rb_channels r
     \<and> rb_read_abs r \<le> rb_write_abs r \<and> rb_write_abs r - rb_read_abs r \<le> rb_capacity_frames r"

definition cell :: "'a ring \<Rightarrow> 'a list \<Rightarrow> nat \<Rightarrow> 'a list" where
  "cell r d k = slice d (k mod rb_capacity_frames r * rb_channels r)
     (k mod rb_capacity_frames r * rb_channels r + rb_channels r)"

definition ring_frames :: "'a ring \<Rightarrow> 'a list list" where
  "ring_frames r = map (cell r (rb_data r)) [rb_read_abs r..<rb_write_abs r]"

text \<open>The whole frames of an interleaved chunk.\<close>

definition frames_of :: "nat \<Rightarrow> 'a list \<Rightarrow> 'a list list" where
  "frames_of ch chunk = map (\<lambda>i. slice chunk (i * ch) (i * ch + ch)) [0..<length chunk div ch]"

lemma length_ring_frames: "length (ring_frames r) = available_frames r"
  by (simp add: ring_frames_def available_frames_def)

lemma length_splice [simp]: "at + length src \<le> length xs \<Longrightarrow> length (splice xs at src) = length xs"
  by (simp add: splice_def)

lemma splice_slice:
  assumes "i * ch + ch \<le> length xs" and "length src = ch" and "j * ch + ch \<le> length xs"
  shows "slice (splice xs (i * ch) src) (j * ch) (j * ch + ch) = (if i = j then src else slice xs (j * ch) (j * ch + ch))"
proof -
  consider "i = j" | "i < j" | "j < i" by linarith
  then show ?thesis
  proof cases
    case 1
    with assms show ?thesis by (simp add: splice_def slice_def)
  next
    case 2
    then have "Suc i * ch \<le> j * ch" by (intro mult_le_mono1) simp
    then have ij: "i * ch + ch \<le> j * ch" by simp
    show ?thesis
      by (rule nth_equalityI)
        (use assms ij 2 in \<open>simp_all add: slice_def splice_def nth_append\<close>)
  next
    case 3
    then have "Suc j * ch \<le> i * ch" by (intro mult_le_mono1) simp
    then have ij: "j * ch + ch \<le> i * ch" by simp
    have "slice (splice xs (i * ch) src) (j * ch) (j * ch + ch) = slice (take (i * ch) xs) (j * ch) (j * ch + ch)"
      unfolding splice_def using assms ij by (intro slice_append_left) simp
    with 3 ij show ?thesis
      by (simp add: slice_def drop_take min_def)
  qed
qed

lemma cell_bound:
  assumes "ring_ok r"
  shows "k mod rb_capacity_frames r * rb_channels r + rb_channels r \<le> length (rb_data r)"
proof -
  have "Suc (k mod rb_capacity_frames r) \<le> rb_capacity_frames r"
    using assms by (simp add: ring_ok_def Suc_le_eq)
  then have "Suc (k mod rb_capacity_frames r) * rb_channels r \<le> rb_capacity_frames r * rb_channels r"
    by (rule mult_le_mono1)
  then show ?thesis
    using assms by (simp add: ring_ok_def add.commute)
qed

lemma mod_distinct_window:
  fixes a b c :: nat
  assumes "a < b" and "b - a < c"
  shows "a mod c \<noteq> b mod c"
proof
  assume "a mod c = b mod c"
  then have "c dvd b - a"
    using assms(1) by (metis less_imp_le mod_eq_dvd_iff_nat)
  with assms show False
    by (auto dest: dvd_imp_le)
qed

section \<open>Writing appends, reading takes from the front\<close>

lemma write_loop:
  fixes r :: "'a ring" and chunk :: "'a list"
  assumes ok: "ring_ok r" and free: "available_frames r + n \<le> rb_capacity_frames r"
    and len: "n * rb_channels r \<le> length chunk"
  defines "step \<equiv> \<lambda>d i. let w = (rb_write_abs r + i) mod rb_capacity_frames r
      in splice d (w * rb_channels r) (slice chunk (i * rb_channels r) (i * rb_channels r + rb_channels r))"
  defines "d \<equiv> foldl step (rb_data r) [0..<n]"
  shows "length d = length (rb_data r)
    \<and> (\<forall>k. rb_read_abs r \<le> k \<and> k < rb_write_abs r \<longrightarrow> cell r d k = cell r (rb_data r) k)
    \<and> (\<forall>i<n. cell r d (rb_write_abs r + i) = slice chunk (i * rb_channels r) (i * rb_channels r + rb_channels r))"
  using free len unfolding d_def
proof (induction n)
  case 0
  then show ?case by simp
next
  case (Suc n)
  let ?ch = "rb_channels r" and ?d = "foldl step (rb_data r) [0..<n]"
  let ?w = "(rb_write_abs r + n) mod rb_capacity_frames r"
  let ?src = "slice chunk (n * ?ch) (n * ?ch + ?ch)"
  have IH: "length ?d = length (rb_data r)"
    "\<forall>k. rb_read_abs r \<le> k \<and> k < rb_write_abs r \<longrightarrow> cell r ?d k = cell r (rb_data r) k"
    "\<forall>i<n. cell r ?d (rb_write_abs r + i) = slice chunk (i * ?ch) (i * ?ch + ?ch)"
    using Suc by simp_all
  have src: "length ?src = ?ch"
    using Suc.prems(2) by simp
  have wb: "?w * ?ch + ?ch \<le> length ?d"
    using cell_bound [OF ok, of "rb_write_abs r + n"] IH(1) by simp
  have step: "foldl step (rb_data r) [0..<Suc n] = splice ?d (?w * ?ch) ?src"
    by (simp add: step_def Let_def)
  have cell: "cell r (splice ?d (?w * ?ch) ?src) k =
      (if ?w = k mod rb_capacity_frames r then ?src else cell r ?d k)" for k
    unfolding cell_def using cell_bound [OF ok, of k] IH(1) by (intro splice_slice [OF wb src]) simp
  have other: "k mod rb_capacity_frames r \<noteq> ?w" if "rb_read_abs r \<le> k" "k < rb_write_abs r + n" for k
    using that Suc.prems(1) ok by (intro mod_distinct_window) (simp_all add: available_frames_def ring_ok_def)
  show ?case
    unfolding step
  proof (intro conjI allI impI)
    show "length (splice ?d (?w * ?ch) ?src) = length (rb_data r)"
      using wb src IH(1) by simp
    show "cell r (splice ?d (?w * ?ch) ?src) k = cell r (rb_data r) k"
      if "rb_read_abs r \<le> k \<and> k < rb_write_abs r" for k
      using that other [of k] IH(2) by (auto simp: cell)
    show "cell r (splice ?d (?w * ?ch) ?src) (rb_write_abs r + i) = slice chunk (i * ?ch) (i * ?ch + ?ch)"
      if "i < Suc n" for i
      using that other [of "rb_write_abs r + i"] IH(3) ok by (cases "i = n") (auto simp: cell ring_ok_def)
  qed
qed

lemma write_interleaved_correct:
  assumes ok: "ring_ok r" and w: "write_interleaved r chunk = (n, r')"
  shows "n = min (length (frames_of (rb_channels r) chunk)) (rb_capacity_frames r - length (ring_frames r))
    \<and> ring_frames r' = ring_frames r @ take n (frames_of (rb_channels r) chunk) \<and> ring_ok r'
    \<and> rb_channels r' = rb_channels r \<and> rb_capacity_frames r' = rb_capacity_frames r"
proof -
  let ?ch = "rb_channels r"
  have n: "n = min (length chunk div ?ch) (free_frames r)"
    using w by (auto simp: write_interleaved_def Let_def split: if_splits)
  have nn: "n = min (length (frames_of ?ch chunk)) (rb_capacity_frames r - length (ring_frames r))"
    by (simp add: n frames_of_def length_ring_frames free_frames_def)
  show ?thesis
  proof (cases "n = 0")
    case True
    then have "r' = r"
      using w n by (auto simp: write_interleaved_def Let_def split: if_splits)
    with True ok nn show ?thesis by simp
  next
    case False
    define d where "d = foldl (\<lambda>d i. let w = (rb_write_abs r + i) mod rb_capacity_frames r
        in splice d (w * ?ch) (slice chunk (i * ?ch) (i * ?ch + ?ch))) (rb_data r) [0..<n]"
    have r': "r' = r\<lparr>rb_data := d, rb_write_abs := rb_write_abs r + n\<rparr>"
      using w n False by (auto simp: write_interleaved_def Let_def d_def split: if_splits)
    have "n \<le> free_frames r"
      using n by simp
    then have fit: "available_frames r + n \<le> rb_capacity_frames r"
      using ok unfolding free_frames_def available_frames_def ring_ok_def by linarith
    have "n * ?ch \<le> length chunk"
      using n by (metis div_times_less_eq_dividend le_trans min.cobounded1 mult_le_mono1)
    note loop = write_loop [OF ok fit this, folded d_def]
    have cell': "cell r' = cell r"
      by (simp add: cell_def [abs_def] r')
    have "ring_frames r' = map (cell r d) [rb_read_abs r..<rb_write_abs r] @ map (cell r d) [rb_write_abs r..<rb_write_abs r + n]"
    proof -
      have "rb_read_abs r \<le> rb_write_abs r"
        using ok by (simp add: ring_ok_def)
      then have "[rb_read_abs r..<rb_write_abs r + n]
          = [rb_read_abs r..<rb_write_abs r] @ [rb_write_abs r..<rb_write_abs r + n]"
        by (rule upt_add_eq_append)
      then show ?thesis
        unfolding ring_frames_def cell' by (simp add: r')
    qed
    also have "map (cell r d) [rb_read_abs r..<rb_write_abs r] = ring_frames r"
      using loop by (simp add: ring_frames_def)
    also have "map (cell r d) [rb_write_abs r..<rb_write_abs r + n] = take n (frames_of ?ch chunk)"
      by (rule nth_equalityI) (use loop n in \<open>simp_all add: frames_of_def take_map\<close>)
    finally show ?thesis
      using nn ok loop fit by (simp add: r' ring_ok_def available_frames_def)
  qed
qed

lemma read_loop:
  assumes ok: "ring_ok r" and avail: "n \<le> available_frames r" and len: "n * rb_channels r \<le> length out"
  defines "step \<equiv> \<lambda>o' i. let p = (rb_read_abs r + i) mod rb_capacity_frames r
      in splice o' (i * rb_channels r) (slice (rb_data r) (p * rb_channels r) (p * rb_channels r + rb_channels r))"
  shows "foldl step out [0..<n] = concat (take n (ring_frames r)) @ drop (n * rb_channels r) out"
  using avail len
proof (induction n)
  case 0
  then show ?case by simp
next
  case (Suc n)
  let ?ch = "rb_channels r"
  let ?c = "cell r (rb_data r) (rb_read_abs r + n)"
  have lc: "length (cell r (rb_data r) k) = ?ch" for k
    using cell_bound [OF ok, of k] by (simp add: cell_def)
  have lcs: "length (concat (take n (ring_frames r))) = n * ?ch"
  proof -
    have "sum_list (map length (take n (ring_frames r))) = sum_list (map (\<lambda>_. ?ch) (take n (ring_frames r)))"
      by (intro arg_cong [of _ _ sum_list] map_cong refl) (auto simp: ring_frames_def lc dest!: in_set_takeD)
    then show ?thesis
      using Suc.prems(1) by (simp add: length_concat sum_list_triv length_ring_frames)
  qed
  have nth: "ring_frames r ! n = ?c"
    using Suc.prems(1) by (simp add: ring_frames_def available_frames_def)
  have "foldl step out [0..<Suc n] = splice (concat (take n (ring_frames r)) @ drop (n * ?ch) out) (n * ?ch) ?c"
    using Suc by (simp add: step_def Let_def cell_def)
  also have "\<dots> = concat (take n (ring_frames r)) @ ?c @ drop (Suc n * ?ch) out"
    using Suc.prems(2) lcs lc by (simp add: splice_def add.commute)
  also have "\<dots> = concat (take (Suc n) (ring_frames r)) @ drop (Suc n * ?ch) out"
    using Suc.prems(1) nth by (simp add: take_Suc_conv_app_nth length_ring_frames)
  finally show ?case .
qed

lemma read_interleaved_correct:
  assumes ok: "ring_ok r" and w: "read_interleaved r out m = (n, out', r')"
  shows "n = min (min m (length (ring_frames r))) (length out div rb_channels r)
    \<and> out' = concat (take n (ring_frames r)) @ drop (n * rb_channels r) out
    \<and> ring_frames r' = drop n (ring_frames r) \<and> ring_ok r'
    \<and> rb_channels r' = rb_channels r \<and> rb_capacity_frames r' = rb_capacity_frames r"
proof -
  let ?ch = "rb_channels r"
  have n: "n = min (min m (available_frames r)) (length out div ?ch)"
    using w by (auto simp: read_interleaved_def Let_def split: if_splits)
  show ?thesis
  proof (cases "n = 0")
    case True
    then have "r' = r" "out' = out"
      using w n by (auto simp: read_interleaved_def Let_def split: if_splits)
    with True ok n show ?thesis by (simp add: length_ring_frames)
  next
    case False
    have r': "r' = r\<lparr>rb_read_abs := rb_read_abs r + n\<rparr>"
      and out': "out' = foldl (\<lambda>o' i. let p = (rb_read_abs r + i) mod rb_capacity_frames r
          in splice o' (i * ?ch) (slice (rb_data r) (p * ?ch) (p * ?ch + ?ch))) out [0..<n]"
      using w n False by (auto simp: read_interleaved_def Let_def split: if_splits)
    have le: "n \<le> available_frames r" and len: "n * ?ch \<le> length out"
      using n by (simp, metis div_times_less_eq_dividend le_trans min.cobounded2 mult_le_mono1)
    have "out' = concat (take n (ring_frames r)) @ drop (n * ?ch) out"
      unfolding out' by (rule read_loop [OF ok le len])
    moreover have "ring_frames r' = drop n (ring_frames r)"
      by (simp add: ring_frames_def r' drop_map cell_def [abs_def])
    moreover have "rb_read_abs r + n \<le> rb_write_abs r
        \<and> rb_write_abs r - (rb_read_abs r + n) \<le> rb_capacity_frames r"
      using ok le unfolding ring_ok_def available_frames_def by linarith
    then have "ring_ok r'"
      using ok by (simp add: ring_ok_def r')
    ultimately show ?thesis
      using n by (simp add: r' length_ring_frames)
  qed
qed

section \<open>The contract of a bounded queue\<close>

text \<open>
  Chunks are put in, as many whole frames of them as fit; frames are got out. A run is a list of
  operations, and yields the frames accepted, the frames delivered and the final queue.
\<close>

datatype 'c fifo_op = Put 'c | Get nat

fun fifo_run :: "('q \<Rightarrow> 'c \<Rightarrow> nat \<times> 'q) \<Rightarrow> ('c \<Rightarrow> 'f list) \<Rightarrow> ('q \<Rightarrow> nat \<Rightarrow> 'f list \<times> 'q)
    \<Rightarrow> 'c fifo_op list \<Rightarrow> 'q \<Rightarrow> 'f list \<times> 'f list \<times> 'q" where
  "fifo_run put frames get [] q = ([], [], q)"
| "fifo_run put frames get (Put c # ops) q =
     (case put q c of (n, q1) \<Rightarrow>
        case fifo_run put frames get ops q1 of (acc, del, q2) \<Rightarrow> (take n (frames c) @ acc, del, q2))"
| "fifo_run put frames get (Get m # ops) q =
     (case get q m of (fs, q1) \<Rightarrow>
        case fifo_run put frames get ops q1 of (acc, del, q2) \<Rightarrow> (acc, fs @ del, q2))"

locale bounded_fifo =
  fixes inv :: "'q \<Rightarrow> bool" and contents :: "'q \<Rightarrow> 'f list" and capacity :: "'q \<Rightarrow> nat"
    and put :: "'q \<Rightarrow> 'c \<Rightarrow> nat \<times> 'q" and frames :: "'c \<Rightarrow> 'f list"
    and get :: "'q \<Rightarrow> nat \<Rightarrow> 'f list \<times> 'q"
  assumes put_law: "inv q \<Longrightarrow> put q c = (n, q') \<Longrightarrow>
      n = min (length (frames c)) (capacity q - length (contents q))
      \<and> contents q' = contents q @ take n (frames c) \<and> inv q' \<and> capacity q' = capacity q"
    and get_law: "inv q \<Longrightarrow> get q m = (fs, q') \<Longrightarrow>
      fs = take m (contents q) \<and> contents q' = drop m (contents q) \<and> inv q' \<and> capacity q' = capacity q"
    and bounded: "inv q \<Longrightarrow> length (contents q) \<le> capacity q"
begin

lemma run_stream:
  assumes "fifo_run put frames get ops q = (acc, del, q')" and "inv q"
  shows "del @ contents q' = contents q @ acc \<and> inv q' \<and> capacity q' = capacity q"
  using assms
proof (induction ops arbitrary: q acc del q')
  case Nil
  then show ?case by simp
next
  case (Cons op ops)
  show ?case
  proof (cases op)
    case (Put c)
    obtain n q1 acc1 del1 q2 where p: "put q c = (n, q1)" "fifo_run put frames get ops q1 = (acc1, del1, q2)"
      by (metis prod_cases3 surj_pair)
    with put_law [OF Cons.prems(2) p(1)] Cons.IH [OF p(2)] Cons.prems(1) show ?thesis
      by (auto simp: Put)
  next
    case (Get m)
    obtain fs q1 acc1 del1 q2 where g: "get q m = (fs, q1)" "fifo_run put frames get ops q1 = (acc1, del1, q2)"
      by (metis prod_cases3 surj_pair)
    with get_law [OF Cons.prems(2) g(1)] Cons.IH [OF g(2)] Cons.prems(1) show ?thesis
      by (auto simp: Get)
  qed
qed

lemma run_bounded:
  assumes "fifo_run put frames get ops q = (acc, del, q')" and "inv q"
  shows "length (contents q') \<le> capacity q"
  using run_stream [OF assms] bounded [of q'] by simp

end

section \<open>The ring is a bounded queue\<close>

text \<open>A read of \<open>m\<close> frames into a fresh buffer.\<close>

definition ring_get :: "'a \<Rightarrow> 'a ring \<Rightarrow> nat \<Rightarrow> 'a list list \<times> 'a ring" where
  "ring_get silence r m =
     (case read_interleaved r (replicate (m * rb_channels r) silence) m of
        (n, out, r') \<Rightarrow> (frames_of (rb_channels r) (take (n * rb_channels r) out), r'))"

lemma length_concat_const: "\<forall>f\<in>set fs. length f = ch \<Longrightarrow> length (concat fs) = length fs * ch"
  by (induction fs) auto

lemma frames_of_append:
  assumes "length f = ch" and "0 < ch"
  shows "frames_of ch (f @ xs) = f # frames_of ch xs"
proof -
  have q: "length (f @ xs) div ch = Suc (length xs div ch)"
    using assms by (simp add: div_add_self1)
  have "slice (f @ xs) (Suc i * ch) (Suc i * ch + ch) = slice xs (i * ch) (i * ch + ch)" for i
    using assms by (subst slice_append_right) (simp_all add: add.commute)
  moreover have "slice (f @ xs) 0 ch = f"
    using assms by (simp add: slice_def)
  ultimately show ?thesis
    unfolding frames_of_def q by (simp add: upt_conv_Cons map_Suc_upt [symmetric] comp_def del: upt_Suc)
qed

lemma frames_of_concat:
  "0 < ch \<Longrightarrow> \<forall>f\<in>set fs. length f = ch \<Longrightarrow> frames_of ch (concat fs) = fs"
  by (induction fs) (simp_all add: frames_of_append, simp add: frames_of_def)

lemma ring_frames_length: "ring_ok r \<Longrightarrow> f \<in> set (ring_frames r) \<Longrightarrow> length f = rb_channels r"
proof -
  assume ok: "ring_ok r" and "f \<in> set (ring_frames r)"
  then obtain k where "f = cell r (rb_data r) k"
    by (auto simp: ring_frames_def)
  with cell_bound [OF ok, of k] show ?thesis
    by (simp add: cell_def)
qed

lemma ring_get_law:
  assumes ok: "ring_ok r" and g: "ring_get z r m = (fs, r')"
  shows "fs = take m (ring_frames r) \<and> ring_frames r' = drop m (ring_frames r) \<and> ring_ok r'
    \<and> rb_channels r' = rb_channels r \<and> rb_capacity_frames r' = rb_capacity_frames r"
proof -
  let ?ch = "rb_channels r"
  have ch: "0 < ?ch" using ok by (simp add: ring_ok_def)
  obtain n out where rd: "read_interleaved r (replicate (m * ?ch) z) m = (n, out, r')"
    and fs: "fs = frames_of ?ch (take (n * ?ch) out)"
    using g by (auto simp: ring_get_def split: prod.splits)
  note c = read_interleaved_correct [OF ok rd]
  have n: "n = min m (length (ring_frames r))"
    using c ch by simp
  have all: "\<forall>f\<in>set (take n (ring_frames r)). length f = ?ch"
    using ring_frames_length [OF ok] by (auto dest: in_set_takeD)
  have "length (concat (take n (ring_frames r))) = n * ?ch"
    using length_concat_const [OF all] n by simp
  then have "take (n * ?ch) out = concat (take n (ring_frames r))"
    using c by simp
  then have "fs = take n (ring_frames r)"
    using frames_of_concat [OF ch all] fs by simp
  moreover have "take n (ring_frames r) = take m (ring_frames r)" "drop n (ring_frames r) = drop m (ring_frames r)"
    by (simp_all add: n min_def)
  ultimately show ?thesis
    using c by simp
qed

interpretation ring: bounded_fifo "\<lambda>r. ring_ok r \<and> rb_channels r = ch" ring_frames rb_capacity_frames
    write_interleaved "frames_of ch" "ring_get z" for ch :: nat and z :: 'a
proof
  fix q q' :: "'a ring" and c n
  assume "ring_ok q \<and> rb_channels q = ch" and "write_interleaved q c = (n, q')"
  then show "n = min (length (frames_of ch c)) (rb_capacity_frames q - length (ring_frames q))
      \<and> ring_frames q' = ring_frames q @ take n (frames_of ch c) \<and> (ring_ok q' \<and> rb_channels q' = ch)
      \<and> rb_capacity_frames q' = rb_capacity_frames q"
    using write_interleaved_correct [of q c n q'] by simp
next
  fix q q' :: "'a ring" and m fs
  assume "ring_ok q \<and> rb_channels q = ch" and "ring_get z q m = (fs, q')"
  then show "fs = take m (ring_frames q) \<and> ring_frames q' = drop m (ring_frames q)
      \<and> (ring_ok q' \<and> rb_channels q' = ch) \<and> rb_capacity_frames q' = rb_capacity_frames q"
    using ring_get_law [of q z m fs q'] by simp
next
  fix q :: "'a ring"
  assume "ring_ok q \<and> rb_channels q = ch"
  then show "length (ring_frames q) \<le> rb_capacity_frames q"
    by (simp add: length_ring_frames available_frames_def ring_ok_def)
qed

lemma ring_new_ok: "ring_new z cap ch = Some r \<Longrightarrow> ring_ok r \<and> rb_channels r = ch \<and> ring_frames r = []
    \<and> rb_capacity_frames r = cap"
  by (auto simp: ring_new_def ring_ok_def ring_frames_def split: if_splits)

text \<open>C25: The ring delivers the stream: over any sequence of writes of arbitrary chunks and reads, from
  a new ring, the frames delivered followed by the frames still held are exactly the frames accepted,
  in order; nothing is lost, repeated or reordered when the buffer wraps, and the ring never holds
  more than its capacity.\<close>

theorem ring_stream:
  assumes "ring_new z cap ch = Some r"
    and "fifo_run write_interleaved (frames_of ch) (ring_get z) ops r = (acc, del, r')"
  shows "del @ ring_frames r' = acc \<and> length (ring_frames r') \<le> cap"
  using ring.run_stream [OF assms(2)] ring.run_bounded [OF assms(2)] ring_new_ok [OF assms(1)] by simp

text \<open>A write appends to the frames held exactly the whole frames that fit, and reports how many:
  the ring refines a bounded queue.\<close>

theorem write_interleaved_refines:
  assumes "ring_ok r" and "write_interleaved r chunk = (n, r')"
  shows "n = min (length (frames_of (rb_channels r) chunk)) (rb_capacity_frames r - length (ring_frames r))
    \<and> ring_frames r' = ring_frames r @ take n (frames_of (rb_channels r) chunk) \<and> ring_ok r'
    \<and> rendered_frames r' = rendered_frames r"
proof -
  have "rendered_frames r' = rendered_frames r"
    using assms(2) by (auto simp: write_interleaved_def Let_def rendered_frames_def split: if_splits)
  with write_interleaved_correct [OF assms] show ?thesis by simp
qed

text \<open>A read fills the front of the output with the oldest frames held, leaves the rest of the
  output untouched, and advances the reported playhead by the frames it delivered.\<close>

theorem read_interleaved_refines:
  assumes "ring_ok r" and "read_interleaved r out m = (n, out', r')"
  shows "n = min (min m (length (ring_frames r))) (length out div rb_channels r)
    \<and> out' = concat (take n (ring_frames r)) @ drop (n * rb_channels r) out
    \<and> ring_frames r' = drop n (ring_frames r) \<and> ring_ok r'
    \<and> rendered_frames r' = rendered_frames r + n"
proof -
  have "rendered_frames r' = rendered_frames r + n"
    using assms(2) by (auto simp: read_interleaved_def Let_def rendered_frames_def split: if_splits)
  with read_interleaved_correct [OF assms] show ?thesis by simp
qed

section \<open>Planar reads\<close>




text \<open>A ring of two stereo frames, written past its end.\<close>

definition small_ring :: "nat ring" where
  "small_ring = \<lparr>rb_data = [5, 6, 3, 4], rb_capacity_frames = 2, rb_read_abs = 1, rb_write_abs = 3,
     rb_reported_base = 0, rb_channels = 2\<rparr>"

lemma small_ring_ok: "ring_ok small_ring"
  by (simp add: ring_ok_def small_ring_def)

lemma small_ring_frames: "ring_frames small_ring = [[3, 4], [5, 6]]"
  by code_simp

theorem ring_stream_witness:
  "case fifo_run write_interleaved (frames_of 2) (ring_get 0) [Put [1 :: nat, 2, 3, 4, 5, 6], Get 1, Put [5, 6], Get 5]
     (the (ring_new (0 :: nat) 2 2)) of
   (acc, del, r') \<Rightarrow> del = [[1, 2], [3, 4], [5, 6]]"
proof -
  obtain r where r: "ring_new (0 :: nat) 2 2 = Some r"
    by (simp add: ring_new_def)
  obtain acc del r' where run: "fifo_run write_interleaved (frames_of 2) (ring_get 0)
      [Put [1 :: nat, 2, 3, 4, 5, 6], Get 1, Put [5, 6], Get 5] r = (acc, del, r')"
    by (metis prod_cases3)
  have "case fifo_run write_interleaved (frames_of 2) (ring_get 0) [Put [1 :: nat, 2, 3, 4, 5, 6], Get 1, Put [5, 6], Get 5]
     (the (ring_new (0 :: nat) 2 2)) of
   (acc, del, r') \<Rightarrow> acc = [[1, 2], [3, 4], [5, 6]] \<and> ring_frames r' = []"
    by code_simp
  with ring_stream [OF r run] run r show ?thesis by simp
qed

theorem write_interleaved_refines_witness:
  "ring_frames (snd (write_interleaved (snd (snd (read_interleaved small_ring [0, 0] 1))) [7, 8, 9]))
    = [[5, 6], [7, 8]]"
proof -
  let ?r = "snd (snd (read_interleaved small_ring [0, 0] 1))"
  have ok: "ring_ok ?r"
    by (simp add: ring_ok_def small_ring_def read_interleaved_def available_frames_def Let_def)
  have facts: "ring_frames ?r = [[5, 6]]" "frames_of (rb_channels ?r) [7 :: nat, 8, 9] = [[7, 8]]"
    "fst (write_interleaved ?r [7, 8, 9]) = 1"
    by code_simp+
  from write_interleaved_refines [OF ok prod.collapse [symmetric]] show ?thesis
    using facts by simp
qed

theorem read_interleaved_refines_witness:
  "fst (snd (read_interleaved small_ring [0, 0, 0, 0, 0] 9)) = [3, 4, 5, 6, 0]"
proof -
  obtain n out' r' where rd: "read_interleaved small_ring [0, 0, 0, 0, 0] 9 = (n, out', r')"
    by (metis prod_cases3)
  from read_interleaved_refines [OF small_ring_ok rd] rd show ?thesis
    by (simp add: small_ring_frames) (simp add: small_ring_def)
qed


end
