(* ===== verification/Text.thy ===== *)
theory Text
  imports Prelude
begin

text \<open>
  The text operations of the standard library that several parsers use, on UTF-8 bytes: ASCII
  classes, trimming, searching and splitting at a byte, lines, decimal digits, and the byte order
  mark.
\<close>

section \<open>Text primitives\<close>

definition LF :: byte where "LF = 10"
definition CR :: byte where "CR = 13"

definition is_ascii_whitespace :: "byte \<Rightarrow> bool" where
  "is_ascii_whitespace b \<longleftrightarrow> b = 9 \<or> b = 10 \<or> b = 12 \<or> b = 13 \<or> b = 32"

definition is_ascii_digit :: "byte \<Rightarrow> bool" where
  "is_ascii_digit b \<longleftrightarrow> 48 \<le> b \<and> b \<le> 57"

definition to_ascii_lowercase :: "byte \<Rightarrow> byte" where
  "to_ascii_lowercase b = (if 65 \<le> b \<and> b \<le> 90 then b + 32 else b)"

text \<open>\<open>trim_start_matches\<close> on ASCII white space, and \<open>trim_ascii\<close>.\<close>

definition trim_ascii_start :: "rstr \<Rightarrow> rstr" where
  "trim_ascii_start s = dropWhile is_ascii_whitespace s"

definition trim_ascii :: "rstr \<Rightarrow> rstr" where
  "trim_ascii s = rev (dropWhile is_ascii_whitespace (rev (dropWhile is_ascii_whitespace s)))"

text \<open>
  \<open>str::trim\<close> removes the characters with the Unicode property \<open>White_Space\<close>; the encodings of those
  characters, none of which is a suffix of another character's encoding.
\<close>

definition white_space :: "rstr list" where
  "white_space = map (\<lambda>b. [b]) [9, 10, 11, 12, 13, 32]
     @ [[0xC2, 0x85], [0xC2, 0xA0], [0xE1, 0x9A, 0x80]]
     @ map (\<lambda>b. [0xE2, 0x80, b]) [0x80, 0x81, 0x82, 0x83, 0x84, 0x85, 0x86, 0x87, 0x88, 0x89, 0x8A, 0xA8, 0xA9, 0xAF]
     @ [[0xE2, 0x81, 0x9F], [0xE3, 0x80, 0x80]]"

definition strip_prefix :: "rstr \<Rightarrow> rstr \<Rightarrow> rstr option" where
  "strip_prefix p s = (if take (length p) s = p then Some (drop (length p) s) else None)"

function trim_of :: "rstr list \<Rightarrow> rstr \<Rightarrow> rstr" where
  "trim_of ws s =
     (case filter (\<lambda>p. p \<noteq> [] \<and> strip_prefix p s \<noteq> None) ws of
        [] \<Rightarrow> s
      | p # _ \<Rightarrow> trim_of ws (drop (length p) s))"
  by pat_completeness auto
termination
proof (relation "measure (\<lambda>(ws, s). length s)")
  fix ws s p ps
  assume eq: "filter (\<lambda>p. p \<noteq> [] \<and> strip_prefix p s \<noteq> None) ws = p # ps"
  have "p \<in> set (filter (\<lambda>p. p \<noteq> [] \<and> strip_prefix p s \<noteq> None) ws)"
    unfolding eq by simp
  then have "p \<noteq> [] \<and> strip_prefix p s \<noteq> None"
    by simp
  then have "0 < length p" "length p \<le> length s"
    by (auto simp: strip_prefix_def split: if_splits) (metis length_take min.cobounded1)
  then show "((ws, drop (length p) s), ws, s) \<in> measure (\<lambda>(ws, s). length s)"
    unfolding in_measure prod.case length_drop by linarith
qed simp

declare trim_of.simps [simp del]

definition trim :: "rstr \<Rightarrow> rstr" where
  "trim s = rev (trim_of (map rev white_space) (rev (trim_of white_space s)))"

text \<open>\<open>find\<close> of a byte, \<open>split_once\<close> at a byte, and \<open>lines\<close>.\<close>

fun find_byte :: "byte \<Rightarrow> rstr \<Rightarrow> nat option" where
  "find_byte c [] = None"
| "find_byte c (b # bs) = (if b = c then Some 0 else map_option Suc (find_byte c bs))"

definition split_once :: "byte \<Rightarrow> rstr \<Rightarrow> (rstr \<times> rstr) option" where
  "split_once c s = map_option (\<lambda>i. (take i s, drop (Suc i) s)) (find_byte c s)"

fun split_lines :: "rstr \<Rightarrow> rstr \<Rightarrow> rstr list" where
  "split_lines cur [] = (if cur = [] then [] else [rev cur])"
| "split_lines cur (b # bs) =
     (if b = LF then rev (case cur of c # cs \<Rightarrow> if c = CR then cs else cur | [] \<Rightarrow> []) # split_lines [] bs
      else split_lines (b # cur) bs)"

definition str_lines :: "rstr \<Rightarrow> rstr list" where
  "str_lines s = split_lines [] s"

text \<open>\<open>str::parse\<close> of a string of decimal digits, \<open>None\<close> on overflow of the type.\<close>

definition digits_value :: "rstr \<Rightarrow> nat" where
  "digits_value ds = foldl (\<lambda>a d. 10 * a + (unat d - 48)) 0 ds"

definition parse_digits :: "nat \<Rightarrow> rstr \<Rightarrow> nat option" where
  "parse_digits limit ds = (if digits_value ds < limit then Some (digits_value ds) else None)"

definition all_digits :: "rstr \<Rightarrow> bool" where
  "all_digits s = list_all is_ascii_digit s"

definition BOM :: rstr where "BOM = [0xEF, 0xBB, 0xBF]"

section \<open>Searching\<close>

lemma find_byte_Some: "find_byte c s = Some i \<Longrightarrow> i < length s \<and> s ! i = c \<and> c \<notin> set (take i s)"
  by (induction s arbitrary: i) (auto split: if_splits)

lemma find_byte_append: "c \<notin> set xs \<Longrightarrow> find_byte c (xs @ c # ys) = Some (length xs)"
  by (induction xs) auto

lemma find_byte_None: "find_byte c xs = None \<longleftrightarrow> c \<notin> set xs"
  by (induction xs) auto

lemma split_once_append: "c \<notin> set xs \<Longrightarrow> split_once c (xs @ c # ys) = Some (xs, ys)"
  by (simp add: split_once_def find_byte_append)

section \<open>Digits\<close>

lemma digits_value_snoc: "digits_value (xs @ [d]) = 10 * digits_value xs + (unat d - 48)"
  by (simp add: digits_value_def)

definition digit :: "nat \<Rightarrow> byte" where
  "digit d = word_of_nat (48 + d)"

lemma unat_digit: "d < 10 \<Longrightarrow> unat (digit d) = 48 + d"
  unfolding digit_def unat_of_nat by simp

lemma is_ascii_digit_digit: "d < 10 \<Longrightarrow> is_ascii_digit (digit d)"
  by (simp add: is_ascii_digit_def word_le_nat_alt unat_digit)

lemma show_nat_digits: "digits_value (show_nat n) = n \<and> all_digits (show_nat n) \<and> show_nat n \<noteq> []"
proof (induction n rule: less_induct)
  case (less n)
  show ?case
  proof (cases "n < 10")
    case True
    then show ?thesis
      using is_ascii_digit_digit [OF True] unat_digit [OF True]
      by (simp add: show_nat.simps [of n] digits_value_def all_digits_def digit_def)
  next
    case False
    then have "digits_value (show_nat (n div 10)) = n div 10 \<and> all_digits (show_nat (n div 10))"
      using less [of "n div 10"] by simp
    moreover have "show_nat n = show_nat (n div 10) @ [digit (n mod 10)]"
      using False by (subst show_nat.simps) (simp add: digit_def)
    ultimately show ?thesis
      by (simp add: digits_value_snoc unat_digit all_digits_def is_ascii_digit_digit)
  qed
qed

end
