(* ===== verification/Lyrics.thy ===== *)
theory Lyrics
  imports Text
begin

text \<open>
  The lyrics domain: the document model and the timing function of \<open>src/lyrics/mod.rs\<close>, and the strict
  LRC parser of \<open>src/lyrics/parse.rs\<close>. Text is its UTF-8 bytes; every character the parser looks
  for is ASCII, except the byte order mark and the Unicode white space that \<open>str::trim\<close> removes.
  \<open>i64\<close> values are \<open>int\<close> with the range written out.
\<close>

section \<open>The document model\<close>

record lyrics_line =
  timestamp_ms :: int
  text_of :: rstr

datatype lyrics_content = Plain "rstr list" | Synced "lyrics_line list"

record lyrics_metadata =
  lm_artist :: "rstr option"
  lm_title :: "rstr option"
  lm_album :: "rstr option"
  lm_by :: "rstr option"

record lyrics_document =
  ld_content :: lyrics_content
  ld_metadata :: lyrics_metadata
  ld_word_tags_stripped :: bool

datatype lyrics_error = InvalidUtf8 | DocTooLarge nat | TooManyLines nat | LineTooLong nat nat
  | MalformedTimestamp nat | MalformedOffset nat | NegativeTimestamp nat

definition metadata_empty :: lyrics_metadata where
  "metadata_empty = \<lparr>lm_artist = None, lm_title = None, lm_album = None, lm_by = None\<rparr>"

definition metadata_present :: "lyrics_metadata \<Rightarrow> bool" where
  "metadata_present m \<longleftrightarrow> lm_artist m \<noteq> None \<or> lm_title m \<noteq> None \<or> lm_album m \<noteq> None \<or> lm_by m \<noteq> None"

definition is_synced :: "lyrics_document \<Rightarrow> bool" where
  "is_synced doc = (case ld_content doc of Synced _ \<Rightarrow> True | Plain _ \<Rightarrow> False)"

definition synced_lines :: "lyrics_document \<Rightarrow> lyrics_line list option" where
  "synced_lines doc = (case ld_content doc of Synced ls \<Rightarrow> Some ls | Plain _ \<Rightarrow> None)"

definition plain_lines :: "lyrics_document \<Rightarrow> rstr list option" where
  "plain_lines doc = (case ld_content doc of Plain ls \<Rightarrow> Some ls | Synced _ \<Rightarrow> None)"

text \<open>
  \<open>slice::partition_point\<close> on a slice partitioned by the predicate: the number of leading elements
  that satisfy it. The lines of a parsed document are sorted by time, so the slice is partitioned.
\<close>

definition partition_point :: "('a \<Rightarrow> bool) \<Rightarrow> 'a list \<Rightarrow> nat" where
  "partition_point P xs = length (takeWhile P xs)"

definition active_line :: "lyrics_document \<Rightarrow> int \<Rightarrow> nat option" where
  "active_line doc position_ms =
     (case synced_lines doc of
        None \<Rightarrow> None
      | Some lines \<Rightarrow>
          let idx = partition_point (\<lambda>l. timestamp_ms l \<le> position_ms) lines
          in if idx = 0 then None else Some (idx - 1))"

section \<open>Line ends\<close>

text \<open>\<open>replace("\r\n", "\n")\<close> followed by \<open>replace('\r', "\n")\<close>.\<close>

fun normalize_newlines :: "rstr \<Rightarrow> rstr" where
  "normalize_newlines [] = []"
| "normalize_newlines [b] = [if b = CR then LF else b]"
| "normalize_newlines (b # c # cs) =
     (if b \<noteq> CR then b # normalize_newlines (c # cs)
      else if c = LF then LF # normalize_newlines cs
      else LF # normalize_newlines (c # cs))"

definition join_lines :: "rstr list \<Rightarrow> rstr" where
  "join_lines xs = concat (case xs of [] \<Rightarrow> [] | y # ys \<Rightarrow> y # map (\<lambda>z. LF # z) ys)"

section \<open>Tokens\<close>

definition MAX_DOC_BYTES :: nat where "MAX_DOC_BYTES = 512 * 1024"
definition MAX_LINES :: nat where "MAX_LINES = 10000"
definition MAX_LINE_BYTES :: nat where "MAX_LINE_BYTES = 4096"
definition MAX_OFFSET_MS :: nat where "MAX_OFFSET_MS = 3600000"

declare MAX_DOC_BYTES_def [limits] MAX_LINES_def [limits] MAX_LINE_BYTES_def [limits]
  MAX_OFFSET_MS_def [limits]

function split_leading_tokens :: "rstr \<Rightarrow> rstr list \<times> rstr" where
  "split_leading_tokens rest =
     (case rest of
        [] \<Rightarrow> ([], rest)
      | b # bs \<Rightarrow>
          if b \<noteq> 0x5B then ([], rest)
          else case find_byte 0x5D rest of
            None \<Rightarrow> ([], rest)
          | Some close \<Rightarrow>
              (case split_leading_tokens (drop (Suc close) rest) of
                 (tokens, final) \<Rightarrow> (slice rest 1 close # tokens, final)))"
  by pat_completeness auto
termination
  by (relation "measure length") (auto dest!: find_byte_Some)

declare split_leading_tokens.simps [simp del]

definition is_timestamp_shaped :: "rstr \<Rightarrow> bool" where
  "is_timestamp_shaped token =
     (case token of
        [] \<Rightarrow> False
      | b # _ \<Rightarrow> (is_ascii_digit b \<or> b = 0x2B \<or> b = 0x2D) \<and> 0x3A \<in> set token)"

definition fraction_value :: "rstr option \<Rightarrow> nat option" where
  "fraction_value fraction =
     (case fraction of
        None \<Rightarrow> Some 0
      | Some f \<Rightarrow>
          if length f = 2 \<and> all_digits f then map_option (\<lambda>v. v * 10) (parse_digits u64_limit f)
          else if length f = 3 \<and> all_digits f then parse_digits u64_limit f
          else None)"

definition i64_max :: nat where "i64_max = 2 ^ 63 - 1"

definition timestamp_total :: "nat \<Rightarrow> nat \<Rightarrow> nat \<Rightarrow> nat option" where
  "timestamp_total minutes seconds fraction_ms =
     (case checked_mul minutes 60 of None \<Rightarrow> None | Some a \<Rightarrow>
      case checked_add a seconds of None \<Rightarrow> None | Some b \<Rightarrow>
      case checked_mul b 1000 of None \<Rightarrow> None | Some c \<Rightarrow>
      case checked_add c fraction_ms of None \<Rightarrow> None | Some t \<Rightarrow>
      if t > i64_max then None else Some t)"

definition parse_timestamp :: "rstr \<Rightarrow> nat option" where
  "parse_timestamp token =
     (case split_once 0x3A token of
        None \<Rightarrow> None
      | Some (minutes, rest) \<Rightarrow>
          if minutes = [] \<or> \<not> all_digits minutes then None
          else let (seconds, fraction) = (case split_once 0x2E rest of
                     Some (s, f) \<Rightarrow> (s, Some f)
                   | None \<Rightarrow> (rest, None))
          in if length seconds \<noteq> 2 \<or> \<not> all_digits seconds then None
          else case parse_digits u64_limit seconds of None \<Rightarrow> None | Some secs \<Rightarrow>
          if secs > 59 then None
          else case fraction_value fraction of None \<Rightarrow> None | Some ms \<Rightarrow>
          case parse_digits u64_limit minutes of None \<Rightarrow> None | Some mins \<Rightarrow>
          timestamp_total mins secs ms)"

definition parse_offset :: "rstr \<Rightarrow> int option" where
  "parse_offset value =
     (let (sign, digits) = (case strip_prefix [0x2D] value of
             Some rest \<Rightarrow> (-1, rest)
           | None \<Rightarrow> (1, case strip_prefix [0x2B] value of Some r \<Rightarrow> r | None \<Rightarrow> value))
      in if digits = [] \<or> \<not> all_digits digits then None
      else case parse_digits (i64_max + 1) digits of None \<Rightarrow> None | Some magnitude \<Rightarrow>
      if magnitude > MAX_OFFSET_MS then None else Some (sign * int magnitude))"

definition set_last :: "rstr \<Rightarrow> rstr option" where
  "set_last value = (if value = [] then None else Some value)"

function strip_loop :: "rstr \<Rightarrow> bool \<Rightarrow> rstr \<Rightarrow> rstr \<times> bool" where
  "strip_loop out stripped rest =
     (case find_byte 0x3C rest of
        None \<Rightarrow> (out @ rest, stripped)
      | Some open \<Rightarrow>
          let out = out @ take open rest; after = drop open rest in
          case find_byte 0x3E after of
            Some close \<Rightarrow>
              if is_timestamp_shaped (slice after 1 close)
              then strip_loop out True (drop (Suc close) after)
              else strip_loop (out @ [0x3C]) stripped (drop 1 after)
          | None \<Rightarrow> strip_loop (out @ [0x3C]) stripped (drop 1 after))"
  by pat_completeness auto
termination
  by (relation "measure (\<lambda>(out, stripped, rest). length rest)") (auto dest!: find_byte_Some)

declare strip_loop.simps [simp del]

definition strip_word_tags :: "rstr \<Rightarrow> rstr \<times> bool" where
  "strip_word_tags text = (if 0x3C \<notin> set text then (text, False) else strip_loop [] False text)"

section \<open>The parser\<close>

record lrc_state =
  ls_metadata :: lyrics_metadata
  ls_offset :: "int option"
  ls_stripped :: bool
  ls_raw :: "(nat \<times> nat \<times> rstr) list"
  ls_pending :: "rstr list"

definition apply_tag :: "nat \<Rightarrow> lrc_state \<Rightarrow> rstr \<Rightarrow> rstr \<Rightarrow> lyrics_error + lrc_state" where
  "apply_tag line_no st key value =
     (let m = ls_metadata st in
      if key = lit ''offset'' then
        (case parse_offset value of
           None \<Rightarrow> Inl (MalformedOffset line_no)
         | Some v \<Rightarrow> Inr (st\<lparr>ls_offset := Some v\<rparr>))
      else if key = lit ''ar'' then Inr (st\<lparr>ls_metadata := m\<lparr>lm_artist := set_last value\<rparr>\<rparr>)
      else if key = lit ''ti'' then Inr (st\<lparr>ls_metadata := m\<lparr>lm_title := set_last value\<rparr>\<rparr>)
      else if key = lit ''al'' then Inr (st\<lparr>ls_metadata := m\<lparr>lm_album := set_last value\<rparr>\<rparr>)
      else if key = lit ''by'' then Inr (st\<lparr>ls_metadata := m\<lparr>lm_by := set_last value\<rparr>\<rparr>)
      else Inr st)"

fun scan_tokens :: "nat \<Rightarrow> lrc_state \<Rightarrow> nat list \<Rightarrow> rstr list \<Rightarrow> lyrics_error + (lrc_state \<times> nat list)" where
  "scan_tokens line_no st timestamps [] = Inr (st, timestamps)"
| "scan_tokens line_no st timestamps (token # tokens) =
     (if is_timestamp_shaped token then
        (case parse_timestamp token of
           None \<Rightarrow> Inl (MalformedTimestamp line_no)
         | Some ms \<Rightarrow> scan_tokens line_no st (timestamps @ [ms]) tokens)
      else case split_once 0x3A token of
        None \<Rightarrow> scan_tokens line_no st timestamps tokens
      | Some (key, value) \<Rightarrow>
          (case apply_tag line_no st (map to_ascii_lowercase (trim key)) (trim value) of
             Inl e \<Rightarrow> Inl e
           | Inr st' \<Rightarrow> scan_tokens line_no st' timestamps tokens))"

definition scan_line :: "nat \<Rightarrow> lrc_state \<Rightarrow> rstr \<Rightarrow> lyrics_error + lrc_state" where
  "scan_line line_no st raw_line =
     (if length raw_line > MAX_LINE_BYTES then Inl (LineTooLong line_no (length raw_line))
      else let (tokens, rest) = split_leading_tokens (trim_ascii_start raw_line) in
      case scan_tokens line_no st [] tokens of
        Inl e \<Rightarrow> Inl e
      | Inr (st, timestamps) \<Rightarrow>
          let (owned, stripped) = strip_word_tags rest;
              text = trim_ascii owned;
              st = st\<lparr>ls_stripped := ls_stripped st \<or> stripped\<rparr>
          in if timestamps \<noteq> [] then
               (let block = (if ls_pending st = [] then text
                             else join_lines (ls_pending st) @ [LF] @ text)
                in Inr (st\<lparr>ls_pending := [],
                          ls_raw := ls_raw st @ map (\<lambda>ts. (line_no, ts, block)) timestamps\<rparr>))
             else if text = [] \<and> tokens \<noteq> [] then Inr st
             else Inr (st\<lparr>ls_pending := ls_pending st @ [text]\<rparr>))"

fun scan_lines :: "nat \<Rightarrow> lrc_state \<Rightarrow> rstr list \<Rightarrow> lyrics_error + lrc_state" where
  "scan_lines line_no st [] = Inr st"
| "scan_lines line_no st (l # ls) =
     (case scan_line line_no st l of
        Inl e \<Rightarrow> Inl e
      | Inr st' \<Rightarrow> scan_lines (line_no + 1) st' ls)"

fun shift_entries :: "int \<Rightarrow> (nat \<times> nat \<times> rstr) list \<Rightarrow> lyrics_error + lyrics_line list" where
  "shift_entries shift [] = Inr []"
| "shift_entries shift ((line_no, raw, text) # es) =
     (if int raw + shift > int i64_max \<or> int raw + shift < - int i64_max - 1
      then Inl (MalformedTimestamp line_no)
      else if int raw + shift < 0 then Inl (NegativeTimestamp line_no)
      else case shift_entries shift es of
        Inl e \<Rightarrow> Inl e
      | Inr ls \<Rightarrow> Inr (\<lparr>timestamp_ms = int raw + shift, text_of = text\<rparr> # ls))"

definition attach_pending :: "rstr list \<Rightarrow> lyrics_line list \<Rightarrow> lyrics_line list" where
  "attach_pending pending entries =
     (if pending = [] then entries
      else butlast entries @ [(last entries)\<lparr>text_of := text_of (last entries) @ [LF] @ join_lines pending\<rparr>])"

definition finish_document :: "lrc_state \<Rightarrow> lyrics_error + lyrics_document" where
  "finish_document st =
     (if ls_raw st = [] then
        Inr \<lparr>ld_content = Plain (ls_pending st), ld_metadata = ls_metadata st,
             ld_word_tags_stripped = ls_stripped st\<rparr>
      else case shift_entries (case ls_offset st of None \<Rightarrow> 0 | Some v \<Rightarrow> v) (ls_raw st) of
        Inl e \<Rightarrow> Inl e
      | Inr entries \<Rightarrow>
          Inr \<lparr>ld_content = Synced (sort_key timestamp_ms (attach_pending (ls_pending st) entries)),
               ld_metadata = ls_metadata st, ld_word_tags_stripped = ls_stripped st\<rparr>)"


definition parse_lyrics :: "bytes \<Rightarrow> lyrics_error + lyrics_document" where
  "parse_lyrics bs =
     (if length bs > MAX_DOC_BYTES then Inl (DocTooLarge (length bs))
      else if \<not> utf8_valid bs then Inl InvalidUtf8
      else let text = (case strip_prefix BOM bs of Some r \<Rightarrow> r | None \<Rightarrow> bs);
               text = (if CR \<in> set text then normalize_newlines text else text);
               ls = str_lines text
      in if length ls > MAX_LINES then Inl (TooManyLines (length ls))
      else case scan_lines 1 \<lparr>ls_metadata = metadata_empty, ls_offset = None, ls_stripped = False,
                  ls_raw = [], ls_pending = []\<rparr> ls of
        Inl e \<Rightarrow> Inl e
      | Inr st \<Rightarrow> finish_document st)"

end
