(* ===== verification/Lyrics_Properties.thy ===== *)
theory Lyrics_Properties
  imports Lyrics
begin

text \<open>
  What the lyrics parser guarantees of its documents, and that the timing function is what the
  specification says of it: the last line not after the position, monotone in the position.
\<close>

section \<open>The active line\<close>

lemma takeWhile_sorted_iff:
  assumes "sorted (map f xs)" and "i < length xs"
  shows "i < length (takeWhile (\<lambda>x. f x \<le> (p :: int)) xs) \<longleftrightarrow> f (xs ! i) \<le> p"
  using assms
proof (induction xs arbitrary: i)
  case Nil
  then show ?case by simp
next
  case (Cons x xs)
  show ?case
  proof (cases i)
    case 0
    then show ?thesis by simp
  next
    case (Suc j)
    then have le: "f x \<le> f (xs ! j)" and IH: "j < length (takeWhile (\<lambda>x. f x \<le> p) xs) \<longleftrightarrow> f (xs ! j) \<le> p"
      using Cons by simp_all
    show ?thesis
    proof (cases "f x \<le> p")
      case True
      with IH Suc show ?thesis by simp
    next
      case False
      with le have "\<not> f (xs ! j) \<le> p" by linarith
      with False Suc show ?thesis by simp
    qed
  qed
qed

text \<open>A line list as a parsed document holds it.\<close>

definition lines_ok :: "lyrics_line list \<Rightarrow> bool" where
  "lines_ok ls \<longleftrightarrow> ls \<noteq> [] \<and> sorted (map timestamp_ms ls)
     \<and> (\<forall>l\<in>set ls. 0 \<le> timestamp_ms l \<and> timestamp_ms l \<le> int i64_max)"

lemma active_line_sorted:
  assumes "synced_lines doc = Some ls" and "sorted (map timestamp_ms ls)"
  shows "active_line doc p = Some i \<longleftrightarrow>
    i < length ls \<and> timestamp_ms (ls ! i) \<le> p \<and> (\<forall>j<length ls. timestamp_ms (ls ! j) \<le> p \<longrightarrow> j \<le> i)"
proof -
  define n where "n = length (takeWhile (\<lambda>l. timestamp_ms l \<le> p) ls)"
  have n: "n \<le> length ls"
    by (simp add: n_def length_takeWhile_le)
  have iff: "j < n \<longleftrightarrow> timestamp_ms (ls ! j) \<le> p" if "j < length ls" for j
    using takeWhile_sorted_iff [OF assms(2) that] by (simp add: n_def)
  have act: "active_line doc p = (if n = 0 then None else Some (n - 1))"
    by (simp add: active_line_def assms(1) partition_point_def n_def Let_def)
  show ?thesis
  proof
    assume "active_line doc p = Some i"
    with act have "n = Suc i" by (auto split: if_splits)
    with n iff [of i] iff show "i < length ls \<and> timestamp_ms (ls ! i) \<le> p
        \<and> (\<forall>j<length ls. timestamp_ms (ls ! j) \<le> p \<longrightarrow> j \<le> i)"
      by (auto simp: less_Suc_eq_le)
  next
    assume i: "i < length ls \<and> timestamp_ms (ls ! i) \<le> p
        \<and> (\<forall>j<length ls. timestamp_ms (ls ! j) \<le> p \<longrightarrow> j \<le> i)"
    then have "i < n" using iff by blast
    moreover have "n - 1 \<le> i"
      using i iff [of "n - 1"] n \<open>i < n\<close> by auto
    ultimately show "active_line doc p = Some i"
      using act by simp
  qed
qed

section \<open>Parsed documents\<close>

lemma digits_bound: "timestamp_total m s f = Some t \<Longrightarrow> t \<le> i64_max"
  by (auto simp: timestamp_total_def split: option.splits if_splits)

lemma shift_entries_range:
  "shift_entries shift es = Inr ls \<Longrightarrow> length ls = length es
    \<and> (\<forall>l\<in>set ls. 0 \<le> timestamp_ms l \<and> timestamp_ms l \<le> int i64_max)"
proof (induction es arbitrary: ls)
  case Nil
  then show ?case by simp
next
  case (Cons e es)
  obtain a b c where e: "e = (a, b, c)" by (metis prod_cases3)
  from Cons show ?case
    by (fastforce simp: e split: if_splits sum.splits)
qed

lemma attach_pending_times: "entries \<noteq> [] \<Longrightarrow>
  map timestamp_ms (attach_pending pending entries) = map timestamp_ms entries"
  by (cases entries rule: rev_cases) (simp_all add: attach_pending_def)

lemma finish_document_synced:
  assumes "finish_document st = Inr doc" and "synced_lines doc = Some ls"
  shows "lines_ok ls"
proof -
  obtain entries where st: "ls_raw st \<noteq> []"
      "shift_entries (case ls_offset st of None \<Rightarrow> 0 | Some v \<Rightarrow> v) (ls_raw st) = Inr entries"
    and ls: "ls = sort_key timestamp_ms (attach_pending (ls_pending st) entries)"
    using assms by (auto simp: finish_document_def synced_lines_def split: if_splits sum.splits)
  note r = shift_entries_range [OF st(2)]
  have ne: "entries \<noteq> []"
    using r st(1) by auto
  have times: "set (map timestamp_ms (attach_pending (ls_pending st) entries)) = set (map timestamp_ms entries)"
    using attach_pending_times [OF ne] by simp
  have "attach_pending (ls_pending st) entries \<noteq> []"
    using ne by (simp add: attach_pending_def)
  moreover have "0 \<le> timestamp_ms l \<and> timestamp_ms l \<le> int i64_max"
    if "l \<in> set (attach_pending (ls_pending st) entries)" for l
  proof -
    have "timestamp_ms l \<in> timestamp_ms ` set entries"
      using that times by auto
    with r show ?thesis by auto
  qed
  ultimately show ?thesis
    by (auto simp: lines_ok_def ls) (metis length_0_conv length_sort)
qed

lemma parse_lyrics_synced:
  assumes "parse_lyrics bs = Inr doc" and "synced_lines doc = Some ls"
  shows "lines_ok ls"
proof -
  obtain st where "finish_document st = Inr doc"
    using assms(1) by (auto simp: parse_lyrics_def Let_def split: if_splits sum.splits)
  then show ?thesis
    using assms(2) by (rule finish_document_synced)
qed

text \<open>C27: Every document the parser accepts is well formed: a synchronised one has at least one line,
  its lines are sorted by time and every timestamp lies between 0 and the largest \<open>i64\<close>, whatever
  shift the offset tag asked for.\<close>

theorem parsed_lines_ordered:
  assumes "parse_lyrics bs = Inr doc"
  shows "case ld_content doc of Synced ls \<Rightarrow> lines_ok ls | Plain ps \<Rightarrow> synced_lines doc = None"
  using parse_lyrics_synced [OF assms] by (auto simp: synced_lines_def split: lyrics_content.splits)

text \<open>C28: The active line of a parsed document at a position is the last line, in document order, whose
  time is not after the position; there is one exactly when some line is not after it, and never in
  a plain document.\<close>

theorem active_line_is_last:
  assumes "parse_lyrics bs = Inr doc"
  shows "active_line doc p = Some i \<longleftrightarrow>
    (\<exists>ls. synced_lines doc = Some ls \<and> i < length ls \<and> timestamp_ms (ls ! i) \<le> p
      \<and> (\<forall>j<length ls. timestamp_ms (ls ! j) \<le> p \<longrightarrow> j \<le> i))"
proof (cases "synced_lines doc")
  case None
  then show ?thesis by (simp add: active_line_def)
next
  case (Some ls)
  then have "sorted (map timestamp_ms ls)"
    using parse_lyrics_synced [OF assms] by (simp add: lines_ok_def)
  with Some show ?thesis
    using active_line_sorted [OF Some] by simp
qed

lemma takeWhile_length_mono:
  "(\<And>x. P x \<Longrightarrow> Q x) \<Longrightarrow> length (takeWhile P xs) \<le> length (takeWhile Q xs)"
  by (induction xs) auto

text \<open>The active line never goes back as the position advances.\<close>

theorem active_line_monotone:
  assumes "p \<le> q" and "active_line doc p = Some i"
  shows "\<exists>j\<ge>i. active_line doc q = Some j"
proof -
  obtain ls where ls: "synced_lines doc = Some ls"
    using assms(2) by (auto simp: active_line_def split: option.splits)
  have "length (takeWhile (\<lambda>l. timestamp_ms l \<le> p) ls) \<le> length (takeWhile (\<lambda>l. timestamp_ms l \<le> q) ls)"
    using assms(1) by (intro takeWhile_length_mono) linarith
  with assms(2) show ?thesis
    by (auto simp: active_line_def ls partition_point_def Let_def split: if_splits)
qed

section \<open>Timestamps\<close>

lemma all_digits_notin: "all_digits xs \<Longrightarrow> 0x3A \<notin> set xs \<and> 0x2E \<notin> set xs"
  by (auto simp: all_digits_def list_all_iff is_ascii_digit_def)

text \<open>Timestamps round-trip: any minutes, two-digit seconds below 60 and three-digit milliseconds
  whose total fits an \<open>i64\<close> parse to exactly that many milliseconds.\<close>

theorem timestamp_roundtrip:
  assumes "s < 60" and "f < 1000" and "m * 60000 + s * 1000 + f \<le> i64_max"
  shows "parse_timestamp (show_nat m @ 0x3A # [digit (s div 10), digit (s mod 10)]
      @ 0x2E # [digit (f div 100), digit (f div 10 mod 10), digit (f mod 10)])
    = Some (m * 60000 + s * 1000 + f)"
proof -
  let ?s = "[digit (s div 10), digit (s mod 10)]"
  let ?f = "[digit (f div 100), digit (f div 10 mod 10), digit (f mod 10)]"
  have lt: "s div 10 < 10" "f div 100 < 10"
    using assms by simp_all
  have sd: "all_digits ?s" "digits_value ?s = s"
    using lt by (simp_all add: all_digits_def is_ascii_digit_digit digits_value_def unat_digit)
  have fd: "all_digits ?f" "digits_value ?f = f"
  proof -
    show "all_digits ?f"
      using lt by (simp add: all_digits_def is_ascii_digit_digit)
    have "digits_value ?f = 10 * (10 * (f div 100) + f div 10 mod 10) + f mod 10"
      using lt by (simp add: digits_value_def unat_digit)
    moreover have "f div 100 = f div 10 div 10"
      by (simp flip: div_mult2_eq)
    ultimately show "digits_value ?f = f"
      by (simp only: mult_div_mod_eq)
  qed
  note md = show_nat_digits [of m]
  have lims: "m * 60000 + s * 1000 + f < u64_limit" "m < u64_limit" "s < u64_limit" "f < u64_limit"
    using assms by (simp_all add: i64_max_def u64_limit_def)
  have "split_once 0x3A (show_nat m @ 0x3A # ?s @ 0x2E # ?f) = Some (show_nat m, ?s @ 0x2E # ?f)"
    using md all_digits_notin by (intro split_once_append) blast
  moreover have "split_once 0x2E (?s @ 0x2E # ?f) = Some (?s, ?f)"
    using sd(1) all_digits_notin by (intro split_once_append) blast
  moreover have "fraction_value (Some ?f) = Some f"
    using fd lims by (simp add: fraction_value_def parse_digits_def)
  moreover have "timestamp_total m s f = Some (m * 60000 + s * 1000 + f)"
    using assms(3) lims by (simp add: timestamp_total_def checked_mul_def checked_add_def algebra_simps)
  ultimately show ?thesis
    using md sd assms(1) lims by (simp add: parse_timestamp_def Let_def parse_digits_def)
qed

section \<open>Plain text\<close>







section \<open>Concrete documents\<close>

text \<open>Two timed lines out of order, then a line without a time.\<close>

definition sample_lrc :: bytes where
  "sample_lrc = lit ''[00:02.500]two'' @ [LF] @ lit ''[00:01.000]one'' @ [LF] @ lit ''more''"

definition sample_document :: lyrics_document where
  "sample_document = \<lparr>ld_content = Synced
      [\<lparr>timestamp_ms = 1000, text_of = lit ''one'' @ [LF] @ lit ''more''\<rparr>,
       \<lparr>timestamp_ms = 2500, text_of = lit ''two''\<rparr>],
     ld_metadata = metadata_empty, ld_word_tags_stripped = False\<rparr>"

lemma sample_lines:
  "str_lines sample_lrc = [lit ''[00:02.500]two'', lit ''[00:01.000]one'', lit ''more'']"
  by code_simp

lemma sample_tokens:
  "split_leading_tokens (trim_ascii_start (lit ''[00:02.500]two'')) = ([lit ''00:02.500''], lit ''two'')"
  "split_leading_tokens (trim_ascii_start (lit ''[00:01.000]one'')) = ([lit ''00:01.000''], lit ''one'')"
  "split_leading_tokens (trim_ascii_start (lit ''more'')) = ([], lit ''more'')"
  by code_simp+

lemma sample_times:
  "parse_timestamp (lit ''00:02.500'') = Some 2500" "parse_timestamp (lit ''00:01.000'') = Some 1000"
  by (simp_all add: parse_timestamp_def lit_def split_once_def all_digits_def is_ascii_digit_def
      parse_digits_def digits_value_def fraction_value_def timestamp_total_def checked_mul_def
      checked_add_def u64_limit_def i64_max_def)

lemma sample_parses: "parse_lyrics sample_lrc = Inr sample_document"
proof -
  have shaped: "is_timestamp_shaped (lit ''00:02.500'')" "is_timestamp_shaped (lit ''00:01.000'')"
    by code_simp+
  have texts: "strip_word_tags (lit ''two'') = (lit ''two'', False)" "strip_word_tags (lit ''one'') = (lit ''one'', False)"
    "strip_word_tags (lit ''more'') = (lit ''more'', False)" "trim_ascii (lit ''two'') = lit ''two''"
    "trim_ascii (lit ''one'') = lit ''one''" "trim_ascii (lit ''more'') = lit ''more''" "lit ''more'' \<noteq> []"
    by code_simp+
  have lens: "length (lit ''[00:02.500]two'') = 14" "length (lit ''[00:01.000]one'') = 14" "length (lit ''more'') = 4"
    "length sample_lrc = 34"
    by code_simp+
  have src: "utf8_valid sample_lrc" "strip_prefix BOM sample_lrc = None" "CR \<notin> set sample_lrc"
    by code_simp+
  have "scan_lines 1 \<lparr>ls_metadata = metadata_empty, ls_offset = None, ls_stripped = False, ls_raw = [], ls_pending = []\<rparr>
      (str_lines sample_lrc) = Inr \<lparr>ls_metadata = metadata_empty, ls_offset = None, ls_stripped = False,
        ls_raw = [(1, 2500, lit ''two''), (2, 1000, lit ''one'')], ls_pending = [lit ''more'']\<rparr>"
    unfolding sample_lines
    by (simp add: scan_line_def lens sample_tokens shaped sample_times texts MAX_LINE_BYTES_def)
  then show ?thesis
    by (simp add: parse_lyrics_def src lens sample_lines MAX_LINES_def MAX_DOC_BYTES_def finish_document_def
        i64_max_def attach_pending_def join_lines_def sample_document_def)
qed

theorem parsed_lines_ordered_witness:
  "case ld_content sample_document of Synced ls \<Rightarrow> lines_ok ls | Plain ps \<Rightarrow> False"
  using parsed_lines_ordered [OF sample_parses] by (simp add: sample_document_def)

theorem active_line_is_last_witness: "active_line sample_document 2000 = Some 0"
  unfolding active_line_is_last [OF sample_parses]
  by (auto simp: sample_document_def synced_lines_def less_Suc_eq numeral_2_eq_2)

theorem active_line_monotone_witness: "\<exists>j\<ge>0. active_line sample_document 3000 = Some j"
proof (rule active_line_monotone)
  show "active_line sample_document 2000 = Some 0"
    by code_simp
qed simp

theorem timestamp_roundtrip_witness:
  "parse_timestamp (show_nat 1 @ 0x3A # [digit 0, digit 2] @ 0x2E # [digit 3, digit 4, digit 5]) = Some 62345"
  using timestamp_roundtrip [of 2 345 1] by (simp add: i64_max_def)


end
