(* ===== verification/F64.thy ===== *)
theory F64
  imports Text
begin

text \<open>
  IEEE 754 binary64, Rust's \<open>f64\<close>, as its 64-bit pattern: classification, comparison, conversion from
  and to integers, and the correctly rounded conversion of a decimal literal (\<open>str::parse\<close>). Every
  finite double is an integer multiple of \<open>2 ^ -1074\<close>, so its value is modelled exactly by that
  integer, \<open>scaled\<close>, and comparisons of doubles are comparisons of integers.
\<close>

unbundle bit_operations_syntax

type_synonym f64 = "64 word"

section \<open>Fields of the bit pattern\<close>

definition sign_bit :: "f64 \<Rightarrow> bool" where
  "sign_bit v \<longleftrightarrow> bit v 63"

definition raw_exp :: "f64 \<Rightarrow> nat" where
  "raw_exp v = unat (drop_bit 52 v AND 0x7ff)"

definition frac_bits :: "f64 \<Rightarrow> nat" where
  "frac_bits v = unat (v AND 0x000fffffffffffff)"

definition is_nan :: "f64 \<Rightarrow> bool" where
  "is_nan v \<longleftrightarrow> raw_exp v = 2047 \<and> frac_bits v \<noteq> 0"

definition is_infinite :: "f64 \<Rightarrow> bool" where
  "is_infinite v \<longleftrightarrow> raw_exp v = 2047 \<and> frac_bits v = 0"

definition is_finite :: "f64 \<Rightarrow> bool" where
  "is_finite v \<longleftrightarrow> raw_exp v \<noteq> 2047"

text \<open>The magnitude in units of \<open>2 ^ -1074\<close>, and the signed value in those units.\<close>

definition magnitude :: "f64 \<Rightarrow> nat" where
  "magnitude v = (if raw_exp v = 0 then frac_bits v else (frac_bits v + 2 ^ 52) * 2 ^ (raw_exp v - 1))"

definition scaled :: "f64 \<Rightarrow> int" where
  "scaled v = (if sign_bit v then - int (magnitude v) else int (magnitude v))"

section \<open>Comparison and truncation\<close>

text \<open>IEEE comparisons: false when an operand is not a number, and \<open>-0 = 0\<close>. An infinity has a larger
  magnitude than every finite value, so the order holds for it too.\<close>

definition f64_le :: "f64 \<Rightarrow> f64 \<Rightarrow> bool" where
  "f64_le a b \<longleftrightarrow> \<not> is_nan a \<and> \<not> is_nan b \<and> scaled a \<le> scaled b"

definition f64_less :: "f64 \<Rightarrow> f64 \<Rightarrow> bool" where
  "f64_less a b \<longleftrightarrow> \<not> is_nan a \<and> \<not> is_nan b \<and> scaled a < scaled b"

definition f64_eq :: "f64 \<Rightarrow> f64 \<Rightarrow> bool" where
  "f64_eq a b \<longleftrightarrow> \<not> is_nan a \<and> \<not> is_nan b \<and> scaled a = scaled b"

text \<open>\<open>v.fract() == 0.0\<close>: the fraction of an infinity is not a number.\<close>

definition fract_is_zero :: "f64 \<Rightarrow> bool" where
  "fract_is_zero v \<longleftrightarrow> is_finite v \<and> magnitude v mod 2 ^ 1074 = 0"

text \<open>\<open>as\<close> to an integer type with the given range: truncation toward zero, saturating, zero for NaN.\<close>

definition f64_trunc :: "f64 \<Rightarrow> int" where
  "f64_trunc v = (if sign_bit v then - int (magnitude v div 2 ^ 1074) else int (magnitude v div 2 ^ 1074))"

definition f64_as :: "int \<Rightarrow> int \<Rightarrow> f64 \<Rightarrow> int" where
  "f64_as lo hi v = (if is_nan v then 0 else max lo (min hi (f64_trunc v)))"

section \<open>Rounding to the nearest double\<close>

fun bit_length :: "nat \<Rightarrow> nat" where
  "bit_length n = (if n = 0 then 0 else Suc (bit_length (n div 2)))"

declare bit_length.simps [simp del]

definition div_half_even :: "nat \<Rightarrow> nat \<Rightarrow> nat" where
  "div_half_even n d =
     (let q = n div d; r = n mod d
      in if d < 2 * r \<or> (2 * r = d \<and> odd q) then q + 1 else q)"

text \<open>
  The double nearest to \<open>num / den\<close>, ties to even, infinity on overflow. The quotient in units of
  \<open>2 ^ -1074\<close> is rounded to 53 significant bits; the pattern of a double is the position of its binade
  times \<open>2 ^ 52\<close> plus its 53-bit significand, for subnormal numbers too.
\<close>

definition f64_nearest_bits :: "nat \<Rightarrow> nat \<Rightarrow> nat" where
  "f64_nearest_bits num den =
     (let k = bit_length (num * 2 ^ 1074 div den) - 53
      in min (k * 2 ^ 52 + div_half_even (num * 2 ^ 1074) (den * 2 ^ k)) (2047 * 2 ^ 52))"

definition f64_nearest :: "bool \<Rightarrow> nat \<Rightarrow> nat \<Rightarrow> f64" where
  "f64_nearest neg num den = word_of_nat ((if neg then 2 ^ 63 else 0) + f64_nearest_bits num den)"

definition f64_of_int :: "int \<Rightarrow> f64" where
  "f64_of_int i = f64_nearest (i < 0) (nat \<bar>i\<bar>) 1"

section \<open>Arithmetic\<close>

text \<open>IEEE addition and multiplication: the exact result rounded to nearest, with the special values.\<close>

definition f64_nan :: f64 where
  "f64_nan = 0x7ff8000000000000"

definition f64_inf :: "bool \<Rightarrow> f64" where
  "f64_inf neg = (if neg then 0xfff0000000000000 else 0x7ff0000000000000)"

definition f64_mul :: "f64 \<Rightarrow> f64 \<Rightarrow> f64" where
  "f64_mul a b =
     (if is_nan a \<or> is_nan b then f64_nan
      else if is_infinite a \<or> is_infinite b then
        (if magnitude a = 0 \<or> magnitude b = 0 then f64_nan else f64_inf (sign_bit a \<noteq> sign_bit b))
      else f64_nearest (sign_bit a \<noteq> sign_bit b) (magnitude a * magnitude b) (2 ^ 2148))"

definition f64_add :: "f64 \<Rightarrow> f64 \<Rightarrow> f64" where
  "f64_add a b =
     (if is_nan a \<or> is_nan b then f64_nan
      else if is_infinite a then (if is_infinite b \<and> sign_bit a \<noteq> sign_bit b then f64_nan else a)
      else if is_infinite b then b
      else let s = scaled a + scaled b
           in f64_nearest (if s = 0 then sign_bit a \<and> sign_bit b else s < 0) (nat \<bar>s\<bar>) (2 ^ 1074))"

section \<open>Decimal literals\<close>

text \<open>\<open>str::parse\<close> of a decimal literal: an optional sign, digits with an optional point, at least one
  digit, and an optional exponent. (The names of infinity and NaN, which it also accepts, do not
  consist of the bytes the callers pass.)\<close>

definition split_sign :: "rstr \<Rightarrow> bool \<times> rstr" where
  "split_sign s = (case s of
      [] \<Rightarrow> (False, s)
    | b # r \<Rightarrow> if b = 0x2D then (True, r) else if b = 0x2B then (False, r) else (False, s))"

definition parse_exponent :: "rstr \<Rightarrow> int option" where
  "parse_exponent s = (case s of
      [] \<Rightarrow> Some 0
    | b # r \<Rightarrow>
        if b = 0x65 \<or> b = 0x45 then
          (case split_sign r of (neg, ds) \<Rightarrow>
             if ds \<noteq> [] \<and> all_digits ds
             then Some (if neg then - int (digits_value ds) else int (digits_value ds)) else None)
        else None)"

definition split_frac :: "rstr \<Rightarrow> rstr \<times> rstr" where
  "split_frac s = (case s of
      [] \<Rightarrow> ([], s)
    | b # r \<Rightarrow> if b = 0x2E then (takeWhile is_ascii_digit r, dropWhile is_ascii_digit r) else ([], s))"

definition f64_of_decimal :: "bool \<Rightarrow> nat \<Rightarrow> int \<Rightarrow> f64" where
  "f64_of_decimal neg mant e =
     (if 0 \<le> e then f64_nearest neg (mant * 10 ^ nat e) 1 else f64_nearest neg mant (10 ^ nat (- e)))"

definition parse_f64 :: "rstr \<Rightarrow> f64 option" where
  "parse_f64 s =
     (case split_sign s of (neg, body) \<Rightarrow>
        let int_part = takeWhile is_ascii_digit body
        in case split_frac (dropWhile is_ascii_digit body) of (frac, rest) \<Rightarrow>
          if int_part = [] \<and> frac = [] then None
          else map_option (\<lambda>e. f64_of_decimal neg (digits_value (int_part @ frac)) (e - int (length frac)))
                 (parse_exponent rest))"

section \<open>Exactness\<close>

lemma bit_length_0 [simp]: "bit_length 0 = 0"
  by (simp add: bit_length.simps [of 0])

lemma bit_length_less: "n < 2 ^ bit_length n"
proof (induction n rule: less_induct)
  case (less n)
  show ?case
  proof (cases "n = 0")
    case False
    then have "n div 2 < 2 ^ bit_length (n div 2)"
      using less by simp
    then have "n < 2 * 2 ^ bit_length (n div 2)"
      by linarith
    with False show ?thesis
      by (simp add: bit_length.simps [of n])
  qed simp
qed

lemma bit_length_le: "n \<noteq> 0 \<Longrightarrow> 2 ^ (bit_length n - 1) \<le> n"
proof (induction n rule: less_induct)
  case (less n)
  show ?case
  proof (cases "n div 2 = 0")
    case True
    with less.prems show ?thesis
      by (simp add: bit_length.simps [of n] bit_length.simps [of 0])
  next
    case False
    then have "2 ^ (bit_length (n div 2) - 1) \<le> n div 2" "bit_length (n div 2) \<noteq> 0"
      using less.IH [of "n div 2"] by (simp, subst bit_length.simps, simp)
    then have "2 * 2 ^ (bit_length (n div 2) - 1) \<le> n"
      by linarith
    moreover have "bit_length n - 1 = Suc (bit_length (n div 2) - 1)"
      using less.prems \<open>bit_length (n div 2) \<noteq> 0\<close> by (subst bit_length.simps) simp
    ultimately show ?thesis
      by simp
  qed
qed

lemma bit_length_double: "n \<noteq> 0 \<Longrightarrow> bit_length (n * 2 ^ j) = bit_length n + j"
proof (induction j)
  case (Suc j)
  have "n * 2 ^ Suc j div 2 = n * 2 ^ j"
    by simp
  with Suc show ?case
    by (subst bit_length.simps) simp
qed simp

lemma bit_length_mono: "n < 2 ^ k \<Longrightarrow> bit_length n \<le> k"
proof (induction k arbitrary: n)
  case 0
  then show ?case by (simp add: bit_length.simps [of 0])
next
  case (Suc k)
  then have "bit_length (n div 2) \<le> k"
    by (intro Suc.IH) (simp add: less_mult_imp_div_less mult.commute)
  then show ?case
    by (subst bit_length.simps) simp
qed

lemma div_half_even_exact: "0 < d \<Longrightarrow> div_half_even (q * d) d = q"
  by (simp add: div_half_even_def)

lemma f64_fields:
  assumes "b < 2 ^ 63"
  shows "sign_bit (word_of_nat ((if neg then 2 ^ 63 else 0) + b)) = neg"
    and "raw_exp (word_of_nat ((if neg then 2 ^ 63 else 0) + b)) = b div 2 ^ 52"
    and "frac_bits (word_of_nat ((if neg then 2 ^ 63 else 0) + b)) = b mod 2 ^ 52"
proof -
  let ?n = "(if neg then 2 ^ 63 else 0) + b"
  let ?v = "word_of_nat ?n :: f64"
  have lt: "?n < 2 ^ LENGTH(64)"
    using assms by simp
  then have u: "unat ?v = ?n"
    by (simp only: unat_of_nat mod_less)
  have "bit ?n 63 = neg"
    using assms by (cases neg) (simp_all add: bit_iff_odd div_add_self1)
  then show "sign_bit ?v = neg"
    using u bit_unsigned_iff [where 'a = nat, of ?v 63] by (simp add: sign_bit_def)
  have "(0x7ff::64 word) = mask 11" "(0x000fffffffffffff::64 word) = mask 52"
    by (simp_all add: mask_eq_exp_minus_1)
  then have m: "raw_exp ?v = unat (take_bit 11 (drop_bit 52 ?v))" "frac_bits ?v = unat (take_bit 52 ?v)"
    by (simp_all only: raw_exp_def frac_bits_def take_bit_eq_mask)
  have "raw_exp ?v = ?n div 2 ^ 52 mod 2 ^ 11"
    unfolding m unsigned_take_bit_eq unsigned_drop_bit_eq u
    by (simp only: drop_bit_eq_div take_bit_eq_mod mod_less [OF lt])
  also have "?n div 2 ^ 52 = (if neg then 2 ^ 11 else 0) + b div 2 ^ 52"
    using div_mult_self1 [of "2 ^ 52" b "2 ^ 11"] by (simp add: add.commute)
  also have "\<dots> mod 2 ^ 11 = b div 2 ^ 52"
    using assms by (simp add: less_mult_imp_div_less)
  finally show "raw_exp ?v = b div 2 ^ 52" .
  have "frac_bits ?v = ?n mod 2 ^ 52"
    unfolding m unsigned_take_bit_eq u by (simp only: take_bit_eq_mod)
  also have "\<dots> = b mod 2 ^ 52"
    using mod_mult_self1 [of b "2 ^ 11" "2 ^ 52"] by (simp add: add.commute)
  finally show "frac_bits ?v = b mod 2 ^ 52" .
qed

lemma f64_pattern:
  assumes "2 ^ 52 \<le> q" and "q < 2 ^ 53" and "k < 2046"
  shows "sign_bit (word_of_nat ((if neg then 2 ^ 63 else 0) + (k * 2 ^ 52 + q))) = neg"
    and "raw_exp (word_of_nat ((if neg then 2 ^ 63 else 0) + (k * 2 ^ 52 + q))) = Suc k"
    and "magnitude (word_of_nat ((if neg then 2 ^ 63 else 0) + (k * 2 ^ 52 + q))) = q * 2 ^ k"
proof -
  let ?b = "k * 2 ^ 52 + q"
  have b: "?b = Suc k * 2 ^ 52 + (q - 2 ^ 52)" "q - 2 ^ 52 < 2 ^ 52"
    using assms by simp_all
  then have dm: "?b div 2 ^ 52 = Suc k" "?b mod 2 ^ 52 = q - 2 ^ 52"
    by (simp_all only: div_mult_self3 mod_mult_self3 div_less mod_less)
  have "Suc k * 2 ^ 52 \<le> 2046 * 2 ^ 52"
    using assms(3) by (intro mult_le_mono1) simp
  then have "?b < 2 ^ 63"
    using b by simp
  note f = f64_fields [OF this, of neg]
  show "sign_bit (word_of_nat ((if neg then 2 ^ 63 else 0) + ?b)) = neg"
    by (fact f(1))
  show re: "raw_exp (word_of_nat ((if neg then 2 ^ 63 else 0) + ?b)) = Suc k"
    by (simp only: f(2) dm)
  show "magnitude (word_of_nat ((if neg then 2 ^ 63 else 0) + ?b)) = q * 2 ^ k"
    using assms by (simp only: magnitude_def re f(3) dm) simp
qed

text \<open>A natural number with at most 53 significant bits is a double, and rounding to the nearest double
  keeps it.\<close>

lemma f64_nearest_exact:
  assumes "2 ^ j dvd n" and "bit_length n \<le> 53 + j" and "n < 2 ^ 1000"
  shows "is_finite (f64_nearest neg n 1)"
    and "sign_bit (f64_nearest neg n 1) = neg"
    and "magnitude (f64_nearest neg n 1) = n * 2 ^ 1074"
proof -
  have "is_finite (f64_nearest neg n 1) \<and> sign_bit (f64_nearest neg n 1) = neg
      \<and> magnitude (f64_nearest neg n 1) = n * 2 ^ 1074"
  proof (cases "n = 0")
    case True
    then have "f64_nearest neg n 1 = word_of_nat ((if neg then 2 ^ 63 else 0) + 0)"
      by (simp add: f64_nearest_def f64_nearest_bits_def div_half_even_def bit_length.simps [of 0])
    with True f64_fields [of 0 neg] show ?thesis
      by (simp only: is_finite_def magnitude_def) simp
  next
    case False
    define bl where "bl = bit_length n"
    define k where "k = bl + 1021"
    have bl: "bl \<le> 1000" "0 < bl"
      using bit_length_mono [OF assms(3)] False by (simp_all add: bl_def bit_length.simps [of n])
    have k: "bit_length (n * 2 ^ 1074 div 1) - 53 = k"
      unfolding div_by_1 bit_length_double [OF False] by (simp add: k_def bl_def)
    have "2 ^ (bl - 53) dvd n"
      using dvd_trans [OF le_imp_power_dvd assms(1)] assms(2) by (simp add: bl_def)
    then obtain c where c: "n = c * 2 ^ (bl - 53)"
      by (auto simp: mult.commute)
    define q where "q = c * 2 ^ (bl - 53 + 1074 - k)"
    have "bl - 53 + 1074 - k + k = bl - 53 + 1074"
      using bl by (simp add: k_def)
    then have q: "n * 2 ^ 1074 = q * 2 ^ k"
      by (simp only: c q_def mult.assoc flip: power_add)
    have lo: "2 ^ 52 \<le> q"
    proof -
      have "2 ^ (bl - 1) * 2 ^ 1074 \<le> n * 2 ^ 1074"
        using bit_length_le [OF False] unfolding bl_def by (rule mult_le_mono1)
      moreover have "(2::nat) ^ (bl - 1) * 2 ^ 1074 = 2 ^ 52 * 2 ^ k"
        unfolding k_def using bl by (simp only: flip: power_add) simp
      ultimately show ?thesis
        by (simp only: q mult_le_cancel2) simp
    qed
    have hi: "q < 2 ^ 53"
    proof -
      have "n * 2 ^ 1074 < 2 ^ bl * 2 ^ 1074"
        using bit_length_less [of n] unfolding bl_def by simp
      moreover have "(2::nat) ^ bl * 2 ^ 1074 = 2 ^ 53 * 2 ^ k"
        unfolding k_def by (simp only: flip: power_add) simp
      ultimately show ?thesis
        by (simp only: q mult_less_cancel2)
    qed
    have "k < 2046"
      using bl by (simp add: k_def)
    note pat = f64_pattern [OF lo hi this, of neg]
    have "k * 2 ^ 52 \<le> 2045 * 2 ^ 52"
      using \<open>k < 2046\<close> by (intro mult_le_mono1) simp
    then have "k * 2 ^ 52 + q \<le> 2047 * 2 ^ 52"
      using hi by simp
    moreover have "div_half_even (n * 2 ^ 1074) (1 * 2 ^ k) = q"
      unfolding q mult_1 by (rule div_half_even_exact) simp
    ultimately have "f64_nearest_bits n 1 = k * 2 ^ 52 + q"
      unfolding f64_nearest_bits_def k Let_def by (simp only: min_absorb1)
    then have "f64_nearest neg n 1 = word_of_nat ((if neg then 2 ^ 63 else 0) + (k * 2 ^ 52 + q))"
      by (simp only: f64_nearest_def)
    with pat q \<open>k < 2046\<close> show ?thesis
      by (simp add: is_finite_def)
  qed
  then show "is_finite (f64_nearest neg n 1)" "sign_bit (f64_nearest neg n 1) = neg"
    "magnitude (f64_nearest neg n 1) = n * 2 ^ 1074"
    by blast+
qed

lemma f64_of_int_exact:
  assumes "2 ^ j dvd nat \<bar>i\<bar>" and "bit_length (nat \<bar>i\<bar>) \<le> 53 + j" and "nat \<bar>i\<bar> < 2 ^ 1000"
  shows "is_finite (f64_of_int i)" and "sign_bit (f64_of_int i) \<longleftrightarrow> i < 0"
    and "magnitude (f64_of_int i) = nat \<bar>i\<bar> * 2 ^ 1074" and "scaled (f64_of_int i) = i * 2 ^ 1074"
    and "fract_is_zero (f64_of_int i)" and "f64_trunc (f64_of_int i) = i"
proof -
  note e = f64_nearest_exact [OF assms, of "i < 0", folded f64_of_int_def]
  show "is_finite (f64_of_int i)" "sign_bit (f64_of_int i) \<longleftrightarrow> i < 0"
    and m: "magnitude (f64_of_int i) = nat \<bar>i\<bar> * 2 ^ 1074"
    by (fact e)+
  show "scaled (f64_of_int i) = i * 2 ^ 1074"
    by (simp only: scaled_def e m) simp
  show "fract_is_zero (f64_of_int i)"
    by (simp only: fract_is_zero_def e m) simp
  show "f64_trunc (f64_of_int i) = i"
    by (simp only: f64_trunc_def e m nonzero_mult_div_cancel_right) simp
qed

definition small_int :: "int \<Rightarrow> bool" where
  "small_int i \<longleftrightarrow> \<bar>i\<bar> < 2 ^ 53"

lemma small_int_conditions:
  assumes "small_int i"
  shows "2 ^ 0 dvd nat \<bar>i\<bar>" and "bit_length (nat \<bar>i\<bar>) \<le> 53 + 0" and "nat \<bar>i\<bar> < 2 ^ 1000"
proof -
  have "nat \<bar>i\<bar> < 2 ^ 53"
    using assms by (simp add: small_int_def nat_less_iff)
  then show "bit_length (nat \<bar>i\<bar>) \<le> 53 + 0" "nat \<bar>i\<bar> < 2 ^ 1000"
    using bit_length_mono by simp_all
qed simp

lemma f64_of_small_int:
  assumes "small_int i"
  shows "is_finite (f64_of_int i)" and "sign_bit (f64_of_int i) \<longleftrightarrow> i < 0"
    and "magnitude (f64_of_int i) = nat \<bar>i\<bar> * 2 ^ 1074" and "scaled (f64_of_int i) = i * 2 ^ 1074"
    and "fract_is_zero (f64_of_int i)" and "f64_trunc (f64_of_int i) = i"
  by (fact f64_of_int_exact [OF small_int_conditions [OF assms]])+

lemma finite_not_nan: "is_finite v \<Longrightarrow> \<not> is_nan v"
  by (simp add: is_finite_def is_nan_def)

lemma f64_le_int: "small_int i \<Longrightarrow> small_int j \<Longrightarrow> f64_le (f64_of_int i) (f64_of_int j) \<longleftrightarrow> i \<le> j"
  by (simp add: f64_le_def finite_not_nan f64_of_small_int)

lemma f64_eq_int: "small_int i \<Longrightarrow> small_int j \<Longrightarrow> f64_eq (f64_of_int i) (f64_of_int j) \<longleftrightarrow> i = j"
  by (simp add: f64_eq_def finite_not_nan f64_of_small_int)

text \<open>A finite value with no fraction, between two small integers, is the integer a cast gives.\<close>

lemma scaled_integral: "fract_is_zero v \<Longrightarrow> scaled v = f64_trunc v * 2 ^ 1074"
proof -
  assume "fract_is_zero v"
  then have "magnitude v = magnitude v div 2 ^ 1074 * 2 ^ 1074"
    by (metis fract_is_zero_def add.right_neutral div_mult_mod_eq)
  then have "int (magnitude v) = int (magnitude v div 2 ^ 1074) * 2 ^ 1074"
    by (metis of_nat_mult of_nat_numeral of_nat_power)
  then show ?thesis
    unfolding scaled_def f64_trunc_def by (simp only: mult_minus_left split: if_split) blast
qed

lemma f64_as_between:
  assumes "fract_is_zero v" and "f64_le (f64_of_int a) v" and "f64_le v (f64_of_int b)"
    and "small_int a" and "small_int b" and "lo \<le> a" and "b \<le> hi"
  shows "a \<le> f64_as lo hi v" and "f64_as lo hi v \<le> b"
proof -
  define K :: int where "K = 2 ^ 1074"
  have "0 < K"
    unfolding K_def by (rule zero_less_power) simp
  moreover have "a * K \<le> f64_trunc v * K" "f64_trunc v * K \<le> b * K"
    using assms(2,3) f64_of_small_int(4) [OF assms(4)] f64_of_small_int(4) [OF assms(5)]
      scaled_integral [OF assms(1)] by (simp_all only: f64_le_def K_def)
  ultimately have "a \<le> f64_trunc v" "f64_trunc v \<le> b"
    by (simp_all only: mult_le_cancel_right_pos)
  moreover have "\<not> is_nan v"
    using assms(2) by (simp add: f64_le_def)
  ultimately show "a \<le> f64_as lo hi v" "f64_as lo hi v \<le> b"
    using assms(6,7) by (simp_all add: f64_as_def)
qed

text \<open>The digits of a natural number, and of a negated one, parse to the double nearest to it.\<close>

lemma parse_f64_digits:
  assumes "ds \<noteq> []" and "all_digits ds"
  shows "parse_f64 ds = Some (f64_nearest False (digits_value ds) 1)"
    and "parse_f64 (0x2D # ds) = Some (f64_nearest True (digits_value ds) 1)"
proof -
  obtain b r where ds: "ds = b # r" "is_ascii_digit b"
    using assms by (cases ds) (auto simp: all_digits_def)
  then have "split_sign ds = (False, ds)"
    by (auto simp: split_sign_def is_ascii_digit_def)
  have w: "takeWhile is_ascii_digit ds = ds" "dropWhile is_ascii_digit ds = []"
    using assms by (simp_all add: all_digits_def list_all_iff)
  have sg: "split_sign (0x2D # ds) = (True, ds)"
    by (simp add: split_sign_def)
  have "parse_exponent [] = Some 0" "split_frac [] = ([], [])"
    by (simp_all add: parse_exponent_def split_frac_def)
  with \<open>split_sign ds = (False, ds)\<close> w sg assms(1)
  show "parse_f64 ds = Some (f64_nearest False (digits_value ds) 1)"
    and "parse_f64 (0x2D # ds) = Some (f64_nearest True (digits_value ds) 1)"
    unfolding parse_f64_def
    by (simp_all add: f64_of_decimal_def Let_def del: dropWhile_eq_Nil_conv takeWhile_eq_all_conv)
qed

end
