(* ===== verification/Number.thy ===== *)
theory Number
  imports F64
begin

text \<open>
  Canonical number formatting (\<open>src/format/number.rs\<close>): the C formats \<open>%lld\<close> and \<open>%.<p>g\<close>, computed
  from the exact decimal expansion of the double with a little-endian base \<open>2 ^ 32\<close> bignum. The limbs
  are 32-bit words; the \<open>u64\<close> intermediates of the bignum loops never exceed 64 bits and are \<open>nat\<close>,
  their truncation to a limb written as \<open>word_of_nat\<close>. Digits (\<open>Vec<u8>\<close>) are natural numbers.
\<close>

section \<open>The bignum\<close>

type_synonym big = "32 word list"

definition big_from_u64 :: "nat \<Rightarrow> big" where
  "big_from_u64 v = [word_of_nat v, word_of_nat (v div 2 ^ 32)]"

fun shl_loop :: "nat \<Rightarrow> 32 word \<Rightarrow> big \<Rightarrow> big" where
  "shl_loop n carry [] = (if carry \<noteq> 0 then [carry] else [])"
| "shl_loop n carry (l # ls) = (push_bit n l OR carry) # shl_loop n (drop_bit (32 - n) l) ls"

definition shl_bits :: "big \<Rightarrow> nat \<Rightarrow> big" where
  "shl_bits b n =
     (let b' = (if 32 \<le> n then replicate (n div 32) 0 @ b else b);
          rest = (if 32 \<le> n then n mod 32 else n)
      in if rest = 0 then b' else shl_loop rest 0 b')"

fun mul_loop :: "nat \<Rightarrow> nat \<Rightarrow> big \<Rightarrow> big" where
  "mul_loop m carry [] = (if carry \<noteq> 0 then [word_of_nat carry] else [])"
| "mul_loop m carry (l # ls) =
     (let prod = unat l * m + carry in word_of_nat prod # mul_loop m (prod div 2 ^ 32) ls)"

definition mul_small :: "big \<Rightarrow> nat \<Rightarrow> big" where
  "mul_small b m = mul_loop m 0 b"

fun mul_pow5 :: "big \<Rightarrow> nat \<Rightarrow> big" where
  "mul_pow5 b k =
     (if 13 \<le> k then mul_pow5 (mul_small b 1220703125) (k - 13)
      else ((\<lambda>b. mul_small b 5) ^^ k) b)"

declare mul_pow5.simps [simp del]

text \<open>The division runs from the most significant limb down; it returns the remainder too.\<close>

fun divmod_loop :: "nat \<Rightarrow> nat \<Rightarrow> big \<Rightarrow> big \<times> nat" where
  "divmod_loop d r [] = ([], r)"
| "divmod_loop d r (l # ls) =
     (let cur = r * 2 ^ 32 + unat l
      in case divmod_loop d (cur mod d) ls of (qs, r') \<Rightarrow> (word_of_nat (cur div d) # qs, r'))"

definition divmod_small :: "big \<Rightarrow> nat \<Rightarrow> big \<times> nat" where
  "divmod_small limbs d = (case divmod_loop d 0 (rev limbs) of (qs, r) \<Rightarrow> (rev qs, r))"

text \<open>The number the limbs stand for.\<close>

fun big_value :: "big \<Rightarrow> nat" where
  "big_value [] = 0"
| "big_value (l # ls) = unat l + 2 ^ 32 * big_value ls"

lemma big_value_append: "big_value (xs @ ys) = big_value xs + 2 ^ (32 * length xs) * big_value ys"
  by (induction xs) (simp_all add: power_add algebra_simps)

lemma big_value_zero: "big_value (replicate n 0) = 0"
  by (induction n) simp_all

lemma big_value_0_iff: "big_value b = 0 \<longleftrightarrow> list_all (\<lambda>l. l = 0) b"
  by (induction b) (auto simp: unat_eq_zero)

lemma limb_less: "unat (l :: 32 word) < 2 ^ 32"
  using unsigned_less [of l, where 'a = nat] by simp

lemma unat_limb: "unat (word_of_nat n :: 32 word) = n mod 2 ^ 32"
  by (simp add: unat_of_nat)

lemma divmod_loop_value:
  assumes "0 < d" and "d \<le> 2 ^ 32" and "r < d"
  shows "big_value (rev (fst (divmod_loop d r ls))) = (r * 2 ^ (32 * length ls) + big_value (rev ls)) div d
    \<and> snd (divmod_loop d r ls) = (r * 2 ^ (32 * length ls) + big_value (rev ls)) mod d
    \<and> length (fst (divmod_loop d r ls)) = length ls"
  using assms(3)
proof (induction ls arbitrary: r)
  case (Cons l ls)
  define cur where "cur = r * 2 ^ 32 + unat l"
  let ?t = "2 ^ (32 * length ls) :: nat"
  have "cur mod d < d"
    using assms(1) by simp
  note IH = Cons.IH [OF this]
  have "cur < d * 2 ^ 32"
  proof -
    have "cur < Suc r * 2 ^ 32"
      using limb_less [of l] by (simp add: cur_def)
    also have "\<dots> \<le> d * 2 ^ 32"
      using Cons.prems by (intro mult_le_mono1) simp
    finally show ?thesis .
  qed
  then have q: "cur div d < 2 ^ 32"
    by (simp add: less_mult_imp_div_less mult.commute)
  have "r * 2 ^ (32 * length (l # ls)) + big_value (rev (l # ls)) = cur * ?t + big_value (rev ls)"
    by (simp add: cur_def big_value_append power_add algebra_simps)
  also have "\<dots> = (cur mod d * ?t + big_value (rev ls)) + d * (cur div d * ?t)"
  proof -
    have "cur * ?t = (d * (cur div d) + cur mod d) * ?t"
      by simp
    then show ?thesis
      by (simp only: algebra_simps)
  qed
  finally have eq: "r * 2 ^ (32 * length (l # ls)) + big_value (rev (l # ls))
    = (cur mod d * ?t + big_value (rev ls)) + d * (cur div d * ?t)" .
  have step: "divmod_loop d r (l # ls) = (word_of_nat (cur div d) # fst (divmod_loop d (cur mod d) ls),
      snd (divmod_loop d (cur mod d) ls))"
    by (simp add: cur_def Let_def case_prod_unfold)
  show ?case
    unfolding eq step using IH assms(1) q by (simp add: big_value_append unat_limb)
qed simp

lemma divmod_small_value:
  assumes "0 < d" and "d \<le> 2 ^ 32" and "divmod_small b d = (q, r)"
  shows "big_value q = big_value b div d" and "r = big_value b mod d"
  using divmod_loop_value [OF assms(1,2,1), of "rev b"] assms(3)
  by (auto simp: divmod_small_def case_prod_unfold)

section \<open>Decimal digits\<close>

function decimal_groups :: "big \<Rightarrow> nat list" where
  "decimal_groups q =
     (if list_all (\<lambda>l. l = 0) q then []
      else case divmod_small q 1000000000 of (q', r) \<Rightarrow> r # decimal_groups q')"
  by pat_completeness auto
termination
proof (relation "measure big_value")
  fix q q' :: big and r
  assume nz: "\<not> list_all (\<lambda>l. l = 0) q" and dm: "(q', r) = divmod_small q 1000000000"
  have "big_value q \<noteq> 0"
    using nz by (simp add: big_value_0_iff)
  moreover have "big_value q' = big_value q div 1000000000"
    using divmod_small_value(1) [OF _ _ dm [symmetric]] by simp
  ultimately show "(q', q) \<in> measure big_value"
    by simp
qed simp

declare decimal_groups.simps [simp del]

fun low_digits :: "nat \<Rightarrow> nat list" where
  "low_digits t = (if t = 0 then [] else t mod 10 # low_digits (t div 10))"

declare low_digits.simps [simp del]

fun group_digits :: "nat \<Rightarrow> nat \<Rightarrow> nat list" where
  "group_digits g dv = (if dv = 0 then [] else g div dv mod 10 # group_digits g (dv div 10))"

declare group_digits.simps [simp del]

definition to_decimal :: "big \<Rightarrow> nat list" where
  "to_decimal b =
     (if list_all (\<lambda>l. l = 0) b then [0]
      else let groups = decimal_groups b
           in rev (low_digits (last groups))
              @ concat (map (\<lambda>g. group_digits g 100000000) (tl (rev groups))))"

definition exact_digits :: "nat \<Rightarrow> int \<Rightarrow> nat list \<times> int" where
  "exact_digits m e2 =
     (if 0 \<le> e2 then
        let digits = to_decimal (shl_bits (big_from_u64 m) (nat e2))
        in (digits, int (length digits) - 1)
      else
        let k = nat (- e2);
            digits = to_decimal (mul_pow5 (big_from_u64 m) k)
        in (digits, int (length digits) - 1 - int k))"

section \<open>Rounding\<close>

fun carry_loop :: "nat \<Rightarrow> nat list \<Rightarrow> nat list option" where
  "carry_loop 0 kept = None"
| "carry_loop (Suc i) kept =
     (if kept ! i = 9 then carry_loop i (kept[i := 0]) else Some (kept[i := kept ! i + 1]))"

definition rounds_up :: "nat list \<Rightarrow> nat \<Rightarrow> bool" where
  "rounds_up digits p =
     (let first_dropped = digits ! p
      in if 5 < first_dropped then True
         else if first_dropped < 5 then False
         else if list_all (\<lambda>d. d = 0) (drop (p + 1) digits) then take p digits ! (p - 1) mod 2 = 1
         else True)"

definition round_to :: "nat list \<Rightarrow> int \<Rightarrow> nat \<Rightarrow> nat list \<times> int" where
  "round_to digits x p =
     (if length digits \<le> p then (digits, x)
      else if \<not> rounds_up digits p then (take p digits, x)
      else case carry_loop p (take p digits) of
             None \<Rightarrow> (1 # replicate p 0, x + 1)
           | Some kept \<Rightarrow> (kept, x))"

section \<open>Formatting\<close>

fun pop_zeros :: "nat \<Rightarrow> nat list \<Rightarrow> nat list" where
  "pop_zeros 0 ds = ds"
| "pop_zeros (Suc n) ds = (if last ds = 0 then pop_zeros n (butlast ds) else ds)"

text \<open>\<open>while digits.len() > point && last == 0 { pop }\<close>.\<close>

definition strip_zeros :: "nat \<Rightarrow> nat list \<Rightarrow> nat list" where
  "strip_zeros point ds = pop_zeros (length ds - point) ds"

definition digit_str :: "nat list \<Rightarrow> rstr" where
  "digit_str ds = map digit ds"

definition two_digits :: "nat \<Rightarrow> rstr" where
  "two_digits n = (if n < 10 then 0x30 # show_nat n else show_nat n)"

definition e_style :: "rstr \<Rightarrow> nat list \<Rightarrow> int \<Rightarrow> rstr" where
  "e_style sg digits x =
     sg @ [digit (hd digits)]
       @ (if 1 < length digits then 0x2E # digit_str (tl digits) else [])
       @ 0x65 # (if x < 0 then 0x2D else 0x2B) # two_digits (nat \<bar>x\<bar>)"

definition f_style :: "rstr \<Rightarrow> nat list \<Rightarrow> int \<Rightarrow> rstr" where
  "f_style sg digits x =
     sg @ (if 0 \<le> x then
              let int_digits = min (nat (x + 1)) (length digits)
              in digit_str (take int_digits digits)
                 @ (if int_digits < length digits then 0x2E # digit_str (drop int_digits digits) else [])
            else lit ''0.'' @ replicate (nat (- x - 1)) 0x30 @ digit_str digits)"

definition format_g_precision :: "f64 \<Rightarrow> nat \<Rightarrow> rstr" where
  "format_g_precision v precision =
     (if is_nan v then (if sign_bit v then lit ''-nan'' else lit ''nan'')
      else if is_infinite v then (if scaled v < 0 then lit ''-inf'' else lit ''inf'')
      else
        let sg = (if sign_bit v \<and> scaled v \<noteq> 0 then lit ''-'' else []);
            e = raw_exp v; frac = frac_bits v;
            (m, e2) = (if e = 0 then (frac, -1074) else (frac + 2 ^ 52, int e - 1075));
            (ds, x0) = (if m = 0 then ([0], 0) else exact_digits m e2);
            (ds', x) = round_to ds x0 precision;
            digits = (if x < -4 \<or> int precision \<le> x then strip_zeros 1 ds'
                      else strip_zeros (nat (max 1 (x + 1))) ds')
        in if x < -4 \<or> int precision \<le> x then e_style sg digits x else f_style sg digits x)"

definition format_g :: "f64 \<Rightarrow> rstr" where
  "format_g v = format_g_precision v 8"

definition show_int :: "int \<Rightarrow> rstr" where
  "show_int i = (if i < 0 then 0x2D # show_nat (nat (- i)) else show_nat (nat i))"

definition gate :: int where "gate = 9200000000000000000"

definition format_json_number :: "f64 \<Rightarrow> rstr" where
  "format_json_number v =
     (if fract_is_zero v \<and> f64_le (f64_of_int (- gate)) v \<and> f64_le v (f64_of_int gate)
      then show_int (f64_as (- (2 ^ 63)) (2 ^ 63 - 1) v)
      else format_g v)"

end
