(* ===== verification/Json.thy ===== *)
theory Json
  imports Number Errors
begin

text \<open>
  The ordered JSON value, the cJSON-compatible parser and the canonical printer (\<open>src/json.rs\<close>). The
  parser keeps the source's structure: the position in the input, the current nesting depth, and the
  error that carries the position. The recursive functions take fuel, which counts calls;
  \<open>Json_Properties\<close> shows that the fuel \<open>parse\<close> supplies is always enough. \<open>None\<close> is running out of
  fuel, \<open>Inl\<close> an error of the code.
\<close>

section \<open>Values\<close>

datatype jvalue =
    Null
  | Bool bool
  | Number f64
  | String rstr
  | Array "jvalue list"
  | Object "(rstr \<times> jvalue) list"

definition NESTING_LIMIT :: nat where "NESTING_LIMIT = 1000"

declare NESTING_LIMIT_def [limits]

definition as_object :: "jvalue \<Rightarrow> (rstr \<times> jvalue) list option" where
  "as_object v = (case v of Object members \<Rightarrow> Some members | _ \<Rightarrow> None)"

text \<open>The first member with the key.\<close>

definition get :: "jvalue \<Rightarrow> rstr \<Rightarrow> jvalue option" where
  "get v key = (case v of Object members \<Rightarrow> map_of members key | _ \<Rightarrow> None)"

definition is_object :: "jvalue \<Rightarrow> bool" where
  "is_object v = (case v of Object _ \<Rightarrow> True | _ \<Rightarrow> False)"

definition is_array :: "jvalue \<Rightarrow> bool" where
  "is_array v = (case v of Array _ \<Rightarrow> True | _ \<Rightarrow> False)"

definition is_string :: "jvalue \<Rightarrow> bool" where
  "is_string v = (case v of String _ \<Rightarrow> True | _ \<Rightarrow> False)"

definition is_number :: "jvalue \<Rightarrow> bool" where
  "is_number v = (case v of Number _ \<Rightarrow> True | _ \<Rightarrow> False)"

text \<open>The pairwise comparison of the keys of one object.\<close>

fun repeated_key :: "(rstr \<times> jvalue) list \<Rightarrow> bool" where
  "repeated_key [] = False"
| "repeated_key ((key, v) # rest) = (list_ex (\<lambda>(other, _). key = other) rest \<or> repeated_key rest)"

fun has_duplicate_keys :: "jvalue \<Rightarrow> bool" where
  "has_duplicate_keys (Object members) =
     (repeated_key members \<or> (\<exists>kv\<in>set members. has_duplicate_keys (snd kv)))"
| "has_duplicate_keys (Array items) = (\<exists>v\<in>set items. has_duplicate_keys v)"
| "has_duplicate_keys Null = False"
| "has_duplicate_keys (Bool b) = False"
| "has_duplicate_keys (Number n) = False"
| "has_duplicate_keys (String s) = False"

section \<open>Errors\<close>

record json_error =
  je_position :: nat
  je_detail :: rstr

definition show_json_error :: "json_error \<Rightarrow> rstr" where
  "show_json_error e = je_detail e @ lit '' (at byte '' @ show_nat (je_position e) @ lit '')''"

definition json_to_error :: "json_error \<Rightarrow> error" where
  "json_to_error e = Json (show_json_error e)"

abbreviation err_at :: "nat \<Rightarrow> string \<Rightarrow> json_error + 'a" where
  "err_at pos detail \<equiv> Inl \<lparr>je_position = pos, je_detail = lit detail\<rparr>"

section \<open>Lexical level\<close>

definition peek :: "bytes \<Rightarrow> nat \<Rightarrow> byte option" where
  "peek bs pos = (if pos < length bs then Some (bs ! pos) else None)"

function skip_ws :: "bytes \<Rightarrow> nat \<Rightarrow> nat" where
  "skip_ws bs pos = (if pos < length bs \<and> bs ! pos \<le> 0x20 then skip_ws bs (pos + 1) else pos)"
  by pat_completeness auto
termination
  by (relation "measure (\<lambda>(bs, pos). length bs - pos)") auto

declare skip_ws.simps [simp del]

definition starts_at :: "bytes \<Rightarrow> nat \<Rightarrow> string \<Rightarrow> bool" where
  "starts_at bs pos s \<longleftrightarrow> strip_prefix (lit s) (drop pos bs) \<noteq> None"

text \<open>The scan for the closing quote: \<open>Inl\<close> the position of a backslash that ends the input.\<close>

function find_quote :: "bytes \<Rightarrow> nat \<Rightarrow> nat + nat" where
  "find_quote bs i =
     (if i < length bs then
        (if bs ! i = 0x22 then Inr i
         else if bs ! i = 0x5C then
           (if length bs \<le> i + 1 then Inl i else find_quote bs (i + 2))
         else find_quote bs (i + 1))
      else Inr i)"
  by pat_completeness auto
termination
  by (relation "measure (\<lambda>(bs, i). length bs - i)") auto

declare find_quote.simps [simp del]

definition hex_value :: "byte \<Rightarrow> nat option" where
  "hex_value b =
     (if 0x30 \<le> b \<and> b \<le> 0x39 then Some (unat (b - 0x30))
      else if 0x61 \<le> b \<and> b \<le> 0x66 then Some (unat (b - 0x61 + 10))
      else if 0x41 \<le> b \<and> b \<le> 0x46 then Some (unat (b - 0x41 + 10))
      else None)"

fun hex_digits_value :: "nat \<Rightarrow> bytes \<Rightarrow> nat option" where
  "hex_digits_value acc [] = Some acc"
| "hex_digits_value acc (b # bs) =
     (case hex_value b of None \<Rightarrow> None | Some h \<Rightarrow> hex_digits_value (acc * 16 + h) bs)"

text \<open>\<open>char::from_u32\<close> and \<open>String::push\<close>.\<close>

definition is_scalar :: "nat \<Rightarrow> bool" where
  "is_scalar c \<longleftrightarrow> c \<le> 0x10FFFF \<and> \<not> (0xD800 \<le> c \<and> c \<le> 0xDFFF)"

definition utf8_encode :: "nat \<Rightarrow> bytes" where
  "utf8_encode c = map word_of_nat
     (if c < 0x80 then [c]
      else if c < 0x800 then [0xC0 + c div 64, 0x80 + c mod 64]
      else if c < 0x10000 then [0xE0 + c div 4096, 0x80 + c div 64 mod 64, 0x80 + c mod 64]
      else [0xF0 + c div 262144, 0x80 + c div 4096 mod 64, 0x80 + c div 64 mod 64, 0x80 + c mod 64])"

text \<open>A \<open>\u\<close> escape, given what follows the \<open>u\<close>: the code point and the number of bytes it takes.\<close>

definition unicode_escape :: "bytes \<Rightarrow> rstr + (nat \<times> nat)" where
  "unicode_escape rest =
     (if length rest < 4 then Inl (lit (''truncated '' @ [CHR 0x5C] @ ''u escape''))
      else case hex_digits_value 0 (take 4 rest) of
        None \<Rightarrow> Inl (lit (''invalid '' @ [CHR 0x5C] @ ''u escape''))
      | Some code \<Rightarrow>
          if 0xDC00 \<le> code \<and> code \<le> 0xDFFF then Inl (lit ''lone low surrogate'')
          else if 0xD800 \<le> code \<and> code \<le> 0xDBFF then
            (if length rest < 10 \<or> rest ! 4 \<noteq> 0x5C \<or> rest ! 5 \<noteq> 0x75
             then Inl (lit ''unpaired high surrogate'')
             else case hex_digits_value 0 (slice rest 6 10) of
               None \<Rightarrow> Inl (lit (''invalid '' @ [CHR 0x5C] @ ''u escape''))
             | Some low \<Rightarrow>
                 if \<not> (0xDC00 \<le> low \<and> low \<le> 0xDFFF) then Inl (lit ''invalid low surrogate'')
                 else Inr (0x10000 + code mod 1024 * 1024 + low mod 1024, 10))
          else Inr (code, 4))"

text \<open>The decoding loop over a string literal, the text between the quotes.\<close>

function decode_literal :: "bytes \<Rightarrow> rstr + rstr" where
  "decode_literal [] = Inr []"
| "decode_literal (c # cs) =
     (if c \<noteq> 0x5C then
        let run = takeWhile (\<lambda>b. b \<noteq> 0x5C) (c # cs)
        in if \<not> utf8_valid run then Inl (lit ''invalid UTF-8 in string'')
           else map_sum id (\<lambda>out. run @ out) (decode_literal (dropWhile (\<lambda>b. b \<noteq> 0x5C) (c # cs)))
      else case cs of
        [] \<Rightarrow> Inl (lit ''unterminated escape'')
      | esc # rest \<Rightarrow>
          if esc = 0x62 then map_sum id (\<lambda>out. 0x08 # out) (decode_literal rest)
          else if esc = 0x66 then map_sum id (\<lambda>out. 0x0C # out) (decode_literal rest)
          else if esc = 0x6E then map_sum id (\<lambda>out. 0x0A # out) (decode_literal rest)
          else if esc = 0x72 then map_sum id (\<lambda>out. 0x0D # out) (decode_literal rest)
          else if esc = 0x74 then map_sum id (\<lambda>out. 0x09 # out) (decode_literal rest)
          else if esc = 0x22 \<or> esc = 0x5C \<or> esc = 0x2F then map_sum id (\<lambda>out. esc # out) (decode_literal rest)
          else if esc = 0x75 then
            (case unicode_escape rest of
               Inl e \<Rightarrow> Inl e
             | Inr (cp, n) \<Rightarrow>
                 if \<not> is_scalar cp then Inl (lit ''invalid codepoint'')
                 else map_sum id (\<lambda>out. utf8_encode cp @ out) (decode_literal (drop n rest)))
          else Inl (lit ''invalid escape''))"
  by pat_completeness auto
termination
  by (relation "measure length") (auto simp: less_Suc_eq_le length_dropWhile_le)

declare decode_literal.simps(2) [simp del]

definition parse_string :: "bytes \<Rightarrow> nat \<Rightarrow> json_error + (rstr \<times> nat)" where
  "parse_string bs pos =
     (if peek bs pos \<noteq> Some 0x22 then err_at pos ''expected string''
      else case find_quote bs (pos + 1) of
        Inl i \<Rightarrow> err_at i ''unterminated escape''
      | Inr close \<Rightarrow>
          if length bs \<le> close then err_at pos ''unterminated string''
          else case decode_literal (slice bs (pos + 1) close) of
            Inl detail \<Rightarrow> Inl \<lparr>je_position = pos, je_detail = detail\<rparr>
          | Inr out \<Rightarrow> Inr (takeWhile (\<lambda>b. b \<noteq> 0) out, close + 1))"

definition is_number_byte :: "byte \<Rightarrow> bool" where
  "is_number_byte b \<longleftrightarrow> is_ascii_digit b \<or> b = 0x2B \<or> b = 0x2D \<or> b = 0x65 \<or> b = 0x45 \<or> b = 0x2E"

definition digit_run :: "bytes \<Rightarrow> nat \<Rightarrow> nat" where
  "digit_run bs i = length (takeWhile is_ascii_digit (drop i bs))"

definition strtod_scan :: "bytes \<Rightarrow> nat" where
  "strtod_scan bs =
     (let i0 = (if peek bs 0 = Some 0x2B \<or> peek bs 0 = Some 0x2D then 1 else 0);
          int_digits = digit_run bs i0;
          i1 = i0 + int_digits;
          frac_digits = (if peek bs i1 = Some 0x2E then digit_run bs (i1 + 1) else 0);
          i2 = (if peek bs i1 = Some 0x2E then i1 + 1 + frac_digits else i1)
      in if int_digits = 0 \<and> frac_digits = 0 then 0
         else if peek bs i2 = Some 0x65 \<or> peek bs i2 = Some 0x45 then
           let j = (if peek bs (i2 + 1) = Some 0x2B \<or> peek bs (i2 + 1) = Some 0x2D then i2 + 2 else i2 + 1)
           in if 0 < digit_run bs j then j + digit_run bs j else i2
         else i2)"

definition parse_number :: "bytes \<Rightarrow> nat \<Rightarrow> json_error + (jvalue \<times> nat)" where
  "parse_number bs pos =
     (let prefix = takeWhile is_number_byte (take 63 (drop pos bs));
          consumed = strtod_scan prefix
      in if consumed = 0 then err_at pos ''invalid number''
         else case parse_f64 (take consumed prefix) of
           None \<Rightarrow> err_at pos ''invalid number''
         | Some v \<Rightarrow> Inr (Number v, pos + consumed))"

section \<open>The recursive parser\<close>

text \<open>
  The recursion goes through three entry points: a value, the loop of an array and the loop of an
  object; a loop carries what it has collected. Each function of the code takes the recursive call as
  its argument \<open>call\<close>, and \<open>run_parser\<close> ties the knot, one unit of fuel for each call.
\<close>

datatype entry = Value | Items "jvalue list" | Members "(rstr \<times> jvalue) list"

type_synonym parsed = "(json_error + (jvalue \<times> nat)) option"
type_synonym parser = "entry \<Rightarrow> nat \<Rightarrow> nat \<Rightarrow> parsed"

definition parse_array :: "parser \<Rightarrow> bytes \<Rightarrow> nat \<Rightarrow> nat \<Rightarrow> parsed" where
  "parse_array call bs pos depth =
     (if NESTING_LIMIT \<le> depth then Some (err_at pos ''nesting too deep'')
      else
        let p = skip_ws bs (pos + 1)
        in if peek bs p = Some 0x5D then Some (Inr (Array [], p + 1))
           else call (Items []) p (depth + 1))"

definition parse_items :: "parser \<Rightarrow> bytes \<Rightarrow> jvalue list \<Rightarrow> nat \<Rightarrow> nat \<Rightarrow> parsed" where
  "parse_items call bs items pos depth =
     (case call Value (skip_ws bs pos) depth of
        None \<Rightarrow> None
      | Some (Inl e) \<Rightarrow> Some (Inl e)
      | Some (Inr (v, p)) \<Rightarrow>
          let q = skip_ws bs p
          in if peek bs q = Some 0x2C then call (Items (items @ [v])) (q + 1) depth
             else if peek bs q = Some 0x5D then Some (Inr (Array (items @ [v]), q + 1))
             else Some (err_at q (''expected '' @ [CHR 0x27] @ '','' @ [CHR 0x27] @ '' or '' @ [CHR 0x27] @ '']'' @ [CHR 0x27])))"

definition parse_object :: "parser \<Rightarrow> bytes \<Rightarrow> nat \<Rightarrow> nat \<Rightarrow> parsed" where
  "parse_object call bs pos depth =
     (if NESTING_LIMIT \<le> depth then Some (err_at pos ''nesting too deep'')
      else
        let p = skip_ws bs (pos + 1)
        in if peek bs p = Some 0x7D then Some (Inr (Object [], p + 1))
           else call (Members []) p (depth + 1))"

definition parse_members :: "parser \<Rightarrow> bytes \<Rightarrow> (rstr \<times> jvalue) list \<Rightarrow> nat \<Rightarrow> nat \<Rightarrow> parsed" where
  "parse_members call bs members pos depth =
     (case parse_string bs (skip_ws bs pos) of
        Inl e \<Rightarrow> Some (Inl e)
      | Inr (key, p) \<Rightarrow>
          let c = skip_ws bs p
          in if peek bs c \<noteq> Some 0x3A then Some (err_at c (''expected '' @ [CHR 0x27] @ '':'' @ [CHR 0x27]))
             else case call Value (skip_ws bs (c + 1)) depth of
               None \<Rightarrow> None
             | Some (Inl e) \<Rightarrow> Some (Inl e)
             | Some (Inr (v, p')) \<Rightarrow>
                 let q = skip_ws bs p'
                 in if peek bs q = Some 0x2C then call (Members (members @ [(key, v)])) (q + 1) depth
                    else if peek bs q = Some 0x7D then Some (Inr (Object (members @ [(key, v)]), q + 1))
                    else Some (err_at q (''expected '' @ [CHR 0x27] @ '','' @ [CHR 0x27] @ '' or '' @ [CHR 0x27] @ ''}'' @ [CHR 0x27])))"

definition parse_value :: "parser \<Rightarrow> bytes \<Rightarrow> nat \<Rightarrow> nat \<Rightarrow> parsed" where
  "parse_value call bs pos depth =
     (case peek bs pos of
        None \<Rightarrow> Some (err_at pos ''unexpected end of input'')
      | Some c \<Rightarrow>
          if c = 0x6E \<and> starts_at bs pos ''null'' then Some (Inr (Null, pos + 4))
          else if c = 0x66 \<and> starts_at bs pos ''false'' then Some (Inr (Bool False, pos + 5))
          else if c = 0x74 \<and> starts_at bs pos ''true'' then Some (Inr (Bool True, pos + 4))
          else if c = 0x22 then Some (map_sum id (\<lambda>(s, p). (String s, p)) (parse_string bs pos))
          else if c = 0x2D \<or> is_ascii_digit c then Some (parse_number bs pos)
          else if c = 0x5B then parse_array call bs pos depth
          else if c = 0x7B then parse_object call bs pos depth
          else Some (err_at pos ''unexpected character''))"

fun run_parser :: "nat \<Rightarrow> bytes \<Rightarrow> parser" where
  "run_parser 0 bs entry pos depth = None"
| "run_parser (Suc f) bs entry pos depth =
     (case entry of
        Value \<Rightarrow> parse_value (run_parser f bs) bs pos depth
      | Items items \<Rightarrow> parse_items (run_parser f bs) bs items pos depth
      | Members members \<Rightarrow> parse_members (run_parser f bs) bs members pos depth)"

text \<open>\<open>Utf8Error::valid_up_to\<close>: the greatest index up to which the input is valid.\<close>

definition valid_up_to :: "bytes \<Rightarrow> nat" where
  "valid_up_to bs = last (filter (\<lambda>n. utf8_valid (take n bs)) [0..<Suc (length bs)])"

definition parse_fuel :: "bytes \<Rightarrow> nat" where
  "parse_fuel bs = 2 * length bs + 3"

definition parse :: "bytes \<Rightarrow> (json_error + jvalue) option" where
  "parse bs =
     (if \<not> utf8_valid bs then Some (err_at (valid_up_to bs) ''input is not valid UTF-8'')
      else
        let start = (if take 3 bs = BOM then 3 else 0)
        in case run_parser (parse_fuel bs) bs Value (skip_ws bs start) 0 of
             None \<Rightarrow> None
           | Some (Inl e) \<Rightarrow> Some (Inl e)
           | Some (Inr (v, p)) \<Rightarrow>
               let q = skip_ws bs p
               in if q < length bs then Some (err_at q ''trailing data after JSON document'')
                  else Some (Inr v))"

section \<open>The canonical printer\<close>

definition print_indent :: "nat \<Rightarrow> rstr" where
  "print_indent depth = concat (replicate depth (lit ''  ''))"

definition HEX_DIGITS :: bytes where
  "HEX_DIGITS = lit ''0123456789abcdef''"

definition escape_byte :: "byte \<Rightarrow> rstr" where
  "escape_byte c =
     (if c = 0x22 then [0x5C, 0x22]
      else if c = 0x5C then [0x5C, 0x5C]
      else if c < 0x20 then [0x5C, 0x75, 0x30, 0x30, HEX_DIGITS ! (unat c div 16), HEX_DIGITS ! (unat c mod 16)]
      else [c])"

definition print_string :: "rstr \<Rightarrow> rstr" where
  "print_string s = 0x22 # concat (map escape_byte s) @ [0x22]"

fun print_value :: "nat \<Rightarrow> jvalue \<Rightarrow> rstr"
  and print_items :: "nat \<Rightarrow> jvalue list \<Rightarrow> rstr"
  and print_members :: "nat \<Rightarrow> (rstr \<times> jvalue) list \<Rightarrow> rstr"
where
  "print_value depth Null = lit ''null''"
| "print_value depth (Bool b) = (if b then lit ''true'' else lit ''false'')"
| "print_value depth (Number n) = format_json_number n"
| "print_value depth (String s) = print_string s"
| "print_value depth (Array items) =
     (if items = [] then lit ''[]''
      else 0x5B # LF # print_items (depth + 1) items @ print_indent depth @ [0x5D])"
| "print_value depth (Object members) =
     (if members = [] then lit ''{}''
      else 0x7B # LF # print_members (depth + 1) members @ print_indent depth @ [0x7D])"
| "print_items depth [] = []"
| "print_items depth (v # vs) =
     print_indent depth @ print_value depth v @ (if vs \<noteq> [] then [0x2C, LF] else [LF]) @ print_items depth vs"
| "print_members depth [] = []"
| "print_members depth ((key, v) # kvs) =
     print_indent depth @ print_string key @ [0x3A, 0x20] @ print_value depth v
       @ (if kvs \<noteq> [] then [0x2C, LF] else [LF]) @ print_members depth kvs"

definition print_canonical :: "jvalue \<Rightarrow> rstr" where
  "print_canonical v = print_value 0 v @ [LF]"

end
