(* ===== verification/Manifest.thy ===== *)
theory Manifest
  imports Json Paths Checksums
begin

text \<open>
  The manifest model (\<open>src/format/manifest/mod.rs\<close>): the closed enumerations with their manifest
  strings, the records of the logical model with the source's fields, the presence tests, the loudness
  range and the list of referenced paths. \<open>i32\<close> and \<open>u64\<close> fields are \<open>int\<close>, \<open>f64\<close> fields bit patterns.
\<close>

definition FORMAT_ID :: rstr where "FORMAT_ID = lit ''musicpack''"
definition SCHEMA_VERSION :: nat where "SCHEMA_VERSION = 1"

section \<open>Closed enumerations\<close>

datatype release_type = RtAlbum | RtEp | RtSingle | RtMaxiSingle | RtCompilation | RtSoundtrack
  | RtLiveAlbum | RtRemixAlbum | RtBoxSet | RtOther

datatype medium_format = MfCd | MfSacd | MfVinyl | MfCassette | MfDigital | MfBluRayAudio | MfDvdAudio | MfOther

datatype identity_source = IsMusicBrainz | IsStore | IsLocal

datatype identity_confidence = IcExact | IcConfirmed | IcProbable | IcNone

fun release_type_str :: "release_type \<Rightarrow> string" where
  "release_type_str RtAlbum = ''album''"
| "release_type_str RtEp = ''ep''"
| "release_type_str RtSingle = ''single''"
| "release_type_str RtMaxiSingle = ''maxi-single''"
| "release_type_str RtCompilation = ''compilation''"
| "release_type_str RtSoundtrack = ''soundtrack''"
| "release_type_str RtLiveAlbum = ''live-album''"
| "release_type_str RtRemixAlbum = ''remix-album''"
| "release_type_str RtBoxSet = ''box-set''"
| "release_type_str RtOther = ''other''"

fun medium_format_str :: "medium_format \<Rightarrow> string" where
  "medium_format_str MfCd = ''CD''"
| "medium_format_str MfSacd = ''SACD''"
| "medium_format_str MfVinyl = ''Vinyl''"
| "medium_format_str MfCassette = ''Cassette''"
| "medium_format_str MfDigital = ''Digital''"
| "medium_format_str MfBluRayAudio = ''Blu-ray Audio''"
| "medium_format_str MfDvdAudio = ''DVD-Audio''"
| "medium_format_str MfOther = ''Other''"

fun identity_source_str :: "identity_source \<Rightarrow> string" where
  "identity_source_str IsMusicBrainz = ''musicbrainz''"
| "identity_source_str IsStore = ''store''"
| "identity_source_str IsLocal = ''local''"

fun identity_confidence_str :: "identity_confidence \<Rightarrow> string" where
  "identity_confidence_str IcExact = ''exact''"
| "identity_confidence_str IcConfirmed = ''confirmed''"
| "identity_confidence_str IcProbable = ''probable''"
| "identity_confidence_str IcNone = ''none''"

text \<open>The \<open>match\<close> on string literals, as a lookup in the list of its arms.\<close>

definition release_type_parse :: "rstr \<Rightarrow> release_type option" where
  "release_type_parse = map_of
     [(lit ''album'', RtAlbum), (lit ''ep'', RtEp), (lit ''single'', RtSingle), (lit ''maxi-single'', RtMaxiSingle),
      (lit ''compilation'', RtCompilation), (lit ''soundtrack'', RtSoundtrack), (lit ''live-album'', RtLiveAlbum),
      (lit ''remix-album'', RtRemixAlbum), (lit ''box-set'', RtBoxSet), (lit ''other'', RtOther)]"

definition medium_format_parse :: "rstr \<Rightarrow> medium_format option" where
  "medium_format_parse = map_of
     [(lit ''CD'', MfCd), (lit ''SACD'', MfSacd), (lit ''Vinyl'', MfVinyl), (lit ''Cassette'', MfCassette),
      (lit ''Digital'', MfDigital), (lit ''Blu-ray Audio'', MfBluRayAudio), (lit ''DVD-Audio'', MfDvdAudio),
      (lit ''Other'', MfOther)]"

definition identity_source_parse :: "rstr \<Rightarrow> identity_source option" where
  "identity_source_parse = map_of
     [(lit ''musicbrainz'', IsMusicBrainz), (lit ''store'', IsStore), (lit ''local'', IsLocal)]"

definition identity_confidence_parse :: "rstr \<Rightarrow> identity_confidence option" where
  "identity_confidence_parse = map_of
     [(lit ''exact'', IcExact), (lit ''confirmed'', IcConfirmed), (lit ''probable'', IcProbable), (lit ''none'', IcNone)]"

section \<open>Loudness\<close>

definition LOUDNESS_MIN_DB :: f64 where "LOUDNESS_MIN_DB = f64_of_int (- 70)"
definition LOUDNESS_MAX_DB :: f64 where "LOUDNESS_MAX_DB = f64_of_int 6"

definition is_valid_loudness_value :: "f64 \<Rightarrow> bool" where
  "is_valid_loudness_value v \<longleftrightarrow> is_finite v \<and> f64_le LOUDNESS_MIN_DB v \<and> f64_le v LOUDNESS_MAX_DB"

section \<open>The model\<close>

record asset =
  as_path :: rstr
  as_sha256 :: rstr

record artist =
  ar_name :: rstr
  ar_role :: "rstr option"
  ar_musicbrainz_id :: "rstr option"
  ar_sort_name :: "rstr option"

record album =
  al_title :: rstr
  al_artists :: "artist list"
  al_release_type :: "release_type option"
  al_original_release_date :: "rstr option"
  al_genres :: "rstr list"

record release =
  re_release_date :: "rstr option"
  re_edition :: "rstr option"
  re_country :: "rstr option"
  re_label :: "rstr option"
  re_catalogue_number :: "rstr option"
  re_notes :: "rstr option"

definition release_present :: "release \<Rightarrow> bool" where
  "release_present r \<longleftrightarrow> re_release_date r \<noteq> None \<or> re_edition r \<noteq> None \<or> re_country r \<noteq> None
     \<or> re_label r \<noteq> None \<or> re_catalogue_number r \<noteq> None \<or> re_notes r \<noteq> None"

record identifiers =
  id_musicbrainz_release_group_id :: "rstr option"
  id_musicbrainz_release_id :: "rstr option"
  id_barcode :: "rstr option"

definition identifiers_present :: "identifiers \<Rightarrow> bool" where
  "identifiers_present i \<longleftrightarrow> id_musicbrainz_release_group_id i \<noteq> None
     \<or> id_musicbrainz_release_id i \<noteq> None \<or> id_barcode i \<noteq> None"

record identity =
  iy_source :: "identity_source option"
  iy_confidence :: "identity_confidence option"

definition identity_present :: "identity \<Rightarrow> bool" where
  "identity_present i \<longleftrightarrow> iy_source i \<noteq> None \<or> iy_confidence i \<noteq> None"

record source =
  so_kind :: "rstr option"
  so_store :: "rstr option"
  so_id :: "rstr option"

definition source_present :: "source \<Rightarrow> bool" where
  "source_present s \<longleftrightarrow> so_kind s \<noteq> None \<or> so_store s \<noteq> None \<or> so_id s \<noteq> None"

record track_identifiers =
  ti_isrc :: "rstr option"
  ti_musicbrainz_track_id :: "rstr option"
  ti_musicbrainz_recording_id :: "rstr option"

definition track_identifiers_present :: "track_identifiers \<Rightarrow> bool" where
  "track_identifiers_present i \<longleftrightarrow> ti_isrc i \<noteq> None \<or> ti_musicbrainz_track_id i \<noteq> None
     \<or> ti_musicbrainz_recording_id i \<noteq> None"

record track_source =
  ts_store :: "rstr option"
  ts_track_id :: "rstr option"

definition track_source_present :: "track_source \<Rightarrow> bool" where
  "track_source_present s \<longleftrightarrow> ts_store s \<noteq> None \<or> ts_track_id s \<noteq> None"

record source_audio =
  sa_codec :: "rstr option"
  sa_md5 :: "rstr option"

definition source_audio_present :: "source_audio \<Rightarrow> bool" where
  "source_audio_present s \<longleftrightarrow> sa_codec s \<noteq> None \<or> sa_md5 s \<noteq> None"

record loudness =
  lo_lufs :: f64
  lo_true_peak_db :: f64

record album_loudness =
  ll_algorithm :: "rstr option"
  ll_lufs :: f64
  ll_true_peak_db :: f64

record waveform_ref =
  wf_path :: rstr
  wf_sha256 :: rstr
  wf_points :: int

record representation =
  rp_path :: rstr
  rp_sha256 :: rstr
  rp_label :: "rstr option"
  rp_codec :: "rstr option"

record lyrics_ref =
  ly_path :: rstr
  ly_sha256 :: rstr
  ly_lang :: "rstr option"

record analysis =
  an_kind :: rstr
  an_profile :: "rstr option"
  an_asset :: asset

record provenance =
  pv_tool :: "rstr option"
  pv_tool_version :: "rstr option"

definition provenance_present :: "provenance \<Rightarrow> bool" where
  "provenance_present p \<longleftrightarrow> pv_tool p \<noteq> None \<or> pv_tool_version p \<noteq> None"

record track =
  tr_number :: int
  tr_title :: rstr
  tr_artists :: "artist list"
  tr_identifiers :: "track_identifiers option"
  tr_source :: "track_source option"
  tr_source_audio :: "source_audio option"
  tr_duration :: "f64 option"
  tr_loudness :: "loudness option"
  tr_audio :: asset
  tr_audio_codec :: "rstr option"
  tr_waveform :: "waveform_ref option"
  tr_lyrics :: "lyrics_ref list"
  tr_representations :: "representation list"

record disc =
  di_number :: int
  di_format :: "medium_format option"
  di_title :: "rstr option"
  di_tracks :: "track list"

record artwork =
  aw_role :: rstr
  aw_asset :: asset

record manifest =
  mf_album :: album
  mf_release :: "release option"
  mf_identifiers :: "identifiers option"
  mf_identity :: "identity option"
  mf_source :: "source option"
  mf_media :: "disc list"
  mf_artwork :: "artwork list"
  mf_booklet :: "asset list"
  mf_lyrics :: "asset list"
  mf_extras :: "asset list"
  mf_analysis :: "analysis list"
  mf_loudness :: "album_loudness option"
  mf_provenance :: "provenance option"

section \<open>Referenced paths\<close>

definition track_paths :: "track \<Rightarrow> rstr list" where
  "track_paths t = as_path (tr_audio t)
     # (case tr_waveform t of Some w \<Rightarrow> [wf_path w] | None \<Rightarrow> [])
     @ map rp_path (tr_representations t)
     @ map ly_path (tr_lyrics t)"

definition shared_paths :: "manifest \<Rightarrow> rstr list" where
  "shared_paths m = map (\<lambda>a. as_path (aw_asset a)) (mf_artwork m) @ map as_path (mf_booklet m)
     @ map as_path (mf_lyrics m) @ map as_path (mf_extras m) @ map (\<lambda>a. as_path (an_asset a)) (mf_analysis m)"

definition referenced_paths :: "manifest \<Rightarrow> rstr list" where
  "referenced_paths m = concat (map (\<lambda>d. concat (map track_paths (di_tracks d))) (mf_media m)) @ shared_paths m"

end
