(* ===== verification/Manifest_Parse.thy ===== *)
theory Manifest_Parse
  imports Manifest
begin

text \<open>
  Strict manifest parsing (\<open>src/format/manifest/parse.rs\<close>), with the budgets of \<open>src/limits.rs\<close> and the
  closed values of \<open>src/format/waveform.rs\<close>. The \<open>?\<close> operator is \<open>and_then\<close>; sections are parsed in the
  source's order, which decides the error a document with two faults gets.
\<close>

section \<open>Sequencing of fallible steps\<close>

definition and_then :: "'e + 'a \<Rightarrow> ('a \<Rightarrow> 'e + 'b) \<Rightarrow> 'e + 'b" where
  "and_then r f = (case r of Inl e \<Rightarrow> Inl e | Inr x \<Rightarrow> f x)"

lemma and_then_simps [simp]: "and_then (Inr x) f = f x" "and_then (Inl e) f = Inl e"
  by (simp_all add: and_then_def)

lemma and_then_Inr: "and_then r f = Inr y \<longleftrightarrow> (\<exists>x. r = Inr x \<and> f x = Inr y)"
  by (cases r) simp_all

text \<open>A loop that pushes the result of each element, and stops at the first error.\<close>

fun collect :: "('a \<Rightarrow> 'e + 'b) \<Rightarrow> 'a list \<Rightarrow> 'e + 'b list" where
  "collect f [] = Inr []"
| "collect f (x # xs) = and_then (f x) (\<lambda>y. and_then (collect f xs) (\<lambda>ys. Inr (y # ys)))"

lemma collect_Inr: "collect f xs = Inr ys \<longleftrightarrow> list_all2 (\<lambda>x y. f x = Inr y) xs ys"
proof (induction xs arbitrary: ys)
  case Nil
  then show ?case by auto
next
  case (Cons x xs)
  then show ?case by (cases ys) (auto simp: and_then_Inr)
qed

section \<open>Budgets\<close>

definition MAX_DISCS :: nat where "MAX_DISCS = 32"
definition MAX_TRACKS_PER_DISC :: nat where "MAX_TRACKS_PER_DISC = 512"
definition MAX_ARTISTS_PER_CREDIT :: nat where "MAX_ARTISTS_PER_CREDIT = 64"
definition MAX_GENRES :: nat where "MAX_GENRES = 64"
definition MAX_ARTWORK :: nat where "MAX_ARTWORK = 32"
definition MAX_BOOKLET :: nat where "MAX_BOOKLET = 32"
definition MAX_LYRICS :: nat where "MAX_LYRICS = 512"
definition MAX_EXTRAS :: nat where "MAX_EXTRAS = 256"
definition MAX_ANALYSIS :: nat where "MAX_ANALYSIS = 32"

definition WAVEFORM_VERSION :: int where "WAVEFORM_VERSION = 1"
definition INTERVAL_MS :: int where "INTERVAL_MS = 100"
definition ENCODING :: rstr where "ENCODING = lit ''peak-rms-u8''"
definition FLOOR_DB :: int where "FLOOR_DB = - 60"
definition WAVEFORM_MAX_POINTS :: int where "WAVEFORM_MAX_POINTS = 864000"

definition i32_max :: int where "i32_max = 2147483647"

section \<open>Field helpers\<close>

definition quoted :: "rstr \<Rightarrow> rstr" where
  "quoted s = 0x22 # s @ [0x22]"

definition bad :: "rstr \<Rightarrow> error + 'a" where
  "bad detail = Inl (Invalid detail)"

lemma bad_not_Inr [simp]: "bad d \<noteq> Inr x" "and_then (bad d) f = bad d"
  by (simp_all add: bad_def)

definition exceeds :: "rstr \<Rightarrow> nat \<Rightarrow> nat \<Rightarrow> error + 'a" where
  "exceeds what n limit =
     bad (what @ lit '' has '' @ show_nat n @ lit '' entries; exceeds the limit of '' @ show_nat limit)"

lemma exceeds_not_Inr [simp]: "exceeds w n l \<noteq> Inr x"
  by (simp add: exceeds_def)

definition require_object :: "jvalue option \<Rightarrow> string \<Rightarrow> error + jvalue" where
  "require_object v what = (case v of
      Some v' \<Rightarrow> if is_object v' then Inr v' else bad (quoted (lit what) @ lit '' must be an object'')
    | None \<Rightarrow> bad (quoted (lit what) @ lit '' must be an object''))"

definition require_array :: "jvalue option \<Rightarrow> string \<Rightarrow> error + jvalue list" where
  "require_array v what = (case v of
      Some (Array a) \<Rightarrow> Inr a
    | _ \<Rightarrow> bad (quoted (lit what) @ lit '' must be an array''))"

definition require_string :: "jvalue \<Rightarrow> string \<Rightarrow> error + rstr" where
  "require_string obj key = (case get obj (lit key) of
      Some (String s) \<Rightarrow> if s \<noteq> [] then Inr s
        else bad (quoted (lit key) @ lit '' is required and must be a non-empty string'')
    | _ \<Rightarrow> bad (quoted (lit key) @ lit '' is required and must be a non-empty string''))"

definition opt_string :: "jvalue \<Rightarrow> string \<Rightarrow> error + rstr option" where
  "opt_string obj key = (case get obj (lit key) of
      None \<Rightarrow> Inr None
    | Some (String s) \<Rightarrow> Inr (Some s)
    | Some _ \<Rightarrow> bad (quoted (lit key) @ lit '' must be a string''))"

definition opt_string_value :: "jvalue \<Rightarrow> string \<Rightarrow> error + rstr" where
  "opt_string_value v what = (case v of
      String s \<Rightarrow> Inr s
    | _ \<Rightarrow> bad (quoted (lit what) @ lit '' must be a string''))"

definition require_int :: "jvalue \<Rightarrow> string \<Rightarrow> error + int" where
  "require_int obj key = (case get obj (lit key) of
      Some (Number v) \<Rightarrow>
        if is_finite v \<and> f64_le (f64_of_int 1) v \<and> f64_le v (f64_of_int i32_max) \<and> fract_is_zero v
        then Inr (f64_as (- i32_max - 1) i32_max v)
        else bad (quoted (lit key) @ lit '' is required and must be an integer >= 1'')
    | _ \<Rightarrow> bad (quoted (lit key) @ lit '' is required and must be an integer >= 1''))"

definition opt_positive_double :: "jvalue \<Rightarrow> string \<Rightarrow> error + f64 option" where
  "opt_positive_double obj key = (case get obj (lit key) of
      None \<Rightarrow> Inr None
    | Some (Number v) \<Rightarrow>
        if is_finite v then
          (if f64_le v (f64_of_int 0) then bad (quoted (lit key) @ lit '' must be > 0'') else Inr (Some v))
        else bad (quoted (lit key) @ lit '' must be a number'')
    | Some _ \<Rightarrow> bad (quoted (lit key) @ lit '' must be a number''))"

definition validate_path :: "rstr \<Rightarrow> error + unit" where
  "validate_path p = (case validate p of Inl e \<Rightarrow> Inl (Path e) | Inr _ \<Rightarrow> Inr ())"

text \<open>A section that is absent, or parsed and kept when some field is set.\<close>

definition opt_section :: "jvalue option \<Rightarrow> (jvalue \<Rightarrow> error + 'a option) \<Rightarrow> error + 'a option" where
  "opt_section v f = (case v of None \<Rightarrow> Inr None | Some v' \<Rightarrow> f v')"

definition keep_if :: "('a \<Rightarrow> bool) \<Rightarrow> 'a \<Rightarrow> 'a option" where
  "keep_if P x = (if P x then Some x else None)"

text \<open>A member of a closed enumeration.\<close>

definition parse_enum :: "jvalue option \<Rightarrow> string \<Rightarrow> string \<Rightarrow> (rstr \<Rightarrow> 'a option) \<Rightarrow> error + 'a option" where
  "parse_enum v what kind arms = (case v of
      None \<Rightarrow> Inr None
    | Some v' \<Rightarrow> and_then (opt_string_value v' what) (\<lambda>s.
        case arms s of
          Some t \<Rightarrow> Inr (Some t)
        | None \<Rightarrow> bad (lit ''unknown '' @ lit kind @ lit '' '' @ quoted s)))"

definition parse_artist :: "jvalue \<Rightarrow> error + artist" where
  "parse_artist item =
     and_then (require_string item ''name'') (\<lambda>name.
     and_then (opt_string item ''role'') (\<lambda>role.
     and_then (opt_string item ''musicbrainzId'') (\<lambda>musicbrainz_id.
     and_then (opt_string item ''sortName'') (\<lambda>sort_name.
     Inr \<lparr>ar_name = name, ar_role = role, ar_musicbrainz_id = musicbrainz_id, ar_sort_name = sort_name\<rparr>))))"

definition parse_artists :: "jvalue option \<Rightarrow> error + artist list" where
  "parse_artists v = (case v of
      None \<Rightarrow> Inr []
    | Some (Array arr) \<Rightarrow>
        if arr = [] then bad (quoted (lit ''artists'') @ lit '' must not be empty'')
        else if MAX_ARTISTS_PER_CREDIT < length arr
          then exceeds (quoted (lit ''artists'')) (length arr) MAX_ARTISTS_PER_CREDIT
        else collect parse_artist arr
    | Some _ \<Rightarrow> bad (quoted (lit ''artists'') @ lit '' must be an array''))"

definition parse_string_item :: "string \<Rightarrow> jvalue \<Rightarrow> error + rstr" where
  "parse_string_item what item = (case item of
      String s \<Rightarrow> Inr s
    | _ \<Rightarrow> bad (quoted (lit what) @ lit '' entries must be strings''))"

definition parse_string_list :: "jvalue option \<Rightarrow> string \<Rightarrow> nat \<Rightarrow> error + rstr list" where
  "parse_string_list v what limit = (case v of
      None \<Rightarrow> Inr []
    | Some (Array arr) \<Rightarrow>
        if limit < length arr then exceeds (quoted (lit what)) (length arr) limit
        else collect (parse_string_item what) arr
    | Some _ \<Rightarrow> bad (quoted (lit what) @ lit '' must be an array''))"

definition not_hex :: "rstr \<Rightarrow> error + 'a" where
  "not_hex prefix = bad (prefix @ lit '' is not 64 lowercase hex characters'')"

lemma not_hex_not_Inr [simp]: "not_hex p \<noteq> Inr x"
  by (simp add: not_hex_def)

definition parse_asset :: "jvalue \<Rightarrow> error + asset" where
  "parse_asset obj =
     and_then (require_string obj ''path'') (\<lambda>path.
     and_then (validate_path path) (\<lambda>_.
     and_then (require_string obj ''sha256'') (\<lambda>sha256.
     if \<not> is_valid_sha256_hex sha256 then not_hex (lit ''sha256 for '' @ quoted path)
     else Inr \<lparr>as_path = path, as_sha256 = sha256\<rparr>)))"

definition parse_asset_array :: "jvalue option \<Rightarrow> string \<Rightarrow> nat \<Rightarrow> error + asset list" where
  "parse_asset_array v what limit = (case v of
      None \<Rightarrow> Inr []
    | Some (Array arr) \<Rightarrow>
        if limit < length arr then exceeds (quoted (lit what)) (length arr) limit
        else collect (\<lambda>item. and_then (require_object (Some item) what) parse_asset) arr
    | Some _ \<Rightarrow> bad (quoted (lit what) @ lit '' must be an array''))"

section \<open>Tracks\<close>

text \<open>The closed fields of a waveform reference, as numbers.\<close>

definition waveform_int :: "jvalue \<Rightarrow> string \<Rightarrow> error + f64" where
  "waveform_int w key = (case get w (lit key) of
      Some (Number v) \<Rightarrow>
        if is_finite v \<and> fract_is_zero v then Inr v
        else bad (lit ''waveform '' @ quoted (lit key) @ lit '' is required and must be an integer'')
    | _ \<Rightarrow> bad (lit ''waveform '' @ quoted (lit key) @ lit '' is required and must be an integer''))"

definition bad_points :: "error + 'a" where
  "bad_points = bad (lit ''waveform points must be an integer within [0, '' @ show_int WAVEFORM_MAX_POINTS @ lit '']'')"

lemma bad_points_not_Inr [simp]: "bad_points \<noteq> Inr x"
  by (simp add: bad_points_def)

definition waveform_points :: "jvalue \<Rightarrow> error + int" where
  "waveform_points w = (case get w (lit ''points'') of
      Some (Number v) \<Rightarrow>
        if is_finite v \<and> fract_is_zero v \<and> f64_le (f64_of_int 0) v \<and> f64_le v (f64_of_int WAVEFORM_MAX_POINTS)
        then Inr (f64_as 0 (2 ^ 64 - 1) v)
        else bad_points
    | _ \<Rightarrow> bad_points)"

definition parse_waveform :: "jvalue \<Rightarrow> error + waveform_ref" where
  "parse_waveform v =
     and_then (require_object (Some v) ''waveform'') (\<lambda>w.
     and_then (waveform_int w ''version'') (\<lambda>version.
     and_then (require_string w ''path'') (\<lambda>wpath.
     and_then (validate_path wpath) (\<lambda>_.
     and_then (require_string w ''sha256'') (\<lambda>sha256.
     if \<not> is_valid_sha256_hex sha256 then not_hex (lit ''waveform sha256'')
     else and_then (waveform_int w ''intervalMs'') (\<lambda>interval.
     and_then (require_string w ''encoding'') (\<lambda>encoding.
     if encoding \<noteq> ENCODING then bad (lit ''waveform encoding must be '' @ quoted ENCODING)
     else and_then (waveform_int w ''floorDb'') (\<lambda>floor_db.
     and_then (waveform_points w) (\<lambda>points.
     if \<not> f64_eq version (f64_of_int WAVEFORM_VERSION) \<or> \<not> f64_eq interval (f64_of_int INTERVAL_MS)
        \<or> \<not> f64_eq floor_db (f64_of_int FLOOR_DB)
     then bad (lit ''waveform closed enums violated (version=1, intervalMs=100, floorDb=-60)'')
     else Inr \<lparr>wf_path = wpath, wf_sha256 = sha256, wf_points = points\<rparr>)))))))))"

definition parse_track_identifiers :: "jvalue \<Rightarrow> error + track_identifiers option" where
  "parse_track_identifiers v =
     and_then (require_object (Some v) ''track identifiers'') (\<lambda>o'.
     and_then (opt_string o' ''isrc'') (\<lambda>isrc.
     and_then (opt_string o' ''musicbrainzTrackId'') (\<lambda>tid.
     and_then (opt_string o' ''musicbrainzRecordingId'') (\<lambda>rid.
     Inr (keep_if track_identifiers_present
       \<lparr>ti_isrc = isrc, ti_musicbrainz_track_id = tid, ti_musicbrainz_recording_id = rid\<rparr>)))))"

definition parse_track_source :: "jvalue \<Rightarrow> error + track_source option" where
  "parse_track_source v =
     and_then (require_object (Some v) ''track source'') (\<lambda>o'.
     and_then (opt_string o' ''store'') (\<lambda>store.
     and_then (opt_string o' ''trackId'') (\<lambda>track_id.
     Inr (keep_if track_source_present \<lparr>ts_store = store, ts_track_id = track_id\<rparr>))))"

definition parse_source_audio :: "jvalue \<Rightarrow> error + source_audio option" where
  "parse_source_audio v =
     and_then (require_object (Some v) ''track sourceAudio'') (\<lambda>o'.
     and_then (opt_string o' ''codec'') (\<lambda>codec.
     and_then (opt_string o' ''md5'') (\<lambda>md5.
     Inr (keep_if source_audio_present \<lparr>sa_codec = codec, sa_md5 = md5\<rparr>))))"

definition parse_track_loudness :: "jvalue \<Rightarrow> error + loudness option" where
  "parse_track_loudness v =
     and_then (require_object (Some v) ''track loudness'') (\<lambda>lo'.
     case (get lo' (lit ''trackLUFS''), get lo' (lit ''truePeakDbTP'')) of
       (Some (Number a), Some (Number b)) \<Rightarrow>
         if is_valid_loudness_value a \<and> is_valid_loudness_value b
         then Inr (Some \<lparr>lo_lufs = a, lo_true_peak_db = b\<rparr>)
         else bad (lit ''track loudness requires finite trackLUFS and truePeakDbTP within [-70, 6]'')
     | _ \<Rightarrow> bad (lit ''track loudness requires finite trackLUFS and truePeakDbTP within [-70, 6]''))"

definition parse_representation :: "jvalue \<Rightarrow> error + representation" where
  "parse_representation item =
     and_then (require_object (Some item) ''representation'') (\<lambda>ro.
     and_then (parse_asset ro) (\<lambda>a.
     and_then (opt_string ro ''label'') (\<lambda>label.
     and_then (opt_string ro ''codec'') (\<lambda>codec.
     Inr \<lparr>rp_path = as_path a, rp_sha256 = as_sha256 a, rp_label = label, rp_codec = codec\<rparr>))))"

definition parse_representations :: "jvalue option \<Rightarrow> error + representation list" where
  "parse_representations v = (case v of
      None \<Rightarrow> Inr []
    | Some v' \<Rightarrow> and_then (require_array (Some v') ''representations'') (collect parse_representation))"

text \<open>\<open>s.chars().any(char::is_control)\<close> on the UTF-8 bytes: C0, DEL, and C1, which is encoded as
  \<open>0xC2\<close> with a continuation byte below \<open>0xA0\<close>.\<close>

fun has_control_char :: "rstr \<Rightarrow> bool" where
  "has_control_char [] = False"
| "has_control_char (b # bs) =
     (b < 0x20 \<or> b = 0x7F \<or> (b = 0xC2 \<and> (case bs of c # _ \<Rightarrow> c < 0xA0 | [] \<Rightarrow> False)) \<or> has_control_char bs)"

definition parse_lang :: "jvalue option \<Rightarrow> error + rstr option" where
  "parse_lang v = (case v of
      None \<Rightarrow> Inr None
    | Some (String s) \<Rightarrow>
        if s = [] \<or> has_control_char s
        then bad (lit ''lyrics '' @ quoted (lit ''lang'') @ lit '' must be a non-empty string without control characters'')
        else Inr (Some s)
    | Some _ \<Rightarrow> bad (lit ''lyrics '' @ quoted (lit ''lang'') @ lit '' must be a string''))"

definition parse_lyrics_ref :: "jvalue \<Rightarrow> error + lyrics_ref" where
  "parse_lyrics_ref item =
     and_then (require_object (Some item) ''lyrics entry'') (\<lambda>lo'.
     and_then (parse_asset lo') (\<lambda>a.
     and_then (parse_lang (get lo' (lit ''lang''))) (\<lambda>lang.
     Inr \<lparr>ly_path = as_path a, ly_sha256 = as_sha256 a, ly_lang = lang\<rparr>)))"

definition parse_track_lyrics :: "jvalue option \<Rightarrow> error + lyrics_ref list" where
  "parse_track_lyrics v = (case v of
      None \<Rightarrow> Inr []
    | Some v' \<Rightarrow> and_then (require_array (Some v') ''lyrics'') (\<lambda>arr.
        if MAX_LYRICS < length arr then exceeds (quoted (lit ''lyrics'')) (length arr) MAX_LYRICS
        else collect parse_lyrics_ref arr))"

definition parse_track :: "jvalue \<Rightarrow> error + track" where
  "parse_track item =
     and_then (require_object (Some item) ''track'') (\<lambda>o'.
     and_then (require_int o' ''track'') (\<lambda>number.
     and_then (require_string o' ''title'') (\<lambda>title.
     and_then (parse_artists (get o' (lit ''artists''))) (\<lambda>artists.
     and_then (opt_section (get o' (lit ''identifiers'')) parse_track_identifiers) (\<lambda>idents.
     and_then (opt_section (get o' (lit ''source'')) parse_track_source) (\<lambda>src.
     and_then (opt_section (get o' (lit ''sourceAudio'')) parse_source_audio) (\<lambda>src_audio.
     and_then (opt_positive_double o' ''duration'') (\<lambda>duration.
     and_then (opt_section (get o' (lit ''loudness'')) parse_track_loudness) (\<lambda>loud.
     case get o' (lit ''audio'') of
       None \<Rightarrow> bad (quoted (lit ''audio'') @ lit '' is required'')
     | Some audio_value \<Rightarrow>
     and_then (parse_asset audio_value) (\<lambda>audio.
     and_then (opt_string audio_value ''codec'') (\<lambda>audio_codec.
     and_then (opt_section (get o' (lit ''waveform''))
        (\<lambda>v. and_then (parse_waveform v) (\<lambda>w. Inr (Some w)))) (\<lambda>waveform.
     and_then (parse_representations (get o' (lit ''representations''))) (\<lambda>representations.
     and_then (parse_track_lyrics (get o' (lit ''lyrics''))) (\<lambda>lyrics.
     Inr \<lparr>tr_number = number, tr_title = title, tr_artists = artists, tr_identifiers = idents,
          tr_source = src, tr_source_audio = src_audio, tr_duration = duration, tr_loudness = loud,
          tr_audio = audio, tr_audio_codec = audio_codec, tr_waveform = waveform, tr_lyrics = lyrics,
          tr_representations = representations\<rparr>))))))))))))))"

section \<open>Discs\<close>

definition no_tracks :: "error + 'a" where
  "no_tracks = bad (quoted (lit ''tracks'') @ lit '' must be a non-empty array'')"

lemma no_tracks_not_Inr [simp]: "no_tracks \<noteq> Inr x"
  by (simp add: no_tracks_def)

definition parse_disc :: "jvalue \<Rightarrow> error + disc" where
  "parse_disc item =
     and_then (require_object (Some item) ''media entry'') (\<lambda>o'.
     and_then (require_int o' ''disc'') (\<lambda>number.
     and_then (parse_enum (get o' (lit ''format'')) ''media[].format'' ''medium format'' medium_format_parse) (\<lambda>format.
     and_then (opt_string o' ''title'') (\<lambda>title.
     case get o' (lit ''tracks'') of
       None \<Rightarrow> no_tracks
     | Some tracks_value \<Rightarrow>
     and_then (require_array (Some tracks_value) ''tracks'') (\<lambda>tracks_array.
     if tracks_array = [] then no_tracks
     else if MAX_TRACKS_PER_DISC < length tracks_array
       then exceeds (quoted (lit ''tracks'')) (length tracks_array) MAX_TRACKS_PER_DISC
     else and_then (collect parse_track tracks_array) (\<lambda>tracks.
     Inr \<lparr>di_number = number, di_format = format, di_title = title, di_tracks = tracks\<rparr>))))))"

text \<open>The numbering check: for each disc in order, its tracks pairwise, then the disc against the later
  discs.\<close>

fun duplicate_track :: "track list \<Rightarrow> int option" where
  "duplicate_track [] = None"
| "duplicate_track (t # ts) =
     (if list_ex (\<lambda>u. tr_number t = tr_number u) ts then Some (tr_number t) else duplicate_track ts)"

fun check_numbering :: "disc list \<Rightarrow> error + unit" where
  "check_numbering [] = Inr ()"
| "check_numbering (d # ds) =
     (case duplicate_track (di_tracks d) of
        Some n \<Rightarrow> bad (lit ''duplicate track number '' @ show_int n @ lit '' on disc '' @ show_int (di_number d))
      | None \<Rightarrow>
          if list_ex (\<lambda>e. di_number d = di_number e) ds
          then bad (lit ''duplicate disc number '' @ show_int (di_number d))
          else check_numbering ds)"

definition no_media :: "error + 'a" where
  "no_media = bad (lit ''media must be a non-empty array'')"

lemma no_media_not_Inr [simp]: "no_media \<noteq> Inr x"
  by (simp add: no_media_def)

definition parse_media :: "jvalue option \<Rightarrow> error + disc list" where
  "parse_media v = (case v of
      None \<Rightarrow> no_media
    | Some media_value \<Rightarrow>
        and_then (require_array (Some media_value) ''media'') (\<lambda>media_array.
        if media_array = [] then no_media
        else if MAX_DISCS < length media_array then exceeds (lit ''media'') (length media_array) MAX_DISCS
        else and_then (collect parse_disc media_array) (\<lambda>media.
          and_then (check_numbering media) (\<lambda>_. Inr media))))"

end
