(* ===== verification/Manifest_Tree.thy ===== *)
theory Manifest_Tree
  imports Manifest_Parse
begin

text \<open>
  The document level of the manifest parser (\<open>manifest_from_tree\<close> and \<open>ParsedManifest::parse\<close> of
  \<open>src/format/manifest/parse.rs\<close>), and the canonical writer (\<open>src/format/manifest/write.rs\<close>): the tree
  it builds, the validation of that tree by the parser, and the unknown root fields it carries over.
\<close>

section \<open>Root sections\<close>

definition parse_album :: "jvalue \<Rightarrow> error + album" where
  "parse_album root =
     and_then (require_object (get root (lit ''album'')) ''album'') (\<lambda>al.
     and_then (require_string al ''title'') (\<lambda>title.
     and_then (parse_artists (get al (lit ''artists''))) (\<lambda>artists.
     and_then (parse_enum (get al (lit ''releaseType'')) ''releaseType'' ''releaseType'' release_type_parse) (\<lambda>release_type.
     and_then (opt_string al ''originalReleaseDate'') (\<lambda>date.
     and_then (parse_string_list (get al (lit ''genres'')) ''genres'' MAX_GENRES) (\<lambda>genres.
     Inr \<lparr>al_title = title, al_artists = artists, al_release_type = release_type,
          al_original_release_date = date, al_genres = genres\<rparr>))))))"

definition parse_release :: "jvalue \<Rightarrow> error + release option" where
  "parse_release v =
     and_then (require_object (Some v) ''release'') (\<lambda>o'.
     and_then (opt_string o' ''releaseDate'') (\<lambda>date.
     and_then (opt_string o' ''edition'') (\<lambda>edition.
     and_then (opt_string o' ''country'') (\<lambda>country.
     and_then (opt_string o' ''label'') (\<lambda>label.
     and_then (opt_string o' ''catalogueNumber'') (\<lambda>catalogue_number.
     and_then (opt_string o' ''notes'') (\<lambda>notes.
     Inr (keep_if release_present
       \<lparr>re_release_date = date, re_edition = edition, re_country = country, re_label = label,
        re_catalogue_number = catalogue_number, re_notes = notes\<rparr>))))))))"

definition parse_identifiers :: "jvalue \<Rightarrow> error + identifiers option" where
  "parse_identifiers v =
     and_then (require_object (Some v) ''identifiers'') (\<lambda>o'.
     and_then (opt_string o' ''musicbrainzReleaseGroupId'') (\<lambda>gid.
     and_then (opt_string o' ''musicbrainzReleaseId'') (\<lambda>rid.
     and_then (opt_string o' ''barcode'') (\<lambda>barcode.
     Inr (keep_if identifiers_present
       \<lparr>id_musicbrainz_release_group_id = gid, id_musicbrainz_release_id = rid, id_barcode = barcode\<rparr>)))))"

definition parse_identity :: "jvalue \<Rightarrow> error + identity option" where
  "parse_identity v =
     and_then (require_object (Some v) ''identity'') (\<lambda>o'.
     and_then (parse_enum (get o' (lit ''source'')) ''identity.source'' ''identity source'' identity_source_parse) (\<lambda>src.
     and_then (parse_enum (get o' (lit ''confidence'')) ''identity.confidence'' ''identity confidence''
        identity_confidence_parse) (\<lambda>confidence.
     Inr (keep_if identity_present \<lparr>iy_source = src, iy_confidence = confidence\<rparr>))))"

definition parse_source :: "jvalue \<Rightarrow> error + source option" where
  "parse_source v =
     and_then (require_object (Some v) ''source'') (\<lambda>o'.
     and_then (opt_string o' ''type'') (\<lambda>kind.
     and_then (opt_string o' ''store'') (\<lambda>store.
     and_then (opt_string o' ''sourceId'') (\<lambda>sid.
     Inr (keep_if source_present \<lparr>so_kind = kind, so_store = store, so_id = sid\<rparr>)))))"

definition parse_artwork_entry :: "jvalue \<Rightarrow> error + artwork" where
  "parse_artwork_entry item =
     and_then (require_object (Some item) ''artwork entry'') (\<lambda>o'.
     and_then (require_string o' ''role'') (\<lambda>role.
     and_then (parse_asset o') (\<lambda>a.
     Inr \<lparr>aw_role = role, aw_asset = a\<rparr>)))"

definition parse_artwork :: "jvalue option \<Rightarrow> error + artwork list" where
  "parse_artwork v = (case v of
      None \<Rightarrow> Inr []
    | Some v' \<Rightarrow> and_then (require_array (Some v') ''artwork'') (\<lambda>arr.
        if MAX_ARTWORK < length arr then exceeds (lit ''artwork'') (length arr) MAX_ARTWORK
        else collect parse_artwork_entry arr))"

definition parse_analysis_entry :: "jvalue \<Rightarrow> error + analysis" where
  "parse_analysis_entry item =
     and_then (require_object (Some item) ''analysis entry'') (\<lambda>o'.
     and_then (require_string o' ''type'') (\<lambda>kind.
     and_then (opt_string o' ''profile'') (\<lambda>profile.
     and_then (require_string o' ''path'') (\<lambda>path.
     and_then (validate_path path) (\<lambda>_.
     and_then (require_string o' ''sha256'') (\<lambda>sha256.
     if \<not> is_valid_sha256_hex sha256 then not_hex (lit ''analysis sha256 for '' @ quoted path)
     else if kind = lit ''sonic'' \<and> profile = None then bad (lit ''sonic analysis entries require a profile'')
     else Inr \<lparr>an_kind = kind, an_profile = profile, an_asset = \<lparr>as_path = path, as_sha256 = sha256\<rparr>\<rparr>))))))"

definition parse_analysis :: "jvalue option \<Rightarrow> error + analysis list" where
  "parse_analysis v = (case v of
      None \<Rightarrow> Inr []
    | Some v' \<Rightarrow> and_then (require_array (Some v') ''analysis'') (\<lambda>arr.
        if MAX_ANALYSIS < length arr then exceeds (lit ''analysis'') (length arr) MAX_ANALYSIS
        else collect parse_analysis_entry arr))"

definition parse_album_loudness :: "jvalue \<Rightarrow> error + album_loudness option" where
  "parse_album_loudness v =
     and_then (require_object (Some v) ''loudness'') (\<lambda>o'.
     and_then (opt_string o' ''algorithm'') (\<lambda>algorithm.
     case (get o' (lit ''albumLUFS''), get o' (lit ''albumTruePeakDbTP'')) of
       (None, None) \<Rightarrow> Inr None
     | (Some (Number a), Some (Number b)) \<Rightarrow>
         if is_valid_loudness_value a \<and> is_valid_loudness_value b
         then Inr (Some \<lparr>ll_algorithm = algorithm, ll_lufs = a, ll_true_peak_db = b\<rparr>)
         else bad (lit ''album loudness values must be finite numbers within [-70, 6]'')
     | (Some _, Some _) \<Rightarrow> bad (lit ''album loudness values must be finite numbers within [-70, 6]'')
     | _ \<Rightarrow> bad (lit ''album loudness requires both albumLUFS and albumTruePeakDbTP'')))"

definition parse_provenance :: "jvalue \<Rightarrow> error + provenance option" where
  "parse_provenance v =
     and_then (require_object (Some v) ''provenance'') (\<lambda>o'.
     and_then (opt_string o' ''tool'') (\<lambda>tool.
     and_then (opt_string o' ''toolVersion'') (\<lambda>tool_version.
     Inr (keep_if provenance_present \<lparr>pv_tool = tool, pv_tool_version = tool_version\<rparr>))))"

section \<open>Paths of the whole package\<close>

definition check_track_paths :: "track \<Rightarrow> rstr list" where
  "check_track_paths t = as_path (tr_audio t)
     # (case tr_waveform t of Some w \<Rightarrow> [wf_path w] | None \<Rightarrow> [])
     @ map ly_path (tr_lyrics t)
     @ map rp_path (tr_representations t)"

fun first_duplicate :: "rstr set \<Rightarrow> rstr list \<Rightarrow> rstr option" where
  "first_duplicate seen [] = None"
| "first_duplicate seen (p # ps) = (if p \<in> seen then Some p else first_duplicate (insert p seen) ps)"

definition check_dup_paths :: "manifest \<Rightarrow> error + unit" where
  "check_dup_paths m =
     (let paths = concat (map (\<lambda>d. concat (map check_track_paths (di_tracks d))) (mf_media m)) @ shared_paths m
      in if MAX_REFERENCED_ASSETS < length paths
         then bad (lit ''referenced assets ('' @ show_nat (length paths) @ lit ''); exceeds the limit of ''
                @ show_nat MAX_REFERENCED_ASSETS)
         else case first_duplicate {} paths of
           Some p \<Rightarrow> bad (lit ''duplicate asset path '' @ quoted p)
         | None \<Rightarrow> Inr ())"

section \<open>The document\<close>

definition check_format :: "jvalue \<Rightarrow> error + unit" where
  "check_format root = (case get root (lit ''format'') of
      Some (String s) \<Rightarrow> if s = FORMAT_ID then Inr () else bad (lit ''format must be '' @ quoted FORMAT_ID)
    | _ \<Rightarrow> bad (lit ''format must be '' @ quoted FORMAT_ID))"

definition check_version :: "jvalue \<Rightarrow> error + unit" where
  "check_version root = (case get root (lit ''version'') of
      Some (Number v) \<Rightarrow>
        if is_finite v then
          (if f64_eq v (f64_of_int (int SCHEMA_VERSION)) then Inr ()
           else Inl (Version (format_json_number v) SCHEMA_VERSION))
        else bad (lit ''version must be the number 1'')
    | _ \<Rightarrow> bad (lit ''version must be the number 1''))"

definition manifest_from_tree :: "jvalue \<Rightarrow> error + manifest" where
  "manifest_from_tree root =
     (if \<not> is_object root \<or> has_duplicate_keys root
      then bad (lit ''manifest is not a JSON object or has duplicate keys'')
      else
     and_then (check_format root) (\<lambda>_.
     and_then (check_version root) (\<lambda>_.
     and_then (parse_album root) (\<lambda>album.
     and_then (opt_section (get root (lit ''release'')) parse_release) (\<lambda>release.
     and_then (opt_section (get root (lit ''identifiers'')) parse_identifiers) (\<lambda>identifiers.
     and_then (opt_section (get root (lit ''identity'')) parse_identity) (\<lambda>identity.
     and_then (opt_section (get root (lit ''source'')) parse_source) (\<lambda>source.
     and_then (parse_media (get root (lit ''media''))) (\<lambda>media.
     and_then (parse_artwork (get root (lit ''artwork''))) (\<lambda>artwork.
     and_then (parse_asset_array (get root (lit ''booklet'')) ''booklet'' MAX_BOOKLET) (\<lambda>booklet.
     and_then (parse_asset_array (get root (lit ''lyrics'')) ''lyrics'' MAX_LYRICS) (\<lambda>lyrics.
     and_then (parse_asset_array (get root (lit ''extras'')) ''extras'' MAX_EXTRAS) (\<lambda>extras.
     and_then (parse_analysis (get root (lit ''analysis''))) (\<lambda>analysis.
     and_then (opt_section (get root (lit ''loudness'')) parse_album_loudness) (\<lambda>loudness.
     and_then (opt_section (get root (lit ''provenance'')) parse_provenance) (\<lambda>provenance.
     let m = \<lparr>mf_album = album, mf_release = release, mf_identifiers = identifiers,
              mf_identity = identity, mf_source = source, mf_media = media, mf_artwork = artwork,
              mf_booklet = booklet, mf_lyrics = lyrics, mf_extras = extras, mf_analysis = analysis,
              mf_loudness = loudness, mf_provenance = provenance\<rparr>
     in and_then (check_dup_paths m) (\<lambda>_. Inr m)))))))))))))))))"

record parsed_manifest =
  pm_manifest :: manifest
  pm_original :: jvalue

text \<open>\<open>ParsedManifest::parse\<close>. \<open>None\<close> is the JSON parser out of fuel, which does not happen.\<close>

definition parse_manifest :: "bytes \<Rightarrow> (error + parsed_manifest) option" where
  "parse_manifest bs =
     (if MANIFEST_MAX_BYTES < length bs
      then Some (bad (lit ''manifest size exceeds '' @ show_nat MANIFEST_MAX_BYTES @ lit '' bytes''))
      else case parse bs of
        None \<Rightarrow> None
      | Some (Inl e) \<Rightarrow> Some (Inl (json_to_error e))
      | Some (Inr root) \<Rightarrow>
          Some (and_then (manifest_from_tree root) (\<lambda>m. Inr \<lparr>pm_manifest = m, pm_original = root\<rparr>)))"

section \<open>The canonical tree\<close>

type_synonym obj = "(rstr \<times> jvalue) list"

definition put :: "string \<Rightarrow> jvalue \<Rightarrow> obj" where
  "put key v = [(lit key, v)]"

definition put_opt :: "string \<Rightarrow> rstr option \<Rightarrow> obj" where
  "put_opt key v = (case v of Some s \<Rightarrow> put key (String s) | None \<Rightarrow> [])"

definition put_some :: "string \<Rightarrow> ('a \<Rightarrow> jvalue) \<Rightarrow> 'a option \<Rightarrow> obj" where
  "put_some key f v = (case v of Some x \<Rightarrow> put key (f x) | None \<Rightarrow> [])"

definition put_list :: "string \<Rightarrow> ('a \<Rightarrow> jvalue) \<Rightarrow> 'a list \<Rightarrow> obj" where
  "put_list key f xs = (if xs = [] then [] else put key (Array (map f xs)))"

definition artist_to_json :: "artist \<Rightarrow> jvalue" where
  "artist_to_json a = Object (put_opt ''musicbrainzId'' (ar_musicbrainz_id a) @ put ''name'' (String (ar_name a))
     @ put_opt ''role'' (ar_role a) @ put_opt ''sortName'' (ar_sort_name a))"

definition asset_to_json :: "asset \<Rightarrow> jvalue" where
  "asset_to_json a = Object (put ''path'' (String (as_path a)) @ put ''sha256'' (String (as_sha256 a)))"

definition album_to_json :: "album \<Rightarrow> jvalue" where
  "album_to_json a = Object (put ''title'' (String (al_title a))
     @ put ''artists'' (Array (map artist_to_json (al_artists a)))
     @ put_some ''releaseType'' (\<lambda>t. String (lit (release_type_str t))) (al_release_type a)
     @ put_opt ''originalReleaseDate'' (al_original_release_date a)
     @ put_list ''genres'' String (al_genres a))"

definition release_to_json :: "release \<Rightarrow> jvalue" where
  "release_to_json r = Object (put_opt ''releaseDate'' (re_release_date r) @ put_opt ''edition'' (re_edition r)
     @ put_opt ''country'' (re_country r) @ put_opt ''label'' (re_label r)
     @ put_opt ''catalogueNumber'' (re_catalogue_number r) @ put_opt ''notes'' (re_notes r))"

definition identifiers_to_json :: "identifiers \<Rightarrow> jvalue" where
  "identifiers_to_json i = Object (put_opt ''musicbrainzReleaseGroupId'' (id_musicbrainz_release_group_id i)
     @ put_opt ''musicbrainzReleaseId'' (id_musicbrainz_release_id i) @ put_opt ''barcode'' (id_barcode i))"

definition identity_to_json :: "identity \<Rightarrow> jvalue" where
  "identity_to_json i = Object (put_some ''source'' (\<lambda>s. String (lit (identity_source_str s))) (iy_source i)
     @ put_some ''confidence'' (\<lambda>c. String (lit (identity_confidence_str c))) (iy_confidence i))"

definition source_to_json :: "source \<Rightarrow> jvalue" where
  "source_to_json s = Object (put_opt ''type'' (so_kind s) @ put_opt ''store'' (so_store s)
     @ put_opt ''sourceId'' (so_id s))"

definition track_identifiers_to_json :: "track_identifiers \<Rightarrow> jvalue" where
  "track_identifiers_to_json i = Object (put_opt ''isrc'' (ti_isrc i)
     @ put_opt ''musicbrainzTrackId'' (ti_musicbrainz_track_id i)
     @ put_opt ''musicbrainzRecordingId'' (ti_musicbrainz_recording_id i))"

definition track_source_to_json :: "track_source \<Rightarrow> jvalue" where
  "track_source_to_json s = Object (put_opt ''store'' (ts_store s) @ put_opt ''trackId'' (ts_track_id s))"

definition source_audio_to_json :: "source_audio \<Rightarrow> jvalue" where
  "source_audio_to_json s = Object (put_opt ''codec'' (sa_codec s) @ put_opt ''md5'' (sa_md5 s))"

definition loudness_to_json :: "loudness \<Rightarrow> jvalue" where
  "loudness_to_json l = Object (put ''trackLUFS'' (Number (lo_lufs l)) @ put ''truePeakDbTP'' (Number (lo_true_peak_db l)))"

definition audio_to_json :: "asset \<Rightarrow> rstr option \<Rightarrow> jvalue" where
  "audio_to_json a codec = Object (put ''path'' (String (as_path a)) @ put ''sha256'' (String (as_sha256 a))
     @ put_opt ''codec'' codec)"

definition waveform_to_json :: "waveform_ref \<Rightarrow> jvalue" where
  "waveform_to_json w = Object (put ''version'' (Number (f64_of_int WAVEFORM_VERSION)) @ put ''path'' (String (wf_path w))
     @ put ''sha256'' (String (wf_sha256 w)) @ put ''intervalMs'' (Number (f64_of_int INTERVAL_MS))
     @ put ''encoding'' (String ENCODING) @ put ''floorDb'' (Number (f64_of_int FLOOR_DB))
     @ put ''points'' (Number (f64_of_int (wf_points w))))"

definition lyrics_ref_to_json :: "lyrics_ref \<Rightarrow> jvalue" where
  "lyrics_ref_to_json l = Object (put ''path'' (String (ly_path l)) @ put ''sha256'' (String (ly_sha256 l))
     @ put_opt ''lang'' (ly_lang l))"

definition representation_to_json :: "representation \<Rightarrow> jvalue" where
  "representation_to_json r = Object (put ''path'' (String (rp_path r)) @ put ''sha256'' (String (rp_sha256 r))
     @ put_opt ''label'' (rp_label r) @ put_opt ''codec'' (rp_codec r))"

definition track_to_json :: "track \<Rightarrow> jvalue" where
  "track_to_json t = Object (put ''track'' (Number (f64_of_int (tr_number t)))
     @ put ''title'' (String (tr_title t))
     @ put_list ''artists'' artist_to_json (tr_artists t)
     @ put_some ''identifiers'' track_identifiers_to_json (tr_identifiers t)
     @ put_some ''source'' track_source_to_json (tr_source t)
     @ put_some ''sourceAudio'' source_audio_to_json (tr_source_audio t)
     @ put_some ''duration'' Number (tr_duration t)
     @ put_some ''loudness'' loudness_to_json (tr_loudness t)
     @ put ''audio'' (audio_to_json (tr_audio t) (tr_audio_codec t))
     @ put_some ''waveform'' waveform_to_json (tr_waveform t)
     @ put_list ''lyrics'' lyrics_ref_to_json (tr_lyrics t)
     @ put_list ''representations'' representation_to_json (tr_representations t))"

definition disc_to_json :: "disc \<Rightarrow> jvalue" where
  "disc_to_json d = Object (put ''disc'' (Number (f64_of_int (di_number d)))
     @ put_some ''format'' (\<lambda>f. String (lit (medium_format_str f))) (di_format d)
     @ put_opt ''title'' (di_title d)
     @ put ''tracks'' (Array (map track_to_json (di_tracks d))))"

definition artwork_to_json :: "artwork \<Rightarrow> jvalue" where
  "artwork_to_json w = Object (put ''role'' (String (aw_role w)) @ put ''path'' (String (as_path (aw_asset w)))
     @ put ''sha256'' (String (as_sha256 (aw_asset w))))"

definition analysis_to_json :: "analysis \<Rightarrow> jvalue" where
  "analysis_to_json a = Object (put ''type'' (String (an_kind a)) @ put_opt ''profile'' (an_profile a)
     @ put ''path'' (String (as_path (an_asset a))) @ put ''sha256'' (String (as_sha256 (an_asset a))))"

definition album_loudness_to_json :: "album_loudness \<Rightarrow> jvalue" where
  "album_loudness_to_json l = Object (put_opt ''algorithm'' (ll_algorithm l)
     @ put ''albumLUFS'' (Number (ll_lufs l)) @ put ''albumTruePeakDbTP'' (Number (ll_true_peak_db l)))"

definition provenance_to_json :: "provenance \<Rightarrow> jvalue" where
  "provenance_to_json p = Object (put_opt ''tool'' (pv_tool p) @ put_opt ''toolVersion'' (pv_tool_version p))"

definition root_fields :: "manifest \<Rightarrow> obj" where
  "root_fields m = put ''format'' (String FORMAT_ID)
     @ put ''version'' (Number (f64_of_int (int SCHEMA_VERSION)))
     @ put ''album'' (album_to_json (mf_album m))
     @ put_some ''release'' release_to_json (mf_release m)
     @ put_some ''identifiers'' identifiers_to_json (mf_identifiers m)
     @ put_some ''identity'' identity_to_json (mf_identity m)
     @ put_some ''source'' source_to_json (mf_source m)
     @ put ''media'' (Array (map disc_to_json (mf_media m)))
     @ put_list ''artwork'' artwork_to_json (mf_artwork m)
     @ put_list ''booklet'' asset_to_json (mf_booklet m)
     @ put_list ''lyrics'' asset_to_json (mf_lyrics m)
     @ put_list ''extras'' asset_to_json (mf_extras m)
     @ put_list ''analysis'' analysis_to_json (mf_analysis m)
     @ put_some ''loudness'' album_loudness_to_json (mf_loudness m)
     @ put_some ''provenance'' provenance_to_json (mf_provenance m)"

definition build_tree :: "manifest \<Rightarrow> jvalue" where
  "build_tree m = Object (root_fields m)"

section \<open>Writing\<close>

definition KNOWN_ROOT_FIELDS :: "rstr list" where
  "KNOWN_ROOT_FIELDS = map lit [''format'', ''version'', ''album'', ''release'', ''identifiers'', ''identity'',
     ''source'', ''media'', ''artwork'', ''booklet'', ''lyrics'', ''extras'', ''analysis'', ''loudness'', ''provenance'']"

definition validate_for_write :: "manifest \<Rightarrow> error + unit" where
  "validate_for_write m = and_then (manifest_from_tree (build_tree m)) (\<lambda>_. Inr ())"

definition write_manifest :: "manifest \<Rightarrow> error + rstr" where
  "write_manifest m = and_then (validate_for_write m) (\<lambda>_. Inr (print_canonical (build_tree m)))"

definition extensions :: "jvalue \<Rightarrow> obj" where
  "extensions original = (case original of
      Object members \<Rightarrow> filter (\<lambda>(key, v). key \<notin> set KNOWN_ROOT_FIELDS) members
    | _ \<Rightarrow> [])"

definition copy_package_extensions :: "jvalue \<Rightarrow> jvalue \<Rightarrow> error + jvalue" where
  "copy_package_extensions tree original = (case original of
      Object _ \<Rightarrow>
        (case tree of
           Object root \<Rightarrow> Inr (Object (root @ extensions original))
         | _ \<Rightarrow> bad (lit ''internal: manifest tree is not an object''))
    | _ \<Rightarrow> Inr tree)"

definition write_parsed :: "parsed_manifest \<Rightarrow> error + rstr" where
  "write_parsed pm =
     and_then (validate_for_write (pm_manifest pm)) (\<lambda>_.
     and_then (copy_package_extensions (build_tree (pm_manifest pm)) (pm_original pm)) (\<lambda>tree.
     Inr (print_canonical tree)))"

end
