(* ===== verification/Storage.thy ===== *)
theory Storage
  imports Mpak_Read Manifest_Tree
begin

text \<open>
  The storage seam (\<open>src/storage/mod.rs\<close>): what the verifier asks of a package, an open of a referenced
  object, a stable identity, a listing and the findings of the container itself. A backend is the record of
  its answers; two opens of the same path give the same answer, that is, the storage does not change during
  a pass. The directory bundle of \<open>src/storage/directory.rs\<close> answers from a file system, which is a parameter;
  its packer and the reading of a bounded member are functions of any backend.
\<close>

section \<open>Backends\<close>

record object_id =
  oid_device :: nat
  oid_inode :: nat

datatype backend_error =
    UnsafePath
  | MissingObject
  | BackendIo rstr

text \<open>An opened object: its length, and the results of the successive reads of its reader.\<close>

record opened_asset =
  oa_len :: nat
  oa_reader :: read_results

datatype severity = SevError | SevWarning

record finding =
  fd_severity :: severity
  fd_message :: rstr

type_synonym report = "finding list"

record backend =
  open_asset :: "rstr \<Rightarrow> backend_error + opened_asset"
  object_id_of :: "rstr \<Rightarrow> object_id option"
  list_files :: "rstr list"
  meta_files :: "rstr list"
  verify_extra :: "manifest \<Rightarrow> report"

definition push_error :: "rstr \<Rightarrow> finding" where
  "push_error msg = \<lparr>fd_severity = SevError, fd_message = msg\<rparr>"

definition push_warning :: "rstr \<Rightarrow> finding" where
  "push_warning msg = \<lparr>fd_severity = SevWarning, fd_message = msg\<rparr>"

definition report_errors :: "report \<Rightarrow> nat" where
  "report_errors r = length (filter (\<lambda>f. fd_severity f = SevError) r)"

definition report_warnings :: "report \<Rightarrow> nat" where
  "report_warnings r = length (filter (\<lambda>f. fd_severity f = SevWarning) r)"

definition is_ok :: "report \<Rightarrow> bool" where
  "is_ok r \<longleftrightarrow> report_errors r = 0"

lemma is_ok_simps [simp]:
  "is_ok []" "\<not> is_ok (push_error m # r)" "is_ok (push_warning m # r) = is_ok r"
  "is_ok (r @ s) \<longleftrightarrow> is_ok r \<and> is_ok s"
  by (simp_all add: is_ok_def report_errors_def push_error_def push_warning_def)

lemma is_ok_concat [simp]: "is_ok (concat rs) \<longleftrightarrow> (\<forall>r\<in>set rs. is_ok r)"
  by (induction rs) simp_all

lemma is_ok_warnings [simp]: "is_ok (map (\<lambda>x. push_warning (f x)) xs)"
  by (induction xs) simp_all

section \<open>Directory bundles\<close>

definition squoted :: "rstr \<Rightarrow> rstr" where
  "squoted s = 0x27 # s @ [0x27]"

definition map_backend_error :: "backend_error \<Rightarrow> rstr \<Rightarrow> error" where
  "map_backend_error e path = (case e of
      UnsafePath \<Rightarrow> Invalid (lit ''unsafe path '' @ squoted path)
    | MissingObject \<Rightarrow> Missing path
    | BackendIo detail \<Rightarrow> Io detail)"

text \<open>\<open>directory::read_member\<close>: a bounded read of a referenced object.\<close>

definition read_member :: "backend \<Rightarrow> rstr \<Rightarrow> nat \<Rightarrow> error + bytes" where
  "read_member be path bound = (case open_asset be path of
      Inl e \<Rightarrow> Inl (map_backend_error e path)
    | Inr opened \<Rightarrow>
        if bound < oa_len opened
        then Inl (Io (squoted path @ lit '' exceeds '' @ show_nat bound @ lit ''-byte read limit''))
        else case read_all [] (oa_reader opened) of Inl e \<Rightarrow> Inl (Io e) | Inr bs \<Rightarrow> Inr bs)"

text \<open>
  \<open>read_manifest_hardened\<close> on a unix target. The file system gives the metadata of the path without following
  a link, and of the opened file.
\<close>

record file_stat =
  fs_symlink :: bool
  fs_regular :: bool
  fs_directory :: bool
  fs_nlink :: nat
  fs_len :: nat
  fs_identity :: object_id

definition MANIFEST_NAME :: rstr where "MANIFEST_NAME = lit ''manifest.json''"

definition read_manifest_hardened ::
    "file_stat option \<Rightarrow> (rstr + file_stat) option \<Rightarrow> rstr + bytes \<Rightarrow> error + bytes" where
  "read_manifest_hardened lmeta handle content = (case lmeta of
      None \<Rightarrow> Inl (Missing MANIFEST_NAME)
    | Some l \<Rightarrow>
        if fs_symlink l \<or> \<not> fs_regular l then Inl (Io (squoted MANIFEST_NAME @ lit '' is not a regular file''))
        else case handle of
          None \<Rightarrow> Inl (Missing MANIFEST_NAME)
        | Some (Inl e) \<Rightarrow> Inl (Io e)
        | Some (Inr m) \<Rightarrow>
            if 1 < fs_nlink m then Inl (Io (squoted MANIFEST_NAME @ lit '' has more than one hard link''))
            else if MANIFEST_MAX_BYTES < fs_len m
              then bad (squoted MANIFEST_NAME @ lit '' size exceeds '' @ show_nat MANIFEST_MAX_BYTES @ lit '' bytes'')
            else case content of
              Inl e \<Rightarrow> Inl (Io e)
            | Inr bs \<Rightarrow>
                if 0 \<in> set bs then Inl (Json (squoted MANIFEST_NAME @ lit '' contains a NUL byte''))
                else Inr bs)"

lemma read_manifest_hardened_clean: "read_manifest_hardened l h c = Inr bs \<Longrightarrow> c = Inr bs \<and> 0 \<notin> set bs"
  by (auto simp: read_manifest_hardened_def split: option.splits sum.splits if_splits)

section \<open>MPAK containers as backends\<close>

record mpak_backend =
  mb_source :: byte_source
  mb_reader :: mpak_reader
  mb_manifest :: bytes

definition mpak_open :: "byte_source \<Rightarrow> error + mpak_backend" where
  "mpak_open src = (case scan src False of
      Inl e \<Rightarrow> Inl e
    | Inr r \<Rightarrow>
        if manifest_count r = 0 then Inl (Missing (lit ''MANF''))
        else if 1 < manifest_count r then bad (lit ''container has more than one MANF block'')
        else case Mpak_Read.manifest r of
          None \<Rightarrow> Inl (Missing (lit ''MANF''))
        | Some m \<Rightarrow>
            if 0 \<in> set m then Inl (Json (lit ''embedded manifest contains a NUL byte''))
            else Inr \<lparr>mb_source = src, mb_reader = r, mb_manifest = m\<rparr>)"

text \<open>The results of the successive reads of a member stream with a buffer of the given size.\<close>

function member_results :: "byte_source \<Rightarrow> nat \<Rightarrow> member_reader \<Rightarrow> read_results" where
  "member_results src buf_len s =
     (if mr_end s \<le> mr_pos s \<or> buf_len = 0 then [Inr []]
      else case member_read src s buf_len of
        Inl e \<Rightarrow> [Inl e]
      | Inr (out, s') \<Rightarrow> Inr out # member_results src buf_len s')"
  by pat_completeness auto
termination
  by (relation "measure (\<lambda>(src, buf_len, s). mr_end s - mr_pos s)")
    (auto simp: member_read_def Let_def split: sum.splits if_splits)

declare member_results.simps [simp del]

definition READ_BUFFER :: nat where "READ_BUFFER = 64 * 1024"

definition mpak_open_asset :: "mpak_backend \<Rightarrow> rstr \<Rightarrow> backend_error + opened_asset" where
  "mpak_open_asset mb path = (case member (mb_reader mb) path of
      None \<Rightarrow> Inl MissingObject
    | Some m \<Rightarrow> Inr \<lparr>oa_len = m_length m,
        oa_reader = member_results (mb_source mb) READ_BUFFER (member_reader_new (m_offset m) (m_length m))\<rparr>)"

definition mpak_read_member :: "mpak_backend \<Rightarrow> rstr \<Rightarrow> nat \<Rightarrow> error + bytes" where
  "mpak_read_member mb path bound = (case member (mb_reader mb) path of
      None \<Rightarrow> Inl (Missing path)
    | Some m \<Rightarrow>
        if bound < m_length m
        then Inl (Io (squoted path @ lit '' exceeds '' @ show_nat bound @ lit ''-byte read limit''))
        else case read_all [] (member_results (mb_source mb) READ_BUFFER (member_reader_new (m_offset m) (m_length m))) of
          Inl e \<Rightarrow> Inl (Io e) | Inr bs \<Rightarrow> Inr bs)"

end
