(* ===== verification/Validation.thy ===== *)
theory Validation
  imports Storage
begin

text \<open>
  The verifier (\<open>src/validation/mod.rs\<close>): for every referenced asset in the traversal order, the findings of
  its open, its size, the aggregate budget and its digest; the waveform rules; the files nothing refers to;
  and the findings of the backend. A step takes the budget and returns the findings it pushes with the new
  budget. SHA-256 is the parameter \<open>sha256\<close>.
\<close>

section \<open>One asset\<close>

record budget =
  total_bytes :: nat
  seen :: "object_id set"

definition budget_empty :: budget where
  "budget_empty = \<lparr>total_bytes = 0, seen = {}\<rparr>"

definition finding_text :: "string \<Rightarrow> rstr \<Rightarrow> rstr" where
  "finding_text kind msg = lit kind @ lit '': '' @ msg"

text \<open>What the budget says of an object of the given length.\<close>

datatype charge = AlreadyHashed | OverBudget | Charged

definition charge_budget :: "backend \<Rightarrow> rstr \<Rightarrow> nat \<Rightarrow> budget \<Rightarrow> charge \<times> budget" where
  "charge_budget be path len b =
     (let known = (case object_id_of be path of None \<Rightarrow> False | Some i \<Rightarrow> i \<in> seen b);
          b = (case object_id_of be path of None \<Rightarrow> b | Some i \<Rightarrow> b\<lparr>seen := insert i (seen b)\<rparr>)
      in if known then (AlreadyHashed, b)
         else let b = b\<lparr>total_bytes := min (total_bytes b + len) (u64_limit - 1)\<rparr>
              in (if MAX_TOTAL_BYTES < total_bytes b then OverBudget else Charged, b))"

definition check_digest :: "(bytes \<Rightarrow> bytes) \<Rightarrow> backend \<Rightarrow> rstr \<Rightarrow> rstr \<Rightarrow> string \<Rightarrow> report" where
  "check_digest sha256 be path declared kind = (case open_asset be path of
      Inl _ \<Rightarrow> [push_error (finding_text kind (lit ''cannot hash '' @ squoted path))]
    | Inr opened \<Rightarrow>
        (case sha256_reader sha256 (oa_reader opened) of
           Inl _ \<Rightarrow> [push_error (finding_text kind (lit ''cannot hash '' @ squoted path))]
         | Inr digest \<Rightarrow>
             if hex_eq (to_hex digest) declared then []
             else [push_error (finding_text kind (lit ''checksum mismatch '' @ squoted path))]))"

definition verify_one ::
    "(bytes \<Rightarrow> bytes) \<Rightarrow> backend \<Rightarrow> rstr \<Rightarrow> rstr \<Rightarrow> string \<Rightarrow> budget option \<Rightarrow> report \<times> budget option" where
  "verify_one sha256 be path declared kind ob = (case open_asset be path of
      Inl e \<Rightarrow>
        ([push_error (finding_text kind
            ((if e = UnsafePath then lit ''unsafe path '' else lit ''missing file '') @ squoted path))], ob)
    | Inr opened \<Rightarrow>
        let len = oa_len opened in
        if MAX_FILE_BYTES < len
        then ([push_error (finding_text kind
                (squoted path @ lit '' exceeds '' @ show_nat MAX_FILE_BYTES @ lit ''-byte file limit''))], ob)
        else case ob of
          None \<Rightarrow> (check_digest sha256 be path declared kind, None)
        | Some b \<Rightarrow>
            (case charge_budget be path len b of
               (AlreadyHashed, b') \<Rightarrow> ([], Some b')
             | (OverBudget, b') \<Rightarrow>
                 ([push_error (finding_text kind
                     (lit ''aggregate referenced bytes exceed '' @ show_nat MAX_TOTAL_BYTES @ lit ''-byte limit''))], Some b')
             | (Charged, b') \<Rightarrow> (check_digest sha256 be path declared kind, Some b')))"

text \<open>Assets of one kind in order, threading the budget.\<close>

type_synonym declared_asset = "rstr \<times> rstr"

fun verify_assets ::
    "(bytes \<Rightarrow> bytes) \<Rightarrow> backend \<Rightarrow> declared_asset list \<Rightarrow> string \<Rightarrow> budget option \<Rightarrow> report \<times> budget option" where
  "verify_assets sha256 be [] kind b = ([], b)"
| "verify_assets sha256 be ((path, declared) # as) kind b =
     (case verify_one sha256 be path declared kind b of (f, b') \<Rightarrow>
      case verify_assets sha256 be as kind b' of (fs, b'') \<Rightarrow> (f @ fs, b''))"

section \<open>Waveforms\<close>

definition MAX_PAYLOAD_BYTES :: nat where
  "MAX_PAYLOAD_BYTES = nat WAVEFORM_MAX_POINTS * 2"

definition size_of :: "backend \<Rightarrow> rstr \<Rightarrow> backend_error + nat" where
  "size_of be path = (case open_asset be path of Inl e \<Rightarrow> Inl e | Inr opened \<Rightarrow> Inr (oa_len opened))"

definition waveform_text :: "rstr \<Rightarrow> rstr \<Rightarrow> rstr \<Rightarrow> rstr" where
  "waveform_text before path after = lit ''waveform: '' @ before @ squoted path @ after"

definition read_payload :: "backend \<Rightarrow> rstr \<Rightarrow> nat \<Rightarrow> bool" where
  "read_payload be path expected = (case open_asset be path of
      Inl _ \<Rightarrow> False
    | Inr opened \<Rightarrow>
        (case read_all [] (oa_reader opened) of Inl _ \<Rightarrow> False | Inr payload \<Rightarrow> length payload = expected))"

definition duration_warning :: "rstr \<Rightarrow> int \<Rightarrow> f64 option \<Rightarrow> report" where
  "duration_warning path points duration = (case duration of
      None \<Rightarrow> []
    | Some d \<Rightarrow>
        let expected_points = f64_as (- (2 ^ 63)) (2 ^ 63 - 1) (f64_add (f64_mul d (f64_of_int 10)) (f64_nearest False 1 2));
            diff = \<bar>expected_points - points\<bar>
        in if 2 < diff
           then [push_warning (waveform_text [] path
                  (lit '' points='' @ show_int points @ lit '' differs from duration='' @ format_g_precision d 6
                    @ lit '' ('' @ show_int diff @ lit '' buckets)''))]
           else [])"

definition verify_waveform :: "(bytes \<Rightarrow> bytes) \<Rightarrow> backend \<Rightarrow> track \<Rightarrow> report" where
  "verify_waveform sha256 be t = (case tr_waveform t of
      None \<Rightarrow> []
    | Some w \<Rightarrow>
        let path = wf_path w in
        fst (verify_one sha256 be path (wf_sha256 w) ''waveform'' None) @
        (case size_of be path of
           Inl _ \<Rightarrow> []
         | Inr len \<Rightarrow>
             let expected = min (nat (wf_points w) * 2) (u64_limit - 1) in
             if len \<noteq> expected
             then [push_error (waveform_text [] path
                    (lit '' payload size inconsistent with points ('' @ show_nat len @ lit '' vs '' @ show_nat expected @ lit '')''))]
             else if MAX_PAYLOAD_BYTES < len
             then [push_error (waveform_text [] path (lit '' exceeds per-track payload limit''))]
             else if \<not> read_payload be path expected
             then [push_error (waveform_text (lit ''cannot read '') path [])]
             else duration_warning path (wf_points w) (tr_duration t)))"

section \<open>The whole package\<close>

definition asset_pair :: "asset \<Rightarrow> declared_asset" where
  "asset_pair a = (as_path a, as_sha256 a)"

definition representation_pair :: "representation \<Rightarrow> declared_asset" where
  "representation_pair r = (rp_path r, rp_sha256 r)"

definition lyrics_pair :: "lyrics_ref \<Rightarrow> declared_asset" where
  "lyrics_pair l = (ly_path l, ly_sha256 l)"

definition waveform_pair :: "waveform_ref \<Rightarrow> declared_asset" where
  "waveform_pair w = (wf_path w, wf_sha256 w)"

definition verify_track :: "(bytes \<Rightarrow> bytes) \<Rightarrow> backend \<Rightarrow> track \<Rightarrow> budget option \<Rightarrow> report \<times> budget option" where
  "verify_track sha256 be t b =
     (case verify_assets sha256 be [asset_pair (tr_audio t)] ''track'' b of (f1, b1) \<Rightarrow>
      case verify_assets sha256 be (map representation_pair (tr_representations t)) ''representation'' b1 of (f2, b2) \<Rightarrow>
      case verify_assets sha256 be (map lyrics_pair (tr_lyrics t)) ''lyrics'' b2 of (f3, b3) \<Rightarrow>
      (f1 @ verify_waveform sha256 be t @ f2 @ f3, b3))"

fun verify_tracks :: "(bytes \<Rightarrow> bytes) \<Rightarrow> backend \<Rightarrow> track list \<Rightarrow> budget option \<Rightarrow> report \<times> budget option" where
  "verify_tracks sha256 be [] b = ([], b)"
| "verify_tracks sha256 be (t # ts) b =
     (case verify_track sha256 be t b of (f, b') \<Rightarrow>
      case verify_tracks sha256 be ts b' of (fs, b'') \<Rightarrow> (f @ fs, b''))"

definition verify_extra_files :: "backend \<Rightarrow> manifest \<Rightarrow> report" where
  "verify_extra_files be m =
     map (\<lambda>file. push_warning (lit ''unreferenced file '' @ squoted file))
       (filter (\<lambda>file. file \<notin> set (meta_files be) \<and> file \<notin> set (referenced_paths m)) (list_files be))"

definition verify :: "(bytes \<Rightarrow> bytes) \<Rightarrow> manifest \<Rightarrow> backend \<Rightarrow> report" where
  "verify sha256 m be = (case validate_for_write m of
      Inl _ \<Rightarrow> [push_error (lit ''manifest: mutable manifest fails validation'')]
    | Inr _ \<Rightarrow>
      (case verify_tracks sha256 be (concat (map di_tracks (mf_media m))) (Some budget_empty) of (f1, b1) \<Rightarrow>
       case verify_assets sha256 be (map (\<lambda>w. asset_pair (aw_asset w)) (mf_artwork m)) ''artwork'' b1 of (f2, b2) \<Rightarrow>
       case verify_assets sha256 be (map asset_pair (mf_booklet m)) ''booklet'' b2 of (f3, b3) \<Rightarrow>
       case verify_assets sha256 be (map asset_pair (mf_lyrics m)) ''lyrics'' b3 of (f4, b4) \<Rightarrow>
       case verify_assets sha256 be (map asset_pair (mf_extras m)) ''extras'' b4 of (f5, b5) \<Rightarrow>
       case verify_assets sha256 be (map (\<lambda>a. asset_pair (an_asset a)) (mf_analysis m)) ''analysis'' b5 of (f6, b6) \<Rightarrow>
       f1 @ f2 @ f3 @ f4 @ f5 @ f6 @ verify_extra_files be m @ verify_extra be m))"

end
