(* ===== verification/Storage_Mpak.thy ===== *)
theory Storage_Mpak
  imports Validation Mpak_Write
begin

text \<open>
  The MPAK backend (\<open>src/storage/mpak.rs\<close>): the container's own findings, its verification, and the packing of
  a verified bundle (\<open>pack_directory_to_writer\<close> of \<open>src/storage/directory.rs\<close>, over any backend, with
  \<open>canonical_pack_order\<close> of \<open>src/format/mpak/write.rs\<close>).
\<close>

section \<open>Container findings\<close>

text \<open>\<open>hash_prefix\<close>: the source read in 64 KiB steps up to the length.\<close>

function prefix_bytes :: "byte_source \<Rightarrow> nat \<Rightarrow> nat \<Rightarrow> bytes \<Rightarrow> error + bytes" where
  "prefix_bytes src len pos acc =
     (if len \<le> pos then Inr acc
      else let want = min READ_BUFFER (len - pos) in
        case read_exact src pos want of
          Inl e \<Rightarrow> Inl e
        | Inr chunk \<Rightarrow> prefix_bytes src len (pos + want) (acc @ chunk))"
  by pat_completeness auto
termination
  by (relation "measure (\<lambda>(src, len, pos, acc). len - pos)") (auto simp: READ_BUFFER_def)

declare prefix_bytes.simps [simp del]

definition hash_prefix :: "(bytes \<Rightarrow> bytes) \<Rightarrow> byte_source \<Rightarrow> nat \<Rightarrow> error + bytes" where
  "hash_prefix sha256 src len = (case prefix_bytes src len 0 [] of Inl e \<Rightarrow> Inl e | Inr bs \<Rightarrow> Inr (sha256 bs))"

definition collect_track_assets :: "track \<Rightarrow> declared_asset list" where
  "collect_track_assets t = asset_pair (tr_audio t) # map representation_pair (tr_representations t)
     @ (case tr_waveform t of Some w \<Rightarrow> [waveform_pair w] | None \<Rightarrow> [])"

definition shared_assets :: "manifest \<Rightarrow> declared_asset list" where
  "shared_assets m = map (\<lambda>w. asset_pair (aw_asset w)) (mf_artwork m) @ map asset_pair (mf_booklet m)
     @ map asset_pair (mf_lyrics m) @ map asset_pair (mf_extras m) @ map (\<lambda>a. asset_pair (an_asset a)) (mf_analysis m)"

definition collect_manifest_assets :: "manifest \<Rightarrow> declared_asset list" where
  "collect_manifest_assets m =
     concat (map (\<lambda>d. concat (map collect_track_assets (di_tracks d))) (mf_media m)) @ shared_assets m"

definition index_finding :: "mpak_reader \<Rightarrow> declared_asset \<Rightarrow> report" where
  "index_finding r a = (case a of (path, sha_hex) \<Rightarrow>
     if member r path = None then [push_error (lit ''index: missing entry for '' @ squoted path)]
     else case (indx_sha256 r path, sha256_hex_to_bytes sha_hex) of
       (Some indx_sha, Some declared) \<Rightarrow>
         if indx_sha \<noteq> declared then [push_error (lit ''index: checksum mismatch '' @ squoted path)] else []
     | _ \<Rightarrow> [])"

definition index_findings :: "mpak_reader \<Rightarrow> manifest \<Rightarrow> report" where
  "index_findings r m =
     (if \<not> indx_present r then [push_warning (lit ''index: missing INDX; sequential scan used'')]
      else (if indx_extra r then [push_warning (lit ''index: extra INDX block ignored'')] else []) @
        (if indx_invalid r then
           (if indx_duplicate r then [push_error (lit ''index: duplicate INDX path; index discarded'')] else []) @
           [push_warning (lit ''index: corrupt INDX discarded; sequential scan used'')]
         else concat (map (index_finding r) (collect_manifest_assets m))))"

definition tail_findings :: "(bytes \<Rightarrow> bytes) \<Rightarrow> byte_source \<Rightarrow> mpak_reader \<Rightarrow> report" where
  "tail_findings sha256 src r =
     (if \<not> tail_present r then [push_warning (lit ''completeness unproven (no TAIL)'')]
      else (if tail_extra r then [push_warning (lit ''tail: extra TAIL block ignored'')] else []) @
        (if tail_malformed r then [push_warning (lit ''tail: malformed TAIL ignored'')]
         else
           (if tail_total_size r \<noteq> file_size r then [push_error (lit ''tail: total size mismatch'')] else []) @
           (if tail_objects r \<noteq> length (members r)
            then [push_error (lit ''tail: object count mismatch ('' @ show_nat (tail_objects r) @ lit '' vs ''
                    @ show_nat (length (members r)) @ lit '')'')] else []) @
           (if tail_indx_offset r \<noteq> (if indx_present r then indx_offset r else 0)
            then [push_error (lit ''tail: INDX offset mismatch'')] else []) @
           (case hash_prefix sha256 src (tail_offset r) of
              Inl _ \<Rightarrow> [push_error (lit ''tail: package digest cannot be computed'')]
            | Inr digest \<Rightarrow>
                if digest \<noteq> tail_digest r then [push_error (lit ''tail: package digest mismatch'')] else [])))"

definition verify_container :: "(bytes \<Rightarrow> bytes) \<Rightarrow> mpak_backend \<Rightarrow> manifest \<Rightarrow> report" where
  "verify_container sha256 mb m =
     (let r = mb_reader mb in
      (if 0 < minor r
       then [push_warning (lit ''container: newer minor version '' @ show_nat (unat (minor r)) @ lit '' (downgrade-compatible)'')]
       else []) @
      (if reserved_nonzero r then [push_warning (lit ''container: nonzero reserved header bytes tolerated'')] else []) @
      (if resynced r
       then [push_warning (lit ''container: damaged block framing; best-effort resynchronization used (recovery scan)'')]
       else []) @
      (if 0 < duplicate_members r
       then (case duplicate_example r of
               Some example \<Rightarrow> [push_error (lit ''duplicate object path '' @ squoted example)]
             | None \<Rightarrow> [])
       else []) @
      index_findings r m @ tail_findings sha256 (mb_source mb) r)"

section \<open>The backend\<close>

definition mpak_as_backend :: "(bytes \<Rightarrow> bytes) \<Rightarrow> mpak_backend \<Rightarrow> backend" where
  "mpak_as_backend sha256 mb =
     \<lparr>open_asset = mpak_open_asset mb, object_id_of = (\<lambda>_. None),
      list_files = map m_path (members (mb_reader mb)), meta_files = [],
      verify_extra = verify_container sha256 mb\<rparr>"

text \<open>\<open>verify_mpak\<close>. \<open>None\<close> is the JSON parser out of fuel, which does not happen.\<close>

definition verify_mpak :: "(bytes \<Rightarrow> bytes) \<Rightarrow> byte_source \<Rightarrow> (error + report) option" where
  "verify_mpak sha256 src = (case mpak_open src of
      Inl e \<Rightarrow> Some (Inl e)
    | Inr mb \<Rightarrow>
        (case parse_manifest (mb_manifest mb) of
           None \<Rightarrow> None
         | Some (Inl e) \<Rightarrow> Some (Inl e)
         | Some (Inr pm) \<Rightarrow> Some (Inr (verify sha256 (pm_manifest pm) (mpak_as_backend sha256 mb)))))"

section \<open>Packing\<close>

definition all_tracks :: "manifest \<Rightarrow> track list" where
  "all_tracks m = concat (map di_tracks (mf_media m))"

definition canonical_pack_order :: "manifest \<Rightarrow> declared_asset list" where
  "canonical_pack_order m =
     map (\<lambda>t. asset_pair (tr_audio t)) (all_tracks m)
     @ concat (map (\<lambda>t. map representation_pair (tr_representations t)) (all_tracks m))
     @ concat (map (\<lambda>t. case tr_waveform t of Some w \<Rightarrow> [waveform_pair w] | None \<Rightarrow> []) (all_tracks m))
     @ concat (map (\<lambda>t. map lyrics_pair (tr_lyrics t)) (all_tracks m))
     @ shared_assets m"

definition bundle_source :: "backend \<Rightarrow> bytes \<Rightarrow> manifest \<Rightarrow> pack_source" where
  "bundle_source be man m =
     \<lparr>ps_manifest = man,
      ps_members = map (\<lambda>(path, sha_hex). \<lparr>pm_path = path, pm_sha256_hex = sha_hex\<rparr>) (canonical_pack_order m),
      ps_member_size = (\<lambda>p. case open_asset be p of Inl e \<Rightarrow> Inl (map_backend_error e p) | Inr a \<Rightarrow> Inr (oa_len a)),
      ps_read_member = (\<lambda>p. case open_asset be p of Inl e \<Rightarrow> Inl (map_backend_error e p) | Inr a \<Rightarrow> Inr (oa_reader a))\<rparr>"

text \<open>
  \<open>pack_directory_to_writer\<close>: \<open>man\<close> is what the manifest file held when the bundle was opened, and \<open>reread\<close> the
  result of reading it again after the verification.
\<close>

definition pack_bundle :: "(bytes \<Rightarrow> bytes) \<Rightarrow> backend \<Rightarrow> bytes \<Rightarrow> error + bytes \<Rightarrow> (error + bytes) option" where
  "pack_bundle sha256 be man reread = (case parse_manifest man of
      None \<Rightarrow> None
    | Some (Inl e) \<Rightarrow> Some (Inl e)
    | Some (Inr pm) \<Rightarrow>
        let report = verify sha256 (pm_manifest pm) be in
        if \<not> is_ok report
        then Some (Inl (Checksum MANIFEST_NAME (lit ''a verified package'')
                (show_nat (report_errors report) @ lit '' verification error(s)'')))
        else (case reread of
          Inl e \<Rightarrow> Some (Inl e)
        | Inr fresh \<Rightarrow>
          (case parse_manifest fresh of
             None \<Rightarrow> None
           | Some (Inl e) \<Rightarrow> Some (Inl e)
           | Some (Inr fresh_pm) \<Rightarrow>
               Some (and_then (write_manifest (pm_manifest fresh_pm)) (\<lambda>a.
                     and_then (write_manifest (pm_manifest pm)) (\<lambda>b.
                     if a \<noteq> b
                     then Inl (Checksum MANIFEST_NAME (lit ''verified manifest'') (lit ''manifest changed during pack''))
                     else write_mpak sha256 (bundle_source be fresh (pm_manifest pm))))))))"

end
