(* ===== verification/Storage_Directory.thy ===== *)
theory Storage_Directory
  imports Storage_Mpak Paths
begin

text \<open>
  Directory bundles (\<open>src/storage/directory.rs\<close>, unix target). The file system is a parameter: the canonical
  form of a path, its metadata without following a final link, an open with the metadata of the handle and
  the results of its reads, and a listing of a directory. Paths are lists of components. It does not change
  while a bundle is used.
\<close>

section \<open>The file system\<close>

record file_system =
  canonicalize :: "rstr list \<Rightarrow> rstr + rstr list"
  lstat :: "rstr list \<Rightarrow> file_stat option"
  open_file :: "rstr list \<Rightarrow> ((rstr + file_stat) \<times> read_results) option"
  read_dir :: "rstr list \<Rightarrow> rstr list option"

record directory_backend =
  db_root :: "rstr list"
  db_root_real :: "rstr list"
  db_manifest :: bytes

section \<open>Opening a bundle\<close>

definition read_manifest_at :: "file_system \<Rightarrow> rstr list \<Rightarrow> error + bytes" where
  "read_manifest_at fs path = read_manifest_hardened (lstat fs path) (map_option fst (open_file fs path))
     (case open_file fs path of None \<Rightarrow> Inr [] | Some (_, reads) \<Rightarrow> read_all [] reads)"

text \<open>\<open>DirectoryBackend::open\<close>; \<open>name\<close> is the root as it is displayed.\<close>

definition directory_open :: "file_system \<Rightarrow> rstr \<Rightarrow> rstr list \<Rightarrow> error + directory_backend" where
  "directory_open fs name root = (case lstat fs root of
      None \<Rightarrow> Inl (Missing name)
    | Some meta \<Rightarrow>
        if \<not> fs_directory meta then bad (lit ''package root '' @ squoted name @ lit '' is not a directory'')
        else case canonicalize fs root of
          Inl e \<Rightarrow> Inl (Io (lit ''cannot resolve package root '' @ squoted name @ lit '': '' @ e))
        | Inr root_real \<Rightarrow>
            and_then (read_manifest_at fs (root @ [MANIFEST_NAME])) (\<lambda>man.
            Inr \<lparr>db_root = root, db_root_real = root_real, db_manifest = man\<rparr>))"

definition reread_manifest :: "file_system \<Rightarrow> directory_backend \<Rightarrow> error + bytes" where
  "reread_manifest fs db = read_manifest_at fs (db_root db @ [MANIFEST_NAME])"

section \<open>Objects\<close>

text \<open>
  \<open>resolve\<close>: every prefix that resolves must lie below the real root, component by component; the walk stops at
  the first prefix that does not resolve.
\<close>

fun prefixes_contained :: "file_system \<Rightarrow> rstr list \<Rightarrow> rstr list \<Rightarrow> rstr list \<Rightarrow> bool" where
  "prefixes_contained fs root_real pre [] = True"
| "prefixes_contained fs root_real pre (segment # ss) =
     (case canonicalize fs (root_real @ pre @ [segment]) of
        Inl e \<Rightarrow> True
      | Inr resolved \<Rightarrow>
          if take (length root_real) resolved \<noteq> root_real then False
          else prefixes_contained fs root_real (pre @ [segment]) ss)"

definition resolve_path :: "file_system \<Rightarrow> directory_backend \<Rightarrow> rstr \<Rightarrow> rstr list option" where
  "resolve_path fs db rel =
     (if prefixes_contained fs (db_root_real db) [] (segments rel) then Some (db_root_real db @ segments rel) else None)"

definition directory_open_asset :: "file_system \<Rightarrow> directory_backend \<Rightarrow> rstr \<Rightarrow> backend_error + opened_asset" where
  "directory_open_asset fs db path = (case resolve_path fs db path of
      None \<Rightarrow> Inl UnsafePath
    | Some full \<Rightarrow>
      (case lstat fs full of
         None \<Rightarrow> Inl MissingObject
       | Some l \<Rightarrow>
           if fs_symlink l \<or> \<not> fs_regular l then Inl MissingObject
           else case open_file fs full of
             None \<Rightarrow> Inl MissingObject
           | Some (Inl e, _) \<Rightarrow> Inl (BackendIo e)
           | Some (Inr meta, reads) \<Rightarrow>
               if \<not> fs_regular meta then Inl MissingObject
               else if 1 < fs_nlink meta then Inl MissingObject
               else Inr \<lparr>oa_len = fs_len meta, oa_reader = reads\<rparr>))"

definition directory_object_id :: "file_system \<Rightarrow> directory_backend \<Rightarrow> rstr \<Rightarrow> object_id option" where
  "directory_object_id fs db path = (case resolve_path fs db path of
      None \<Rightarrow> None
    | Some full \<Rightarrow> map_option fs_identity (lstat fs full))"

section \<open>Listing\<close>

text \<open>One directory of the walk: the directories to visit, last entry on top, and the files it adds.\<close>

definition rel_join :: "rstr \<Rightarrow> rstr \<Rightarrow> rstr" where
  "rel_join base name = (if base = [] then name else base @ SLASH # name)"

fun walk_entries ::
    "file_system \<Rightarrow> rstr list \<Rightarrow> rstr \<Rightarrow> rstr list \<Rightarrow> (rstr list \<times> rstr) list \<Rightarrow> rstr list
       \<Rightarrow> (rstr list \<times> rstr) list \<times> rstr list" where
  "walk_entries fs dir base [] stack files = (stack, files)"
| "walk_entries fs dir base (name # names) stack files =
     (let rel = rel_join base name in
      if \<not> utf8_valid name \<or> PATH_MAX_BYTES < length rel then walk_entries fs dir base names stack files
      else case lstat fs (dir @ [name]) of
        None \<Rightarrow> walk_entries fs dir base names stack files
      | Some l \<Rightarrow>
          if fs_directory l then walk_entries fs dir base names ((dir @ [name], rel) # stack) files
          else if fs_regular l then walk_entries fs dir base names stack (files @ [rel])
          else walk_entries fs dir base names stack files)"

text \<open>\<open>walk_files\<close>; \<open>None\<close> is a walk that does not end.\<close>

partial_function (option) walk_loop :: "file_system \<Rightarrow> (rstr list \<times> rstr) list \<Rightarrow> rstr list \<Rightarrow> rstr list option" where
  "walk_loop fs stack files = (case stack of
      [] \<Rightarrow> Some files
    | (dir, base) # rest \<Rightarrow>
        (case read_dir fs dir of
           None \<Rightarrow> walk_loop fs rest files
         | Some names \<Rightarrow>
             (case walk_entries fs dir base names rest files of (stack', files') \<Rightarrow> walk_loop fs stack' files')))"

definition walk_files :: "file_system \<Rightarrow> directory_backend \<Rightarrow> rstr list option" where
  "walk_files fs db = map_option sort (walk_loop fs [(db_root db, [])] [])"

section \<open>The backend, verification and packing\<close>

definition directory_as_backend :: "file_system \<Rightarrow> directory_backend \<Rightarrow> rstr list \<Rightarrow> backend" where
  "directory_as_backend fs db files =
     \<lparr>open_asset = directory_open_asset fs db, object_id_of = directory_object_id fs db,
      list_files = files, meta_files = [MANIFEST_NAME], verify_extra = (\<lambda>_. [])\<rparr>"

definition verify_directory :: "(bytes \<Rightarrow> bytes) \<Rightarrow> file_system \<Rightarrow> rstr \<Rightarrow> rstr list \<Rightarrow> (error + report) option" where
  "verify_directory sha256 fs name root = (case directory_open fs name root of
      Inl e \<Rightarrow> Some (Inl e)
    | Inr db \<Rightarrow>
        (case parse_manifest (db_manifest db) of
           None \<Rightarrow> None
         | Some (Inl e) \<Rightarrow> Some (Inl e)
         | Some (Inr pm) \<Rightarrow>
             map_option (\<lambda>files. Inr (verify sha256 (pm_manifest pm) (directory_as_backend fs db files))) (walk_files fs db)))"

definition pack_directory_to_writer :: "(bytes \<Rightarrow> bytes) \<Rightarrow> file_system \<Rightarrow> rstr \<Rightarrow> rstr list \<Rightarrow> (error + bytes) option" where
  "pack_directory_to_writer sha256 fs name root = (case directory_open fs name root of
      Inl e \<Rightarrow> Some (Inl e)
    | Inr db \<Rightarrow>
        (case walk_files fs db of
           None \<Rightarrow> None
         | Some files \<Rightarrow>
             pack_bundle sha256 (directory_as_backend fs db files) (db_manifest db) (reread_manifest fs db)))"

end
