(* ===== verification/Verify_Sound.thy ===== *)
theory Verify_Sound
  imports Storage_Mpak
begin

text \<open>
  What a report without errors says: the traversal as one run over the budgeted assets, an intact asset, and
  the two directions between them, for backends that never give two paths one identity (soundness) and for
  backends without identities (completeness).
\<close>

section \<open>Intact assets\<close>

definition intact :: "(bytes \<Rightarrow> bytes) \<Rightarrow> backend \<Rightarrow> declared_asset \<Rightarrow> bool" where
  "intact sha256 be a \<longleftrightarrow> (\<exists>opened content. open_asset be (fst a) = Inr opened \<and> oa_len opened \<le> MAX_FILE_BYTES
     \<and> read_all [] (oa_reader opened) = Inr content \<and> to_hex (sha256 content) = snd a)"

lemma check_digest_ok:
  "is_ok (check_digest sha256 be path declared kind) \<longleftrightarrow>
     (\<exists>opened content. open_asset be path = Inr opened \<and> read_all [] (oa_reader opened) = Inr content
        \<and> to_hex (sha256 content) = declared)"
  by (auto simp: check_digest_def sha256_reader_def hex_eq_def split: sum.splits)

lemma verify_one_unbudgeted:
  "is_ok (fst (verify_one sha256 be path declared kind None)) \<longleftrightarrow> intact sha256 be (path, declared)"
  by (auto simp: verify_one_def intact_def check_digest_ok Let_def split: sum.splits)

section \<open>The traversal as one run\<close>

fun run_assets :: "(bytes \<Rightarrow> bytes) \<Rightarrow> backend \<Rightarrow> (string \<times> declared_asset) list \<Rightarrow> budget option \<Rightarrow> report \<times> budget option" where
  "run_assets sha256 be [] b = ([], b)"
| "run_assets sha256 be ((kind, path, declared) # as) b =
     (case verify_one sha256 be path declared kind b of (f, b') \<Rightarrow>
      case run_assets sha256 be as b' of (fs, b'') \<Rightarrow> (f @ fs, b''))"

lemma run_append:
  "run_assets sha256 be (xs @ ys) b =
     (case run_assets sha256 be xs b of (f, b') \<Rightarrow> case run_assets sha256 be ys b' of (g, b'') \<Rightarrow> (f @ g, b''))"
  by (induction xs arbitrary: b) (auto split: prod.split)

lemma verify_assets_run: "verify_assets sha256 be as kind b = run_assets sha256 be (map (Pair kind) as) b"
  by (induction sha256 be as kind b rule: verify_assets.induct) (auto split: prod.split)

definition track_run :: "track \<Rightarrow> (string \<times> declared_asset) list" where
  "track_run t = (''track'', asset_pair (tr_audio t)) # map (Pair ''representation'') (map representation_pair (tr_representations t))
     @ map (Pair ''lyrics'') (map lyrics_pair (tr_lyrics t))"

lemma verify_track_run:
  "snd (verify_track sha256 be t b) = snd (run_assets sha256 be (track_run t) b)"
  "is_ok (fst (verify_track sha256 be t b)) \<longleftrightarrow>
     is_ok (fst (run_assets sha256 be (track_run t) b)) \<and> is_ok (verify_waveform sha256 be t)"
  using run_append [of sha256 be "[(''track'', asset_pair (tr_audio t))]"]
  by (auto simp: verify_track_def verify_assets_run track_run_def run_append asset_pair_def split: prod.splits)

lemma verify_tracks_run:
  "snd (verify_tracks sha256 be ts b) = snd (run_assets sha256 be (concat (map track_run ts)) b)
   \<and> (is_ok (fst (verify_tracks sha256 be ts b)) \<longleftrightarrow>
        is_ok (fst (run_assets sha256 be (concat (map track_run ts)) b)) \<and> (\<forall>t\<in>set ts. is_ok (verify_waveform sha256 be t)))"
proof (induction ts arbitrary: b)
  case (Cons t ts)
  obtain f b' where t: "verify_track sha256 be t b = (f, b')" by fastforce
  obtain g c where r: "run_assets sha256 be (track_run t) b = (g, c)" by fastforce
  have "c = b'" "is_ok f \<longleftrightarrow> is_ok g \<and> is_ok (verify_waveform sha256 be t)"
    using verify_track_run [of sha256 be t b] t r by simp_all
  with Cons.IH [of b'] t r show ?case
    by (auto simp: run_append split: prod.splits)
qed simp

definition package_run :: "manifest \<Rightarrow> (string \<times> declared_asset) list" where
  "package_run m = concat (map track_run (all_tracks m))
     @ map (Pair ''artwork'') (map (\<lambda>w. asset_pair (aw_asset w)) (mf_artwork m))
     @ map (Pair ''booklet'') (map asset_pair (mf_booklet m)) @ map (Pair ''lyrics'') (map asset_pair (mf_lyrics m))
     @ map (Pair ''extras'') (map asset_pair (mf_extras m)) @ map (Pair ''analysis'') (map (\<lambda>a. asset_pair (an_asset a)) (mf_analysis m))"

lemma verify_extra_files_ok [simp]: "is_ok (verify_extra_files be m)"
  by (simp add: verify_extra_files_def)

lemma verify_ok:
  "is_ok (verify sha256 m be) \<longleftrightarrow> validate_for_write m = Inr ()
     \<and> is_ok (fst (run_assets sha256 be (package_run m) (Some budget_empty)))
     \<and> (\<forall>t\<in>set (all_tracks m). is_ok (verify_waveform sha256 be t)) \<and> is_ok (verify_extra be m)"
proof (cases "validate_for_write m")
  case (Inr u)
  have ts: "snd (verify_tracks sha256 be (concat (map di_tracks (mf_media m))) b)
      = snd (run_assets sha256 be (concat (map track_run (all_tracks m))) b)"
    "is_ok (fst (verify_tracks sha256 be (concat (map di_tracks (mf_media m))) b)) \<longleftrightarrow>
      is_ok (fst (run_assets sha256 be (concat (map track_run (all_tracks m))) b))
      \<and> (\<forall>t\<in>set (all_tracks m). is_ok (verify_waveform sha256 be t))" for b
    using verify_tracks_run [of sha256 be "all_tracks m" b] by (simp_all add: all_tracks_def)
  obtain f b1 where v: "verify_tracks sha256 be (concat (map di_tracks (mf_media m))) (Some budget_empty) = (f, b1)"
    by fastforce
  obtain g c1 where r: "run_assets sha256 be (concat (map track_run (all_tracks m))) (Some budget_empty) = (g, c1)"
    by fastforce
  have "c1 = b1" "is_ok f \<longleftrightarrow> is_ok g \<and> (\<forall>t\<in>set (all_tracks m). is_ok (verify_waveform sha256 be t))"
    using ts [of "Some budget_empty"] v r by simp_all
  with Inr v r show ?thesis
    by (auto simp: verify_def package_run_def run_append verify_assets_run split: prod.splits)
qed (simp add: verify_def)

section \<open>Soundness\<close>

text \<open>The identity contract of a backend: two paths with one identity are one path.\<close>

locale object_identity =
  fixes be :: backend
  assumes same_object: "object_id_of be p = Some i \<Longrightarrow> object_id_of be q = Some i \<Longrightarrow> p = q"
begin

definition unseen :: "rstr \<Rightarrow> budget option \<Rightarrow> bool" where
  "unseen p ob \<longleftrightarrow> (\<exists>b. ob = Some b \<and> (\<forall>i. object_id_of be p = Some i \<longrightarrow> i \<notin> seen b))"

lemma verify_one_sound:
  assumes "is_ok (fst (verify_one sha256 be path declared kind ob))" and "unseen path ob"
  shows "intact sha256 be (path, declared)"
    and "q \<noteq> path \<Longrightarrow> unseen q ob \<Longrightarrow> unseen q (snd (verify_one sha256 be path declared kind ob))"
proof -
  obtain b where b: "ob = Some b" "\<forall>i. object_id_of be path = Some i \<longrightarrow> i \<notin> seen b"
    using assms(2) by (auto simp: unseen_def)
  obtain opened where o': "open_asset be path = Inr opened" "oa_len opened \<le> MAX_FILE_BYTES"
    using assms(1) by (auto simp: verify_one_def Let_def split: sum.splits if_splits)
  have v: "verify_one sha256 be path declared kind ob
      = (case charge_budget be path (oa_len opened) b of
           (AlreadyHashed, b') \<Rightarrow> ([], Some b')
         | (OverBudget, b') \<Rightarrow> ([push_error (finding_text kind
               (lit ''aggregate referenced bytes exceed '' @ show_nat MAX_TOTAL_BYTES @ lit ''-byte limit''))], Some b')
         | (Charged, b') \<Rightarrow> (check_digest sha256 be path declared kind, Some b'))"
    using o' b(1) by (simp add: verify_one_def)
  have c: "fst (charge_budget be path (oa_len opened) b) \<noteq> AlreadyHashed"
    using b(2) by (simp add: charge_budget_def Let_def split: option.split)
  with v assms(1) o' show "intact sha256 be (path, declared)"
    by (auto simp: intact_def check_digest_ok split: prod.splits charge.splits)
  have "seen (snd (charge_budget be path (oa_len opened) b))
      \<subseteq> seen b \<union> {i. object_id_of be path = Some i}"
    by (auto simp: charge_budget_def Let_def split: option.splits if_splits)
  then show "q \<noteq> path \<Longrightarrow> unseen q ob \<Longrightarrow> unseen q (snd (verify_one sha256 be path declared kind ob))"
    using v same_object b(1) by (auto simp: unseen_def split: prod.splits charge.splits)
qed

lemma run_sound:
  "is_ok (fst (run_assets sha256 be as ob)) \<Longrightarrow> distinct (map (\<lambda>a. fst (snd a)) as)
    \<Longrightarrow> (\<forall>a\<in>set as. unseen (fst (snd a)) ob) \<Longrightarrow> \<forall>a\<in>set as. intact sha256 be (snd a)"
proof (induction as arbitrary: ob)
  case (Cons a as)
  obtain kind path declared where a: "a = (kind, path, declared)"
    by (cases a) auto
  obtain f ob' where v: "verify_one sha256 be path declared kind ob = (f, ob')"
    by fastforce
  have ok: "is_ok f" "is_ok (fst (run_assets sha256 be as ob'))"
    using Cons.prems(1) a v by (auto split: prod.splits)
  have path: "is_ok (fst (verify_one sha256 be path declared kind ob))" "unseen path ob"
    using v ok(1) Cons.prems(3) a by simp_all
  have "\<forall>c\<in>set as. unseen (fst (snd c)) ob'"
  proof
    fix c assume c: "c \<in> set as"
    then have "fst (snd c) \<in> (\<lambda>a. fst (snd a)) ` set as"
      by simp
    then have "fst (snd c) \<noteq> path"
      using Cons.prems(2) a by auto
    then show "unseen (fst (snd c)) ob'"
      using verify_one_sound(2) [OF path] Cons.prems(3) c v by simp
  qed
  with Cons.IH [OF ok(2)] Cons.prems(2) verify_one_sound(1) [OF path] a show ?case
    by auto
qed simp

lemma unseen_empty: "unseen p (Some budget_empty)"
  by (simp add: unseen_def budget_empty_def)

lemma verify_waveform_sound:
  "is_ok (verify_waveform sha256 be t) \<Longrightarrow> tr_waveform t = Some w \<Longrightarrow> intact sha256 be (waveform_pair w)"
  by (auto simp: verify_waveform_def Let_def verify_one_unbudgeted waveform_pair_def)

end

section \<open>Completeness\<close>

text \<open>Without identities a run over intact assets of a bounded aggregate size finds nothing.\<close>

definition asset_len :: "backend \<Rightarrow> rstr \<Rightarrow> nat" where
  "asset_len be p = (case open_asset be p of Inl _ \<Rightarrow> 0 | Inr opened \<Rightarrow> oa_len opened)"

lemma verify_one_complete:
  assumes "intact sha256 be (path, declared)" and "object_id_of be path = None"
    and "total_bytes b + asset_len be path \<le> MAX_TOTAL_BYTES"
  shows "verify_one sha256 be path declared kind (Some b)
    = ([], Some (b\<lparr>total_bytes := total_bytes b + asset_len be path\<rparr>))"
proof -
  obtain opened content where o': "open_asset be path = Inr opened" "oa_len opened \<le> MAX_FILE_BYTES"
    "read_all [] (oa_reader opened) = Inr content" "to_hex (sha256 content) = declared"
    using assms(1) by (auto simp: intact_def)
  have "total_bytes b + oa_len opened \<le> MAX_TOTAL_BYTES" "MAX_TOTAL_BYTES < u64_limit"
    using assms(3) o'(1) by (simp_all add: asset_len_def limits u64_limit_def)
  then have "charge_budget be path (oa_len opened) b = (Charged, b\<lparr>total_bytes := total_bytes b + oa_len opened\<rparr>)"
    using assms(2) by (simp add: charge_budget_def Let_def min_def)
  with o' show ?thesis
    by (simp add: verify_one_def asset_len_def check_digest_def sha256_reader_def hex_eq_def)
qed

lemma run_complete:
  assumes "\<And>p. object_id_of be p = None"
  shows "\<forall>a\<in>set as. intact sha256 be (snd a) \<Longrightarrow> total_bytes b + sum_list (map (\<lambda>a. asset_len be (fst (snd a))) as) \<le> MAX_TOTAL_BYTES
    \<Longrightarrow> fst (run_assets sha256 be as (Some b)) = []"
proof (induction as arbitrary: b)
  case (Cons a as)
  obtain kind path declared where a: "a = (kind, path, declared)"
    by (cases a) auto
  have "verify_one sha256 be path declared kind (Some b)
      = ([], Some (b\<lparr>total_bytes := total_bytes b + asset_len be path\<rparr>))"
    using Cons.prems a assms by (intro verify_one_complete) simp_all
  with Cons.IH [of "b\<lparr>total_bytes := total_bytes b + asset_len be path\<rparr>"] Cons.prems a show ?case
    by (auto split: prod.split)
qed simp

end
