(* ===== verification/Mpak_Complete.thy ===== *)
theory Mpak_Complete
  imports Mpak_Pack
begin

text \<open>
  When the MPAK writer succeeds: the sources it accepts are exactly those within the limits whose sizes,
  contents and digests are as declared.
\<close>

section \<open>The checks succeed\<close>

lemma check_members_complete:
  "list_all2 (\<lambda>m s. ps_member_size source (pm_path m) = Inr s) ms sizes
    \<Longrightarrow> distinct (map pm_path ms) \<Longrightarrow> set (map pm_path ms) \<inter> seen = {}
    \<Longrightarrow> \<forall>m\<in>set ms. 0 < length (pm_path m) \<and> length (pm_path m) \<le> PATH_MAX_BYTES \<and> is_valid_sha256_hex (pm_sha256_hex m)
    \<Longrightarrow> \<forall>s\<in>set sizes. s \<le> MAX_FILE_BYTES \<Longrightarrow> agg + sum_list sizes < u64_limit
    \<Longrightarrow> check_members source seen agg ms = Inr (agg + sum_list sizes, sizes)"
proof (induction ms sizes arbitrary: seen agg rule: list_all2_induct)
  case (Cons m ms s sizes)
  from Cons.IH [of "insert (pm_path m) seen" "agg + s"] Cons.hyps Cons.prems show ?case
    by (auto simp: Let_def checked_add_def add.assoc split: option.splits)
qed simp

lemma indx_payload_size_complete:
  "acc + sum_list (map (\<lambda>m. 50 + length (pm_path m)) ms) < u64_limit
    \<Longrightarrow> indx_payload_size acc ms = Inr (acc + sum_list (map (\<lambda>m. 50 + length (pm_path m)) ms))"
  by (induction ms arbitrary: acc) (simp_all add: checked_add_def add.assoc)

lemma member_offsets_complete:
  "length ms = length cs \<Longrightarrow> pos + sum_list (map (\<lambda>m. 16 + length (pm_path m)) ms) + sum_list (map length cs) < u64_limit
    \<Longrightarrow> member_offsets pos (zip ms (map length cs)) = Inr (offsets_from pos ms cs)"
proof (induction ms cs arbitrary: pos rule: list_induct2)
  case (Cons m ms c cs)
  then show ?case
    by (simp add: checked_add_def BLOCK_HEADER_LEN_def Let_def add.assoc)
qed simp

lemma write_data_complete:
  assumes "packed sha256 source m (length c) c"
  shows "write_data sha256 source m (length c) w = Inr (w @ data_block (pm_path m) c)"
  using assms by (auto simp: packed_def write_data_def data_block_def Let_def)

lemma write_datas_complete:
  "list_all2 (\<lambda>m c. packed sha256 source m (length c) c) ms cs
    \<Longrightarrow> \<exists>w'. write_datas sha256 source w (zip ms (map length cs)) = Inr w'"
  by (induction ms cs arbitrary: w rule: list_all2_induct) (simp_all add: write_data_complete)

lemma copy_member_complete:
  "read_all acc rs = Inr c \<Longrightarrow> length c < u64_limit \<Longrightarrow> copy_member acc (length acc) rs = Inr (c, length c)"
proof (induction rs arbitrary: acc)
  case (Cons r rs)
  show ?case
  proof (cases r)
    case (Inr chunk)
    have grows: "length a \<le> length c" if "read_all a ys = Inr c" for a ys
      using that
    proof (induction ys arbitrary: a)
      case (Cons y ys)
      from Cons.prems Cons.IH [of "a @ (case y of Inl _ \<Rightarrow> [] | Inr d \<Rightarrow> d)"] show ?case
        by (cases y) (auto split: if_splits)
    qed simp
    from Inr Cons.prems Cons.IH [of "acc @ chunk"] show ?thesis
      using grows [of "acc @ chunk" rs] by (auto simp: checked_add_def split: if_splits)
  qed (use Cons.prems in simp)
qed simp

section \<open>The sources that pack\<close>

definition packable :: "(bytes \<Rightarrow> bytes) \<Rightarrow> pack_source \<Rightarrow> bytes list \<Rightarrow> bool" where
  "packable sha256 source cs \<longleftrightarrow>
     length (ps_manifest source) \<le> MAX_MANIFEST_LEN \<and> length (ps_members source) \<le> MAX_MEMBERS
     \<and> distinct (map pm_path (ps_members source))
     \<and> (\<forall>m\<in>set (ps_members source). 0 < length (pm_path m) \<and> length (pm_path m) \<le> PATH_MAX_BYTES
          \<and> is_valid_sha256_hex (pm_sha256_hex m))
     \<and> list_all2 (\<lambda>m c. ps_member_size source (pm_path m) = Inr (length c)) (ps_members source) cs
     \<and> list_all2 (\<lambda>m c. packed sha256 source m (length c) c) (ps_members source) cs
     \<and> (\<forall>c\<in>set cs. length c \<le> MAX_FILE_BYTES) \<and> sum_list (map length cs) \<le> MAX_TOTAL_BYTES"

lemma write_mpak_packable:
  assumes "write_mpak sha256 source = Inr out"
  shows "\<exists>cs. packable sha256 source cs"
proof -
  obtain l where "layout_ok sha256 source l"
    "list_all2 (\<lambda>m c. ps_member_size source (pm_path m) = Inr (length c)) (ps_members source) (lo_contents l)"
    using assms by (rule write_mpak_Inr_sizes)
  then have "packable sha256 source (lo_contents l)"
    by (simp add: packable_def layout_ok_def Let_def)
  then show ?thesis ..
qed

lemma sum_paths_bound:
  assumes "\<forall>m\<in>set ms. length (pm_path m) \<le> PATH_MAX_BYTES" and "length ms \<le> MAX_MEMBERS"
  shows "sum_list (map (\<lambda>m. k + length (pm_path m)) ms) \<le> (k + PATH_MAX_BYTES) * MAX_MEMBERS"
proof -
  have "sum_list (map (\<lambda>m. k + length (pm_path m)) ms) \<le> (k + PATH_MAX_BYTES) * length ms"
    using assms(1) by (induction ms) auto
  also have "\<dots> \<le> (k + PATH_MAX_BYTES) * MAX_MEMBERS"
    using assms(2) by (rule mult_le_mono2)
  finally show ?thesis .
qed

lemma packable_write_mpak:
  assumes "packable sha256 source cs"
  shows "\<exists>out. write_mpak sha256 source = Inr out"
proof -
  define man ms sizes where "man = ps_manifest source" and "ms = ps_members source" and "sizes = map length cs"
  note p = assms [unfolded packable_def man_def [symmetric] ms_def [symmetric]]
  have len: "length ms = length cs"
    using p list_all2_lengthD by blast
  have sizes: "list_all2 (\<lambda>m s. ps_member_size source (pm_path m) = Inr s) ms sizes"
    using p by (simp add: sizes_def list_all2_map2)
  have "sum_list sizes < u64_limit"
    using p by (simp add: sizes_def limits u64_limit_def)
  then have chk: "check_members source {} 0 ms = Inr (sum_list sizes, sizes)"
    using check_members_complete [OF sizes, of "{}" 0] p by (simp add: sizes_def)
  define n pos where "n = 4 + sum_list (map (\<lambda>m. 50 + length (pm_path m)) ms)"
    and "pos = HEADER_LEN + BLOCK_HEADER_LEN + n + BLOCK_HEADER_LEN + length man"
  have bound: "sum_list (map (\<lambda>m. k + length (pm_path m)) ms) \<le> (k + PATH_MAX_BYTES) * MAX_MEMBERS" for k
    using p by (intro sum_paths_bound) auto
  have ind: "indx_payload_size 4 ms = Inr n"
    unfolding n_def using bound [of 50] by (intro indx_payload_size_complete) (simp add: limits u64_limit_def)
  have off: "member_offsets pos (zip ms sizes) = Inr (offsets_from pos ms cs)"
    unfolding sizes_def using bound [of 50] bound [of 16] p
    by (intro member_offsets_complete [OF len]) (simp add: pos_def n_def limits u64_limit_def HEADER_LEN_def BLOCK_HEADER_LEN_def)
  have hex: "\<forall>i\<in>set (sorted_indices ms). sha256_hex_to_bytes (pm_sha256_hex (ms ! i)) \<noteq> None"
    using p by (simp add: sha256_hex_to_bytes_def)
  have dat: "\<exists>w'. write_datas sha256 source w (zip ms sizes) = Inr w'" for w
    using p unfolding sizes_def by (intro write_datas_complete) simp
  have "length man \<le> MAX_MANIFEST_LEN" "length ms \<le> MAX_MEMBERS" "sum_list sizes \<le> MAX_TOTAL_BYTES"
    using p by (simp_all add: sizes_def)
  moreover obtain w' where "write_datas sha256 source
      ((write_header @ block_header (code Indx) n @ be_bytes 4 (length ms) @ concat (map (\<lambda>i. entry_bytes (pm_path (ms ! i))
          (offsets_from pos ms cs ! i) (sizes ! i) (declared (ms ! i))) (sorted_indices ms)))
        @ block_header (code Manf) (length man) @ man) (zip ms sizes) = Inr w'"
    using dat by blast
  ultimately show ?thesis
    unfolding write_mpak_def Let_def man_def [symmetric] ms_def [symmetric]
    by (simp add: chk ind off [unfolded pos_def] pos_def write_indx_entries_Inr [OF hex] del: code.simps)
qed

text \<open>C5: The writer succeeds on exactly the packable sources: manifest, member count, paths, digests and sizes
  within the limits, distinct paths, and every member's reader yielding the declared number of bytes with the
  declared digest.\<close>

theorem write_mpak_iff_packable: "(\<exists>out. write_mpak sha256 source = Inr out) \<longleftrightarrow> (\<exists>cs. packable sha256 source cs)"
  using write_mpak_packable packable_write_mpak by blast

end
