(* ===== verification/Manifest_Reparse.thy ===== *)
theory Manifest_Reparse
  imports Manifest_Tree "HOL-Library.Sublist"
begin

text \<open>
  The well-formed manifests, each record of the model on its own, and one lemma per record: the tree the
  writer builds for a well-formed value parses back to that value.
\<close>

named_theorems lookup "lookup of a field in an object under construction"
named_theorems to_json "the objects the writer builds"
named_theorems reparse "the tree of a well-formed value parses to the value"

section \<open>Lookup in built objects\<close>

declare map_of_append [simp del]

lemma inj_of_char: "(of_char c :: byte) = of_char d \<longleftrightarrow> c = d"
proof -
  have "unat (of_char c :: byte) = of_char c" for c
  proof -
    have "(of_char c :: nat) < 256"
      by simp
    then have "unat (word_of_nat (of_char c) :: byte) = of_char c"
      by (simp add: unat_of_nat del: of_nat_of_char)
    then show ?thesis
      by (simp only: of_nat_of_char)
  qed
  then show ?thesis
    by (metis of_char_eq_iff)
qed

lemma lit_eq [lookup]: "lit s = lit t \<longleftrightarrow> s = t"
  by (simp add: lit_def inj_map_eq_map inj_def inj_of_char)

definition or_else :: "'a option \<Rightarrow> 'a option \<Rightarrow> 'a option" where
  "or_else a b = (case a of None \<Rightarrow> b | Some x \<Rightarrow> Some x)"

lemma or_else_simps [lookup]: "or_else a None = a" "or_else None b = b" "or_else (Some x) b = Some x"
  by (simp_all add: or_else_def split: option.split)

definition arr :: "('a \<Rightarrow> jvalue) \<Rightarrow> 'a list \<Rightarrow> jvalue option" where
  "arr g xs = (if xs = [] then None else Some (Array (map g xs)))"

lemma map_of_put [lookup]:
  "map_of (put k v @ r) (lit k') = (if k = k' then Some v else map_of r (lit k'))"
  "map_of (put k v) (lit k') = (if k = k' then Some v else None)"
  "map_of (put_opt k ov @ r) (lit k') = (if k = k' then or_else (map_option String ov) (map_of r (lit k')) else map_of r (lit k'))"
  "map_of (put_opt k ov) (lit k') = (if k = k' then map_option String ov else None)"
  "map_of (put_some k f x @ r) (lit k') = (if k = k' then or_else (map_option f x) (map_of r (lit k')) else map_of r (lit k'))"
  "map_of (put_some k f x) (lit k') = (if k = k' then map_option f x else None)"
  "map_of (put_list k g xs @ r) (lit k') = (if k = k' then or_else (arr g xs) (map_of r (lit k')) else map_of r (lit k'))"
  "map_of (put_list k g xs) (lit k') = (if k = k' then arr g xs else None)"
  by (auto simp: arr_def put_def put_opt_def put_some_def put_list_def or_else_def lit_eq split: option.splits)

lemma get_Object [lookup]: "get (Object kvs) k = map_of kvs k"
  by (simp add: get_def)

lemma require_object_Object [lookup]: "require_object (Some (Object kvs)) w = Inr (Object kvs)"
  by (simp add: require_object_def is_object_def)

lemma require_string_get: "get obj (lit k) = Some (String s) \<Longrightarrow> s \<noteq> [] \<Longrightarrow> require_string obj k = Inr s"
  by (simp add: require_string_def)

lemma opt_string_get: "get obj (lit k) = map_option String ov \<Longrightarrow> opt_string obj k = Inr ov"
  by (cases ov) (simp_all add: opt_string_def)

lemma require_string_Object [lookup]: "require_string (Object kvs) k = (case map_of kvs (lit k) of
      Some (String s) \<Rightarrow> if s \<noteq> [] then Inr s
        else bad (quoted (lit k) @ lit '' is required and must be a non-empty string'')
    | _ \<Rightarrow> bad (quoted (lit k) @ lit '' is required and must be a non-empty string''))"
  by (simp add: require_string_def get_Object)

lemma opt_string_lookup [lookup]: "map_of kvs (lit k) = map_option String ov \<Longrightarrow> opt_string (Object kvs) k = Inr ov"
  by (rule opt_string_get) (simp add: get_Object)

lemma keep_if_True [lookup]: "P x \<Longrightarrow> keep_if P x = Some x"
  by (simp add: keep_if_def)

lemma opt_section_map [lookup]:
  assumes "\<And>y. x = Some y \<Longrightarrow> p (f y) = Inr (Some y)"
  shows "opt_section (map_option f x) p = Inr x"
  using assms by (cases x) (simp_all add: opt_section_def)

lemma collect_map: "(\<And>x. x \<in> set xs \<Longrightarrow> p (f x) = Inr x) \<Longrightarrow> collect p (map f xs) = Inr xs"
  by (induction xs) simp_all

section \<open>Well-formed values\<close>

definition asset_path_ok :: "rstr \<Rightarrow> bool" where
  "asset_path_ok p \<longleftrightarrow> p \<noteq> [] \<and> validate_path p = Inr ()"

definition hash_ok :: "rstr \<Rightarrow> bool" where
  "hash_ok s \<longleftrightarrow> is_valid_sha256_hex s"

lemma hash_ok_not_Nil: "hash_ok s \<Longrightarrow> s \<noteq> []"
  by (auto simp: hash_ok_def is_valid_sha256_hex_def HEX_LEN_def)

definition asset_wf :: "asset \<Rightarrow> bool" where
  "asset_wf a \<longleftrightarrow> asset_path_ok (as_path a) \<and> hash_ok (as_sha256 a)"

definition artists_wf :: "artist list \<Rightarrow> bool" where
  "artists_wf as \<longleftrightarrow> length as \<le> MAX_ARTISTS_PER_CREDIT \<and> (\<forall>a\<in>set as. ar_name a \<noteq> [])"

definition album_wf :: "album \<Rightarrow> bool" where
  "album_wf a \<longleftrightarrow> al_title a \<noteq> [] \<and> artists_wf (al_artists a) \<and> length (al_genres a) \<le> MAX_GENRES"

definition present :: "('a \<Rightarrow> bool) \<Rightarrow> 'a option \<Rightarrow> bool" where
  "present P x \<longleftrightarrow> (case x of None \<Rightarrow> True | Some y \<Rightarrow> P y)"

lemma present_simps [simp]: "present P None" "present P (Some y) = P y"
  by (simp_all add: present_def)

definition number_wf :: "int \<Rightarrow> bool" where
  "number_wf i \<longleftrightarrow> 1 \<le> i \<and> i \<le> i32_max"

definition loudness_wf :: "loudness \<Rightarrow> bool" where
  "loudness_wf l \<longleftrightarrow> is_valid_loudness_value (lo_lufs l) \<and> is_valid_loudness_value (lo_true_peak_db l)"

definition duration_wf :: "f64 \<Rightarrow> bool" where
  "duration_wf d \<longleftrightarrow> is_finite d \<and> \<not> f64_le d (f64_of_int 0)"

definition waveform_wf :: "waveform_ref \<Rightarrow> bool" where
  "waveform_wf w \<longleftrightarrow> asset_path_ok (wf_path w) \<and> hash_ok (wf_sha256 w) \<and> 0 \<le> wf_points w \<and> wf_points w \<le> WAVEFORM_MAX_POINTS"

definition lyrics_wf :: "lyrics_ref \<Rightarrow> bool" where
  "lyrics_wf l \<longleftrightarrow> asset_path_ok (ly_path l) \<and> hash_ok (ly_sha256 l)
     \<and> present (\<lambda>s. s \<noteq> [] \<and> \<not> has_control_char s) (ly_lang l)"

definition representation_wf :: "representation \<Rightarrow> bool" where
  "representation_wf r \<longleftrightarrow> asset_path_ok (rp_path r) \<and> hash_ok (rp_sha256 r)"

definition track_wf :: "track \<Rightarrow> bool" where
  "track_wf t \<longleftrightarrow> number_wf (tr_number t) \<and> tr_title t \<noteq> [] \<and> artists_wf (tr_artists t)
     \<and> present track_identifiers_present (tr_identifiers t) \<and> present track_source_present (tr_source t)
     \<and> present source_audio_present (tr_source_audio t) \<and> present duration_wf (tr_duration t)
     \<and> present loudness_wf (tr_loudness t) \<and> asset_wf (tr_audio t) \<and> present waveform_wf (tr_waveform t)
     \<and> length (tr_lyrics t) \<le> MAX_LYRICS \<and> (\<forall>l\<in>set (tr_lyrics t). lyrics_wf l)
     \<and> (\<forall>r\<in>set (tr_representations t). representation_wf r)"

definition disc_wf :: "disc \<Rightarrow> bool" where
  "disc_wf d \<longleftrightarrow> number_wf (di_number d) \<and> di_tracks d \<noteq> [] \<and> length (di_tracks d) \<le> MAX_TRACKS_PER_DISC
     \<and> (\<forall>t\<in>set (di_tracks d). track_wf t) \<and> distinct (map tr_number (di_tracks d))"

definition artwork_wf :: "artwork \<Rightarrow> bool" where
  "artwork_wf w \<longleftrightarrow> aw_role w \<noteq> [] \<and> asset_wf (aw_asset w)"

definition analysis_wf :: "analysis \<Rightarrow> bool" where
  "analysis_wf a \<longleftrightarrow> an_kind a \<noteq> [] \<and> asset_wf (an_asset a) \<and> (an_kind a = lit ''sonic'' \<longrightarrow> an_profile a \<noteq> None)"

definition album_loudness_wf :: "album_loudness \<Rightarrow> bool" where
  "album_loudness_wf l \<longleftrightarrow> is_valid_loudness_value (ll_lufs l) \<and> is_valid_loudness_value (ll_true_peak_db l)"

definition assets_wf :: "nat \<Rightarrow> asset list \<Rightarrow> bool" where
  "assets_wf n as \<longleftrightarrow> length as \<le> n \<and> (\<forall>a\<in>set as. asset_wf a)"

definition manifest_wf :: "manifest \<Rightarrow> bool" where
  "manifest_wf m \<longleftrightarrow> album_wf (mf_album m) \<and> present release_present (mf_release m)
     \<and> present identifiers_present (mf_identifiers m) \<and> present identity_present (mf_identity m)
     \<and> present source_present (mf_source m)
     \<and> mf_media m \<noteq> [] \<and> length (mf_media m) \<le> MAX_DISCS \<and> (\<forall>d\<in>set (mf_media m). disc_wf d)
     \<and> distinct (map di_number (mf_media m))
     \<and> length (mf_artwork m) \<le> MAX_ARTWORK \<and> (\<forall>w\<in>set (mf_artwork m). artwork_wf w)
     \<and> assets_wf MAX_BOOKLET (mf_booklet m) \<and> assets_wf MAX_LYRICS (mf_lyrics m) \<and> assets_wf MAX_EXTRAS (mf_extras m)
     \<and> length (mf_analysis m) \<le> MAX_ANALYSIS \<and> (\<forall>a\<in>set (mf_analysis m). analysis_wf a)
     \<and> present album_loudness_wf (mf_loudness m) \<and> present provenance_present (mf_provenance m)
     \<and> length (referenced_paths m) \<le> MAX_REFERENCED_ASSETS \<and> distinct (referenced_paths m)"

section \<open>Small records\<close>

lemma reparse_artist [reparse]: "ar_name a \<noteq> [] \<Longrightarrow> parse_artist (artist_to_json a) = Inr a"
  by (simp add: parse_artist_def artist_to_json_def lookup)

lemma reparse_asset [reparse]: "asset_wf a \<Longrightarrow> parse_asset (asset_to_json a) = Inr a"
  by (simp add: parse_asset_def asset_to_json_def lookup asset_wf_def asset_path_ok_def hash_ok_not_Nil hash_ok_def [symmetric])

lemma reparse_audio:
  assumes "asset_wf a"
  shows "parse_asset (audio_to_json a codec) = Inr a" and "opt_string (audio_to_json a codec) ''codec'' = Inr codec"
  using assms by (simp_all add: parse_asset_def audio_to_json_def lookup asset_wf_def asset_path_ok_def hash_ok_not_Nil hash_ok_def [symmetric])

lemma reparse_release_type [lookup]: "release_type_parse (lit (release_type_str t)) = Some t"
  by (cases t) (simp_all add: release_type_parse_def lit_eq)

lemma reparse_medium_format [lookup]: "medium_format_parse (lit (medium_format_str f)) = Some f"
  by (cases f) (simp_all add: medium_format_parse_def lit_eq)

lemma reparse_identity_source [lookup]: "identity_source_parse (lit (identity_source_str s)) = Some s"
  by (cases s) (simp_all add: identity_source_parse_def lit_eq)

lemma reparse_identity_confidence [lookup]: "identity_confidence_parse (lit (identity_confidence_str c)) = Some c"
  by (cases c) (simp_all add: identity_confidence_parse_def lit_eq)

lemma parse_enum_map [lookup]:
  assumes "\<And>x. arms (lit (str x)) = Some x"
  shows "parse_enum (map_option (\<lambda>x. String (lit (str x))) ov) what kind arms = Inr ov"
  using assms by (cases ov) (simp_all add: parse_enum_def opt_string_value_def)

lemma reparse_release [reparse]: "release_present r \<Longrightarrow> parse_release (release_to_json r) = Inr (Some r)"
  by (cases r) (simp add: parse_release_def release_to_json_def keep_if_def lookup)

lemma reparse_identifiers [reparse]: "identifiers_present i \<Longrightarrow> parse_identifiers (identifiers_to_json i) = Inr (Some i)"
  by (cases i) (simp add: parse_identifiers_def identifiers_to_json_def keep_if_def lookup)

lemma reparse_identity [reparse]: "identity_present i \<Longrightarrow> parse_identity (identity_to_json i) = Inr (Some i)"
  by (cases i) (simp add: parse_identity_def identity_to_json_def keep_if_def lookup)

lemma reparse_source [reparse]: "source_present s \<Longrightarrow> parse_source (source_to_json s) = Inr (Some s)"
  by (cases s) (simp add: parse_source_def source_to_json_def keep_if_def lookup)

lemma reparse_track_identifiers [reparse]:
  "track_identifiers_present i \<Longrightarrow> parse_track_identifiers (track_identifiers_to_json i) = Inr (Some i)"
  by (cases i) (simp add: parse_track_identifiers_def track_identifiers_to_json_def keep_if_def lookup)

lemma reparse_track_source [reparse]: "track_source_present s \<Longrightarrow> parse_track_source (track_source_to_json s) = Inr (Some s)"
  by (cases s) (simp add: parse_track_source_def track_source_to_json_def keep_if_def lookup)

lemma reparse_source_audio [reparse]: "source_audio_present s \<Longrightarrow> parse_source_audio (source_audio_to_json s) = Inr (Some s)"
  by (cases s) (simp add: parse_source_audio_def source_audio_to_json_def keep_if_def lookup)

lemma reparse_provenance [reparse]: "provenance_present p \<Longrightarrow> parse_provenance (provenance_to_json p) = Inr (Some p)"
  by (cases p) (simp add: parse_provenance_def provenance_to_json_def keep_if_def lookup)

lemma reparse_loudness [reparse]: "loudness_wf l \<Longrightarrow> parse_track_loudness (loudness_to_json l) = Inr (Some l)"
  by (simp add: parse_track_loudness_def loudness_to_json_def loudness_wf_def lookup)

lemma reparse_album_loudness [reparse]:
  "album_loudness_wf l \<Longrightarrow> parse_album_loudness (album_loudness_to_json l) = Inr (Some l)"
  by (simp add: parse_album_loudness_def album_loudness_to_json_def album_loudness_wf_def lookup)

lemma reparse_representation [reparse]: "representation_wf r \<Longrightarrow> parse_representation (representation_to_json r) = Inr r"
  by (simp add: parse_representation_def representation_to_json_def representation_wf_def parse_asset_def asset_path_ok_def
      hash_ok_not_Nil hash_ok_def [symmetric] lookup)

lemma reparse_lang [lookup]:
  "present (\<lambda>s. s \<noteq> [] \<and> \<not> has_control_char s) ov \<Longrightarrow> parse_lang (map_option String ov) = Inr ov"
  by (cases ov) (simp_all add: parse_lang_def)

lemma reparse_lyrics [reparse]: "lyrics_wf l \<Longrightarrow> parse_lyrics_ref (lyrics_ref_to_json l) = Inr l"
  by (simp add: parse_lyrics_ref_def lyrics_ref_to_json_def lyrics_wf_def parse_asset_def asset_path_ok_def
      hash_ok_not_Nil hash_ok_def [symmetric] lookup)

lemma reparse_artwork [reparse]: "artwork_wf w \<Longrightarrow> parse_artwork_entry (artwork_to_json w) = Inr w"
  by (simp add: parse_artwork_entry_def artwork_to_json_def artwork_wf_def asset_wf_def parse_asset_def asset_path_ok_def
      hash_ok_not_Nil hash_ok_def [symmetric] lookup)

lemma reparse_analysis [reparse]: "analysis_wf a \<Longrightarrow> parse_analysis_entry (analysis_to_json a) = Inr a"
  by (auto simp: parse_analysis_entry_def analysis_to_json_def analysis_wf_def asset_wf_def asset_path_ok_def
      hash_ok_not_Nil hash_ok_def [symmetric] lookup)

section \<open>Numbers\<close>

lemma number_wf_small: "number_wf i \<Longrightarrow> small_int i"
  by (simp add: number_wf_def small_int_def i32_max_def)

lemma reparse_int [lookup]:
  assumes "map_of kvs (lit k) = Some (Number (f64_of_int i))" and "number_wf i"
  shows "require_int (Object kvs) k = Inr i"
proof -
  note f = f64_of_small_int [OF number_wf_small [OF assms(2)]]
  have "small_int 1" "small_int i32_max"
    by (simp_all add: small_int_def i32_max_def)
  with number_wf_small [OF assms(2)] have "f64_le (f64_of_int 1) (f64_of_int i)" "f64_le (f64_of_int i) (f64_of_int i32_max)"
    using assms(2) by (simp_all add: f64_le_int number_wf_def)
  moreover have "f64_as (- i32_max - 1) i32_max (f64_of_int i) = i"
    using assms(2) by (simp add: f64_as_def finite_not_nan f number_wf_def i32_max_def)
  ultimately show ?thesis
    using assms(1) by (simp add: require_int_def get_Object f)
qed

lemma reparse_duration [lookup]:
  "map_of kvs (lit k) = map_option Number ov \<Longrightarrow> present duration_wf ov \<Longrightarrow> opt_positive_double (Object kvs) k = Inr ov"
  by (cases ov) (simp_all add: opt_positive_double_def get_Object duration_wf_def)

lemma reparse_waveform_int [lookup]:
  "map_of kvs (lit k) = Some (Number (f64_of_int i)) \<Longrightarrow> small_int i \<Longrightarrow> waveform_int (Object kvs) k = Inr (f64_of_int i)"
  by (simp add: waveform_int_def get_Object f64_of_small_int)

lemma reparse_points [lookup]:
  assumes "map_of kvs (lit ''points'') = Some (Number (f64_of_int i))" and "0 \<le> i" and "i \<le> WAVEFORM_MAX_POINTS"
  shows "waveform_points (Object kvs) = Inr i"
proof -
  have s: "small_int i" "small_int 0" "small_int WAVEFORM_MAX_POINTS"
    using assms by (simp_all add: small_int_def WAVEFORM_MAX_POINTS_def)
  note f = f64_of_small_int [OF s(1)]
  have "f64_as 0 (2 ^ 64 - 1) (f64_of_int i) = i"
    using assms by (simp add: f64_as_def finite_not_nan f WAVEFORM_MAX_POINTS_def)
  with assms s show ?thesis
    by (simp add: waveform_points_def get_Object f f64_le_int)
qed

lemma waveform_consts: "small_int WAVEFORM_VERSION" "small_int INTERVAL_MS" "small_int FLOOR_DB" "ENCODING \<noteq> []"
  by (simp_all add: small_int_def WAVEFORM_VERSION_def INTERVAL_MS_def FLOOR_DB_def ENCODING_def lit_def)

lemma reparse_waveform [reparse]: "waveform_wf w \<Longrightarrow> parse_waveform (waveform_to_json w) = Inr w"
  by (simp add: parse_waveform_def waveform_to_json_def waveform_wf_def asset_path_ok_def hash_ok_not_Nil
      hash_ok_def [symmetric] waveform_consts f64_eq_int lookup)

section \<open>Lists and containers\<close>

lemma reparse_artists:
  assumes "artists_wf as" and "as \<noteq> []"
  shows "parse_artists (Some (Array (map artist_to_json as))) = Inr as"
proof -
  have "collect parse_artist (map artist_to_json as) = Inr as"
    using assms(1) by (intro collect_map) (simp add: artists_wf_def reparse)
  with assms show ?thesis
    by (simp add: parse_artists_def artists_wf_def)
qed

lemma reparse_artists_field [lookup]: "artists_wf as \<Longrightarrow> parse_artists (arr artist_to_json as) = Inr as"
  using reparse_artists [of as] by (auto simp: arr_def parse_artists_def)

lemma reparse_representations [lookup]:
  "\<forall>r\<in>set rs. representation_wf r \<Longrightarrow> parse_representations (arr representation_to_json rs) = Inr rs"
  by (auto simp: arr_def parse_representations_def require_array_def reparse intro: collect_map)

lemma reparse_track_lyrics [lookup]:
  "length ls \<le> MAX_LYRICS \<Longrightarrow> \<forall>l\<in>set ls. lyrics_wf l \<Longrightarrow> parse_track_lyrics (arr lyrics_ref_to_json ls) = Inr ls"
  by (auto simp: arr_def parse_track_lyrics_def require_array_def reparse intro: collect_map)

lemma reparse_track [reparse]:
  assumes "track_wf t"
  shows "parse_track (track_to_json t) = Inr t"
proof -
  have "opt_section (map_option track_identifiers_to_json (tr_identifiers t)) parse_track_identifiers = Inr (tr_identifiers t)"
    "opt_section (map_option track_source_to_json (tr_source t)) parse_track_source = Inr (tr_source t)"
    "opt_section (map_option source_audio_to_json (tr_source_audio t)) parse_source_audio = Inr (tr_source_audio t)"
    "opt_section (map_option loudness_to_json (tr_loudness t)) parse_track_loudness = Inr (tr_loudness t)"
    "opt_section (map_option waveform_to_json (tr_waveform t)) (\<lambda>v. and_then (parse_waveform v) (\<lambda>w. Inr (Some w))) = Inr (tr_waveform t)"
    using assms by (auto intro!: opt_section_map simp: track_wf_def reparse)
  with assms show ?thesis
    unfolding parse_track_def track_to_json_def by (simp add: lookup reparse_audio track_wf_def)
qed

lemma duplicate_track_None: "duplicate_track ts = None \<longleftrightarrow> distinct (map tr_number ts)"
  by (induction ts) (auto simp: list_ex_iff)

lemma check_numbering_Inr:
  "check_numbering ds = Inr () \<longleftrightarrow> distinct (map di_number ds) \<and> (\<forall>d\<in>set ds. distinct (map tr_number (di_tracks d)))"
proof (induction ds)
  case (Cons d ds)
  then show ?case
    by (cases "duplicate_track (di_tracks d)") (use duplicate_track_None [of "di_tracks d"] in \<open>auto simp: list_ex_iff\<close>)
qed simp

lemma reparse_disc [reparse]:
  assumes "disc_wf d"
  shows "parse_disc (disc_to_json d) = Inr d"
proof -
  have "collect parse_track (map track_to_json (di_tracks d)) = Inr (di_tracks d)"
    using assms by (intro collect_map) (simp add: disc_wf_def reparse)
  with assms show ?thesis
    unfolding parse_disc_def disc_to_json_def by (simp add: lookup require_array_def disc_wf_def)
qed

lemma reparse_media:
  assumes "ds \<noteq> []" and "length ds \<le> MAX_DISCS" and "\<forall>d\<in>set ds. disc_wf d" and "distinct (map di_number ds)"
  shows "parse_media (Some (Array (map disc_to_json ds))) = Inr ds"
proof -
  have "collect parse_disc (map disc_to_json ds) = Inr ds"
    using assms by (intro collect_map) (simp add: reparse)
  moreover have "check_numbering ds = Inr ()"
    using assms by (simp add: check_numbering_Inr disc_wf_def)
  ultimately show ?thesis
    using assms by (simp add: parse_media_def require_array_def)
qed

lemma reparse_artwork_field [lookup]:
  "length ws \<le> MAX_ARTWORK \<Longrightarrow> \<forall>w\<in>set ws. artwork_wf w \<Longrightarrow> parse_artwork (arr artwork_to_json ws) = Inr ws"
  by (auto simp: arr_def parse_artwork_def require_array_def reparse intro: collect_map)

lemma reparse_analysis_field [lookup]:
  "length as \<le> MAX_ANALYSIS \<Longrightarrow> \<forall>a\<in>set as. analysis_wf a \<Longrightarrow> parse_analysis (arr analysis_to_json as) = Inr as"
  by (auto simp: arr_def parse_analysis_def require_array_def reparse intro: collect_map)

lemma require_object_asset: "require_object (Some (asset_to_json a)) w = Inr (asset_to_json a)"
  by (simp add: asset_to_json_def lookup)

lemma reparse_assets_field [lookup]:
  "assets_wf n as \<Longrightarrow> parse_asset_array (arr asset_to_json as) w n = Inr as"
  by (auto simp: arr_def parse_asset_array_def assets_wf_def require_object_asset reparse intro: collect_map)

lemma reparse_strings_field [lookup]: "length ss \<le> n \<Longrightarrow> parse_string_list (arr String ss) w n = Inr ss"
  by (auto simp: arr_def parse_string_list_def parse_string_item_def intro: collect_map)

lemma reparse_album:
  assumes "album_wf a" and "al_artists a \<noteq> []" and "get root (lit ''album'') = Some (album_to_json a)"
  shows "parse_album root = Inr a"
  using assms unfolding parse_album_def album_to_json_def by (simp add: lookup reparse_artists album_wf_def)

section \<open>Distinct paths\<close>

lemma first_duplicate_None: "first_duplicate seen ps = None \<longleftrightarrow> distinct ps \<and> set ps \<inter> seen = {}"
  by (induction ps arbitrary: seen) auto

lemma mset_check_track_paths: "mset (check_track_paths t) = mset (track_paths t)"
  by (simp add: check_track_paths_def track_paths_def)

lemma mset_concat_cong: "(\<And>x. x \<in> set xs \<Longrightarrow> mset (f x) = mset (g x)) \<Longrightarrow> mset (concat (map f xs)) = mset (concat (map g xs))"
  by (induction xs) simp_all

lemma check_dup_paths_Inr:
  "check_dup_paths m = Inr () \<longleftrightarrow> length (referenced_paths m) \<le> MAX_REFERENCED_ASSETS \<and> distinct (referenced_paths m)"
proof -
  let ?ps = "concat (map (\<lambda>d. concat (map check_track_paths (di_tracks d))) (mf_media m)) @ shared_paths m"
  have "mset ?ps = mset (referenced_paths m)"
    unfolding referenced_paths_def mset_append
    by (intro arg_cong2 [where f = "(+)"] mset_concat_cong mset_check_track_paths refl)
  then have same: "length ?ps = length (referenced_paths m)" "distinct ?ps = distinct (referenced_paths m)"
    by (metis mset_eq_length, metis mset_eq_imp_distinct_iff)
  have "first_duplicate {} ?ps = None \<longleftrightarrow> distinct ?ps"
    by (simp only: first_duplicate_None) simp
  with same show ?thesis
    unfolding check_dup_paths_def Let_def
    by (cases "first_duplicate {} ?ps") (simp_all only: option.simps same simp_thms bad_not_Inr not_less if_split, auto)
qed

section \<open>Distinct keys\<close>

lemma repeated_key_distinct: "repeated_key kvs \<longleftrightarrow> \<not> distinct (map fst kvs)"
  by (induction kvs rule: repeated_key.induct) (force simp: list_ex_iff)+

text \<open>The keys of an object under construction are a subsequence of the names in its segments.\<close>

definition key_segments :: "string list \<Rightarrow> obj \<Rightarrow> bool" where
  "key_segments ks kvs \<longleftrightarrow> subseq (map fst kvs) (map lit ks) \<and> (\<forall>kv\<in>set kvs. \<not> has_duplicate_keys (snd kv))"

named_theorems keys "rules for the absence of duplicate keys in a built object"

lemma key_segments_append [keys]: "key_segments [k] a \<Longrightarrow> key_segments ks b \<Longrightarrow> key_segments (k # ks) (a @ b)"
  unfolding key_segments_def using list_emb_append_mono [of "(=)" "map fst a" "[lit k]"] by auto

lemma key_segments_put [keys]:
  "\<not> has_duplicate_keys v \<Longrightarrow> key_segments [k] (put k v)"
  "key_segments [k] (put_opt k ov)"
  "(\<And>y. x = Some y \<Longrightarrow> \<not> has_duplicate_keys (f y)) \<Longrightarrow> key_segments [k] (put_some k f x)"
  "(\<And>y. y \<in> set ys \<Longrightarrow> \<not> has_duplicate_keys (g y)) \<Longrightarrow> key_segments [k] (put_list k g ys)"
  by (auto simp: key_segments_def put_def put_opt_def put_some_def put_list_def split: option.split)

lemma subseq_distinct: "subseq xs ys \<Longrightarrow> distinct ys \<Longrightarrow> distinct xs \<and> set xs \<subseteq> set ys"
  by (induction rule: list_emb.induct) auto

lemma distinct_keys:
  assumes "key_segments ks kvs" and "distinct ks"
  shows "\<not> has_duplicate_keys (Object kvs)"
proof -
  have "distinct (map lit ks)"
    using assms(2) by (simp add: distinct_map inj_on_def lit_eq)
  then have "distinct (map fst kvs)"
    using assms(1) subseq_distinct by (simp only: key_segments_def) blast
  with assms(1) show ?thesis
    by (auto simp: key_segments_def repeated_key_distinct)
qed

lemma distinct_keys_values [keys]:
  "\<not> has_duplicate_keys (String s)" "\<not> has_duplicate_keys (Number n)"
  "(\<And>v. v \<in> set vs \<Longrightarrow> \<not> has_duplicate_keys (f v)) \<Longrightarrow> \<not> has_duplicate_keys (Array (map f vs))"
  by auto

lemma distinct_keys_records [keys]:
  "\<not> has_duplicate_keys (artist_to_json ar)" "\<not> has_duplicate_keys (asset_to_json a)"
  "\<not> has_duplicate_keys (release_to_json re)" "\<not> has_duplicate_keys (identifiers_to_json i)"
  "\<not> has_duplicate_keys (identity_to_json iy)" "\<not> has_duplicate_keys (source_to_json so)"
  "\<not> has_duplicate_keys (track_identifiers_to_json ti)" "\<not> has_duplicate_keys (track_source_to_json ts)"
  "\<not> has_duplicate_keys (source_audio_to_json sa)" "\<not> has_duplicate_keys (loudness_to_json lo)"
  "\<not> has_duplicate_keys (audio_to_json a c)" "\<not> has_duplicate_keys (waveform_to_json w)"
  "\<not> has_duplicate_keys (lyrics_ref_to_json ly)" "\<not> has_duplicate_keys (representation_to_json rp)"
  "\<not> has_duplicate_keys (artwork_to_json aw)" "\<not> has_duplicate_keys (analysis_to_json an)"
  "\<not> has_duplicate_keys (album_loudness_to_json ll)" "\<not> has_duplicate_keys (provenance_to_json pv)"
  unfolding artist_to_json_def asset_to_json_def release_to_json_def identifiers_to_json_def identity_to_json_def
    source_to_json_def track_identifiers_to_json_def track_source_to_json_def source_audio_to_json_def
    loudness_to_json_def audio_to_json_def waveform_to_json_def lyrics_ref_to_json_def representation_to_json_def
    artwork_to_json_def analysis_to_json_def album_loudness_to_json_def provenance_to_json_def
  by (rule distinct_keys, (rule keys)+, simp)+

lemma distinct_keys_containers [keys]:
  "\<not> has_duplicate_keys (album_to_json al)" "\<not> has_duplicate_keys (track_to_json t)"
  unfolding album_to_json_def track_to_json_def by (rule distinct_keys, (rule keys)+, simp)+

lemma distinct_keys_disc [keys]: "\<not> has_duplicate_keys (disc_to_json d)"
  unfolding disc_to_json_def by (rule distinct_keys, (rule keys)+, simp)

lemma distinct_keys_tree: "\<not> has_duplicate_keys (build_tree m)"
  unfolding build_tree_def root_fields_def by (rule distinct_keys, (rule keys)+, simp)

end
