(* ===== verification/Manifest_Sound.thy ===== *)
theory Manifest_Sound
  imports Manifest_Reparse
begin

text \<open>
  Every manifest the parser returns is well formed, section by section, and a well-formed manifest with
  album artists is the parse of the tree the writer builds for it.
\<close>

named_theorems sound "what a parse that succeeds says of its result"

section \<open>Reparsing the built tree\<close>

lemma build_tree_checks:
  "check_format (build_tree m) = Inr ()" "check_version (build_tree m) = Inr ()"
  "get (build_tree m) (lit ''album'') = Some (album_to_json (mf_album m))"
  "get (build_tree m) (lit ''media'') = Some (Array (map disc_to_json (mf_media m)))"
proof -
  have "small_int (int SCHEMA_VERSION)"
    by (simp add: small_int_def SCHEMA_VERSION_def)
  then show "check_version (build_tree m) = Inr ()"
    by (simp add: check_version_def build_tree_def root_fields_def f64_of_small_int f64_eq_int lookup)
  show "check_format (build_tree m) = Inr ()"
    "get (build_tree m) (lit ''album'') = Some (album_to_json (mf_album m))"
    "get (build_tree m) (lit ''media'') = Some (Array (map disc_to_json (mf_media m)))"
    by (simp_all add: check_format_def build_tree_def root_fields_def lookup)
qed

lemma build_tree_sections:
  "get (build_tree m) (lit ''release'') = map_option release_to_json (mf_release m)"
  "get (build_tree m) (lit ''identifiers'') = map_option identifiers_to_json (mf_identifiers m)"
  "get (build_tree m) (lit ''identity'') = map_option identity_to_json (mf_identity m)"
  "get (build_tree m) (lit ''source'') = map_option source_to_json (mf_source m)"
  "get (build_tree m) (lit ''artwork'') = arr artwork_to_json (mf_artwork m)"
  "get (build_tree m) (lit ''booklet'') = arr asset_to_json (mf_booklet m)"
  "get (build_tree m) (lit ''lyrics'') = arr asset_to_json (mf_lyrics m)"
  "get (build_tree m) (lit ''extras'') = arr asset_to_json (mf_extras m)"
  "get (build_tree m) (lit ''analysis'') = arr analysis_to_json (mf_analysis m)"
  "get (build_tree m) (lit ''loudness'') = map_option album_loudness_to_json (mf_loudness m)"
  "get (build_tree m) (lit ''provenance'') = map_option provenance_to_json (mf_provenance m)"
  by (simp_all add: build_tree_def root_fields_def lookup)

lemma reparse_sections:
  "present release_present x1 \<Longrightarrow> opt_section (map_option release_to_json x1) parse_release = Inr x1"
  "present identifiers_present x2 \<Longrightarrow> opt_section (map_option identifiers_to_json x2) parse_identifiers = Inr x2"
  "present identity_present x3 \<Longrightarrow> opt_section (map_option identity_to_json x3) parse_identity = Inr x3"
  "present source_present x4 \<Longrightarrow> opt_section (map_option source_to_json x4) parse_source = Inr x4"
  "present album_loudness_wf x5 \<Longrightarrow> opt_section (map_option album_loudness_to_json x5) parse_album_loudness = Inr x5"
  "present provenance_present x6 \<Longrightarrow> opt_section (map_option provenance_to_json x6) parse_provenance = Inr x6"
  by (rule opt_section_map; simp add: reparse)+

lemma manifest_eta:
  "\<lparr>mf_album = mf_album m, mf_release = mf_release m, mf_identifiers = mf_identifiers m,
     mf_identity = mf_identity m, mf_source = mf_source m, mf_media = mf_media m, mf_artwork = mf_artwork m,
     mf_booklet = mf_booklet m, mf_lyrics = mf_lyrics m, mf_extras = mf_extras m, mf_analysis = mf_analysis m,
     mf_loudness = mf_loudness m, mf_provenance = mf_provenance m\<rparr> = m"
  by simp

text \<open>A document that agrees with the built tree in every section but the album.\<close>

definition same_sections :: "jvalue \<Rightarrow> manifest \<Rightarrow> bool" where
  "same_sections root m \<longleftrightarrow> (\<forall>k\<in>{''release'', ''identifiers'', ''identity'', ''source'', ''media'', ''artwork'',
      ''booklet'', ''lyrics'', ''extras'', ''analysis'', ''loudness'', ''provenance''}.
      get root (lit k) = get (build_tree m) (lit k))"

lemma manifest_from_sections:
  assumes "manifest_wf m" and "is_object root" and "\<not> has_duplicate_keys root" and "check_format root = Inr ()"
    and "check_version root = Inr ()" and "parse_album root = Inr (mf_album m)" and "same_sections root m"
  shows "manifest_from_tree root = Inr m"
proof -
  have "check_dup_paths m = Inr ()"
    using assms(1) by (simp add: manifest_wf_def check_dup_paths_Inr)
  then show ?thesis
    using assms unfolding manifest_from_tree_def manifest_wf_def same_sections_def
    by (simp add: build_tree_checks build_tree_sections reparse_sections reparse_media manifest_eta Let_def lookup)
qed

lemma manifest_from_built_tree:
  assumes "manifest_wf m" and "al_artists (mf_album m) \<noteq> []"
  shows "manifest_from_tree (build_tree m) = Inr m"
proof (rule manifest_from_sections [OF assms(1)])
  show "is_object (build_tree m)"
    by (simp add: build_tree_def is_object_def)
  show "parse_album (build_tree m) = Inr (mf_album m)"
    using assms by (intro reparse_album) (simp_all add: manifest_wf_def build_tree_checks)
qed (simp_all add: distinct_keys_tree build_tree_checks same_sections_def)

section \<open>What the parser guarantees\<close>

lemma require_string_sound [sound]: "require_string v k = Inr s \<Longrightarrow> s \<noteq> []"
  by (auto simp: require_string_def split: option.splits jvalue.splits if_splits)

lemma keep_if_Some: "keep_if P x = Some y \<longleftrightarrow> P x \<and> y = x"
  by (auto simp: keep_if_def)

lemma collect_all: "collect f xs = Inr ys \<Longrightarrow> (\<And>x y. f x = Inr y \<Longrightarrow> P y) \<Longrightarrow> length ys = length xs \<and> (\<forall>y\<in>set ys. P y)"
  unfolding collect_Inr list_all2_conv_all_nth in_set_conv_nth all_set_conv_all_nth by metis

lemma parse_asset_sound [sound]: "parse_asset v = Inr a \<Longrightarrow> asset_wf a"
  by (auto simp: parse_asset_def and_then_Inr asset_wf_def asset_path_ok_def hash_ok_def dest!: require_string_sound split: if_splits)

lemma parse_artist_sound [sound]: "parse_artist v = Inr a \<Longrightarrow> ar_name a \<noteq> []"
  by (auto simp: parse_artist_def and_then_Inr dest: require_string_sound)

lemma parse_artists_sound [sound]: "parse_artists v = Inr as \<Longrightarrow> artists_wf as"
  by (auto simp: parse_artists_def artists_wf_def split: option.splits jvalue.splits if_splits
      dest!: collect_all [where P = "\<lambda>a. ar_name a \<noteq> []"] dest: parse_artist_sound)

lemma parse_asset_array_sound [sound]: "parse_asset_array v w n = Inr as \<Longrightarrow> assets_wf n as"
  by (auto simp: parse_asset_array_def assets_wf_def and_then_Inr split: option.splits jvalue.splits if_splits
      dest!: collect_all [where P = asset_wf] dest: parse_asset_sound)

lemma parse_string_list_sound [sound]: "parse_string_list v w n = Inr ss \<Longrightarrow> length ss \<le> n"
  by (auto simp: parse_string_list_def split: option.splits jvalue.splits if_splits
      dest!: collect_all [where P = "\<lambda>_. True"])

lemma require_int_sound [sound]:
  assumes "require_int v k = Inr i"
  shows "number_wf i"
proof -
  obtain x where x: "fract_is_zero x" "f64_le (f64_of_int 1) x" "f64_le x (f64_of_int i32_max)" "i = f64_as (- i32_max - 1) i32_max x"
    using assms by (auto simp: require_int_def split: option.splits jvalue.splits if_splits)
  show ?thesis
    using f64_as_between [OF x(1-3)] unfolding x(4) number_wf_def by (simp add: small_int_def i32_max_def)
qed

lemma opt_positive_double_sound [sound]: "opt_positive_double v k = Inr d \<Longrightarrow> present duration_wf d"
  by (auto simp: opt_positive_double_def duration_wf_def split: option.splits jvalue.splits if_splits)

lemma waveform_points_sound [sound]:
  assumes "waveform_points w = Inr i"
  shows "0 \<le> i \<and> i \<le> WAVEFORM_MAX_POINTS"
proof -
  obtain x where x: "fract_is_zero x" "f64_le (f64_of_int 0) x" "f64_le x (f64_of_int WAVEFORM_MAX_POINTS)"
    "i = f64_as 0 (2 ^ 64 - 1) x"
    using assms by (auto simp: waveform_points_def split: option.splits jvalue.splits if_splits)
  show ?thesis
    using f64_as_between [OF x(1-3)] unfolding x(4) by (simp add: small_int_def WAVEFORM_MAX_POINTS_def)
qed

lemma opt_section_sound:
  "opt_section v f = Inr x \<Longrightarrow> (\<And>u y. f u = Inr (Some y) \<Longrightarrow> P y) \<Longrightarrow> present P x"
  by (cases v; cases x) (auto simp: opt_section_def)

lemma parse_waveform_sound: "parse_waveform v = Inr w \<Longrightarrow> waveform_wf w"
  by (auto simp: parse_waveform_def and_then_Inr waveform_wf_def asset_path_ok_def hash_ok_def split: if_splits
      dest: require_string_sound waveform_points_sound)

lemma sections_sound:
  "parse_release v = Inr (Some x1) \<Longrightarrow> release_present x1"
  "parse_identifiers v = Inr (Some x2) \<Longrightarrow> identifiers_present x2"
  "parse_identity v = Inr (Some x3) \<Longrightarrow> identity_present x3"
  "parse_source v = Inr (Some x4) \<Longrightarrow> source_present x4"
  "parse_provenance v = Inr (Some x5) \<Longrightarrow> provenance_present x5"
  "parse_track_identifiers v = Inr (Some x6) \<Longrightarrow> track_identifiers_present x6"
  "parse_track_source v = Inr (Some x7) \<Longrightarrow> track_source_present x7"
  "parse_source_audio v = Inr (Some x8) \<Longrightarrow> source_audio_present x8"
  by (simp_all only: parse_release_def parse_identifiers_def parse_identity_def parse_source_def parse_provenance_def
      parse_track_identifiers_def parse_track_source_def parse_source_audio_def and_then_Inr sum.inject keep_if_Some)
    blast+

lemma value_cases:
  obtains (none) "x = None" | (null) "x = Some Null" | (bool) b where "x = Some (Bool b)"
  | (number) n where "x = Some (Number n)" | (str) s where "x = Some (String s)"
  | (arr) vs where "x = Some (Array vs)" | (obj) kvs where "x = Some (Object kvs)"
  by (cases x; metis jvalue.exhaust option.exhaust)

lemma parse_track_loudness_sound:
  assumes "parse_track_loudness v = Inr (Some l)"
  shows "loudness_wf l"
proof -
  obtain lo where r: "(case (get lo (lit ''trackLUFS''), get lo (lit ''truePeakDbTP'')) of
       (Some (Number a), Some (Number b)) \<Rightarrow>
         if is_valid_loudness_value a \<and> is_valid_loudness_value b
         then Inr (Some \<lparr>lo_lufs = a, lo_true_peak_db = b\<rparr>)
         else bad (lit ''track loudness requires finite trackLUFS and truePeakDbTP within [-70, 6]'')
     | _ \<Rightarrow> bad (lit ''track loudness requires finite trackLUFS and truePeakDbTP within [-70, 6]'')) = Inr (Some l)"
    using assms unfolding parse_track_loudness_def and_then_Inr by blast
  from r show ?thesis
    by (cases "get lo (lit ''trackLUFS'')" rule: value_cases; cases "get lo (lit ''truePeakDbTP'')" rule: value_cases)
      (auto simp: loudness_wf_def split: if_splits)
qed

lemma parse_album_loudness_sound:
  assumes "parse_album_loudness v = Inr (Some l)"
  shows "album_loudness_wf l"
proof -
  obtain o' algo where r: "(case (get o' (lit ''albumLUFS''), get o' (lit ''albumTruePeakDbTP'')) of
       (None, None) \<Rightarrow> Inr None
     | (Some (Number a), Some (Number b)) \<Rightarrow>
         if is_valid_loudness_value a \<and> is_valid_loudness_value b
         then Inr (Some \<lparr>ll_algorithm = algo, ll_lufs = a, ll_true_peak_db = b\<rparr>)
         else bad (lit ''album loudness values must be finite numbers within [-70, 6]'')
     | (Some _, Some _) \<Rightarrow> bad (lit ''album loudness values must be finite numbers within [-70, 6]'')
     | _ \<Rightarrow> bad (lit ''album loudness requires both albumLUFS and albumTruePeakDbTP'')) = Inr (Some l)"
    using assms unfolding parse_album_loudness_def and_then_Inr by blast
  show ?thesis
    using r by (cases "get o' (lit ''albumLUFS'')" rule: value_cases; cases "get o' (lit ''albumTruePeakDbTP'')" rule: value_cases)
      (auto simp: album_loudness_wf_def split: if_splits)
qed

lemma optional_sound:
  "opt_section v parse_release = Inr x1 \<Longrightarrow> present release_present x1"
  "opt_section v parse_identifiers = Inr x2 \<Longrightarrow> present identifiers_present x2"
  "opt_section v parse_identity = Inr x3 \<Longrightarrow> present identity_present x3"
  "opt_section v parse_source = Inr x4 \<Longrightarrow> present source_present x4"
  "opt_section v parse_provenance = Inr x5 \<Longrightarrow> present provenance_present x5"
  "opt_section v parse_track_identifiers = Inr x6 \<Longrightarrow> present track_identifiers_present x6"
  "opt_section v parse_track_source = Inr x7 \<Longrightarrow> present track_source_present x7"
  "opt_section v parse_source_audio = Inr x8 \<Longrightarrow> present source_audio_present x8"
  "opt_section v parse_track_loudness = Inr x9 \<Longrightarrow> present loudness_wf x9"
  "opt_section v parse_album_loudness = Inr x10 \<Longrightarrow> present album_loudness_wf x10"
  by (erule opt_section_sound, erule sections_sound parse_track_loudness_sound parse_album_loudness_sound)+

lemma parse_representation_sound: "parse_representation v = Inr r \<Longrightarrow> representation_wf r"
  by (auto simp: parse_representation_def and_then_Inr representation_wf_def dest!: parse_asset_sound simp: asset_wf_def)

lemma parse_representations_sound: "parse_representations v = Inr rs \<Longrightarrow> \<forall>r\<in>set rs. representation_wf r"
  by (auto simp: parse_representations_def and_then_Inr split: option.splits
      dest!: collect_all [where P = representation_wf] dest: parse_representation_sound)

lemma parse_lang_sound: "parse_lang v = Inr ov \<Longrightarrow> present (\<lambda>s. s \<noteq> [] \<and> \<not> has_control_char s) ov"
  by (auto simp: parse_lang_def split: option.splits jvalue.splits if_splits)

lemma parse_lyrics_ref_sound: "parse_lyrics_ref v = Inr l \<Longrightarrow> lyrics_wf l"
  by (auto simp: parse_lyrics_ref_def and_then_Inr lyrics_wf_def asset_wf_def dest!: parse_asset_sound parse_lang_sound)

lemma parse_track_lyrics_sound: "parse_track_lyrics v = Inr ls \<Longrightarrow> length ls \<le> MAX_LYRICS \<and> (\<forall>l\<in>set ls. lyrics_wf l)"
  by (auto simp: parse_track_lyrics_def and_then_Inr split: option.splits if_splits
      dest!: collect_all [where P = lyrics_wf] dest: parse_lyrics_ref_sound)

lemma parse_artwork_sound: "parse_artwork v = Inr ws \<Longrightarrow> length ws \<le> MAX_ARTWORK \<and> (\<forall>w\<in>set ws. artwork_wf w)"
proof -
  have "parse_artwork_entry v' = Inr w \<Longrightarrow> artwork_wf w" for v' w
    by (auto simp: parse_artwork_entry_def and_then_Inr artwork_wf_def dest: require_string_sound parse_asset_sound)
  then show "parse_artwork v = Inr ws \<Longrightarrow> ?thesis"
    by (auto simp: parse_artwork_def and_then_Inr split: option.splits if_splits dest!: collect_all [where P = artwork_wf])
qed

lemma parse_analysis_entry_sound: "parse_analysis_entry v = Inr a \<Longrightarrow> analysis_wf a"
  by (auto simp: parse_analysis_entry_def and_then_Inr analysis_wf_def asset_wf_def asset_path_ok_def hash_ok_def
      dest: require_string_sound split: if_splits)

lemma parse_analysis_sound: "parse_analysis v = Inr as \<Longrightarrow> length as \<le> MAX_ANALYSIS \<and> (\<forall>a\<in>set as. analysis_wf a)"
  by (auto simp: parse_analysis_def and_then_Inr split: option.splits if_splits
      dest!: collect_all [where P = analysis_wf] dest: parse_analysis_entry_sound)

lemma parse_album_sound: "parse_album root = Inr a \<Longrightarrow> album_wf a"
  by (auto simp: parse_album_def and_then_Inr album_wf_def dest: require_string_sound parse_artists_sound parse_string_list_sound)

lemma parse_track_sound:
  assumes "parse_track v = Inr t"
  shows "track_wf t"
proof -
  obtain o' audio_value where t: "require_int o' ''track'' = Inr (tr_number t)" "require_string o' ''title'' = Inr (tr_title t)"
    "parse_artists (get o' (lit ''artists'')) = Inr (tr_artists t)"
    "opt_section (get o' (lit ''identifiers'')) parse_track_identifiers = Inr (tr_identifiers t)"
    "opt_section (get o' (lit ''source'')) parse_track_source = Inr (tr_source t)"
    "opt_section (get o' (lit ''sourceAudio'')) parse_source_audio = Inr (tr_source_audio t)"
    "opt_positive_double o' ''duration'' = Inr (tr_duration t)"
    "opt_section (get o' (lit ''loudness'')) parse_track_loudness = Inr (tr_loudness t)"
    "parse_asset audio_value = Inr (tr_audio t)"
    "opt_section (get o' (lit ''waveform'')) (\<lambda>v. and_then (parse_waveform v) (\<lambda>w. Inr (Some w))) = Inr (tr_waveform t)"
    "parse_representations (get o' (lit ''representations'')) = Inr (tr_representations t)"
    "parse_track_lyrics (get o' (lit ''lyrics'')) = Inr (tr_lyrics t)"
    using assms unfolding parse_track_def and_then_Inr by (auto split: option.splits simp: and_then_Inr)
  have "present waveform_wf (tr_waveform t)"
    by (rule opt_section_sound [OF t(10)]) (auto simp: and_then_Inr dest: parse_waveform_sound)
  then show ?thesis
    unfolding track_wf_def
    using require_int_sound [OF t(1)] require_string_sound [OF t(2)] parse_artists_sound [OF t(3)]
      optional_sound(6) [OF t(4)] optional_sound(7) [OF t(5)]
      optional_sound(8) [OF t(6)] opt_positive_double_sound [OF t(7)]
      optional_sound(9) [OF t(8)] parse_asset_sound [OF t(9)]
      parse_representations_sound [OF t(11)] parse_track_lyrics_sound [OF t(12)]
    by blast
qed

lemma parse_disc_sound:
  assumes "parse_disc v = Inr d"
  shows "number_wf (di_number d)" and "di_tracks d \<noteq> []" and "length (di_tracks d) \<le> MAX_TRACKS_PER_DISC"
    and "\<forall>t\<in>set (di_tracks d). track_wf t"
proof -
  obtain o' ts where d: "require_int o' ''disc'' = Inr (di_number d)" "ts \<noteq> []" "length ts \<le> MAX_TRACKS_PER_DISC"
    "collect parse_track ts = Inr (di_tracks d)"
    using assms unfolding parse_disc_def and_then_Inr by (auto split: option.splits if_splits simp: and_then_Inr)
  show "number_wf (di_number d)"
    by (rule require_int_sound [OF d(1)])
  show "di_tracks d \<noteq> []" "length (di_tracks d) \<le> MAX_TRACKS_PER_DISC" "\<forall>t\<in>set (di_tracks d). track_wf t"
    using d(2,3) collect_all [OF d(4), where P = track_wf] parse_track_sound by auto
qed

lemma parse_media_sound:
  assumes "parse_media v = Inr ds"
  shows "ds \<noteq> [] \<and> length ds \<le> MAX_DISCS \<and> (\<forall>d\<in>set ds. disc_wf d) \<and> distinct (map di_number ds)"
proof -
  obtain vs where m: "vs \<noteq> []" "length vs \<le> MAX_DISCS" "collect parse_disc vs = Inr ds" "check_numbering ds = Inr ()"
    using assms unfolding parse_media_def by (auto split: option.splits if_splits simp: and_then_Inr)
  have "length ds = length vs" and ds: "\<forall>d\<in>set ds. number_wf (di_number d) \<and> di_tracks d \<noteq> []
      \<and> length (di_tracks d) \<le> MAX_TRACKS_PER_DISC \<and> (\<forall>t\<in>set (di_tracks d). track_wf t)"
    using collect_all [OF m(3), where P = "\<lambda>d. number_wf (di_number d) \<and> di_tracks d \<noteq> []
      \<and> length (di_tracks d) \<le> MAX_TRACKS_PER_DISC \<and> (\<forall>t\<in>set (di_tracks d). track_wf t)"] parse_disc_sound
    by blast+
  then show ?thesis
    using m(1,2,4) unfolding check_numbering_Inr disc_wf_def by auto
qed

lemma manifest_from_tree_wf:
  assumes "manifest_from_tree v = Inr m"
  shows "manifest_wf m"
proof -
  have m: "parse_album v = Inr (mf_album m)"
    "opt_section (get v (lit ''release'')) parse_release = Inr (mf_release m)"
    "opt_section (get v (lit ''identifiers'')) parse_identifiers = Inr (mf_identifiers m)"
    "opt_section (get v (lit ''identity'')) parse_identity = Inr (mf_identity m)"
    "opt_section (get v (lit ''source'')) parse_source = Inr (mf_source m)"
    "parse_media (get v (lit ''media'')) = Inr (mf_media m)"
    "parse_artwork (get v (lit ''artwork'')) = Inr (mf_artwork m)"
    "parse_asset_array (get v (lit ''booklet'')) ''booklet'' MAX_BOOKLET = Inr (mf_booklet m)"
    "parse_asset_array (get v (lit ''lyrics'')) ''lyrics'' MAX_LYRICS = Inr (mf_lyrics m)"
    "parse_asset_array (get v (lit ''extras'')) ''extras'' MAX_EXTRAS = Inr (mf_extras m)"
    "parse_analysis (get v (lit ''analysis'')) = Inr (mf_analysis m)"
    "opt_section (get v (lit ''loudness'')) parse_album_loudness = Inr (mf_loudness m)"
    "opt_section (get v (lit ''provenance'')) parse_provenance = Inr (mf_provenance m)"
    "check_dup_paths m = Inr ()"
    using assms unfolding manifest_from_tree_def Let_def by (auto simp: and_then_Inr split: if_splits)
  show ?thesis
    unfolding manifest_wf_def
    using parse_album_sound [OF m(1)] optional_sound(1) [OF m(2)]
      optional_sound(2) [OF m(3)] optional_sound(3) [OF m(4)]
      optional_sound(4) [OF m(5)] parse_media_sound [OF m(6)] parse_artwork_sound [OF m(7)]
      parse_asset_array_sound [OF m(8)] parse_asset_array_sound [OF m(9)] parse_asset_array_sound [OF m(10)]
      parse_analysis_sound [OF m(11)] optional_sound(10) [OF m(12)]
      optional_sound(5) [OF m(13)] m(14) [unfolded check_dup_paths_Inr]
    by blast
qed

end
