(* ===== verification/Utf8.thy ===== *)
theory Utf8
  imports Json
begin

text \<open>
  Facts on well-formed UTF-8: it is a sequence of encoded characters, closed under concatenation, it
  splits at ASCII bytes, and every encoded scalar value is well-formed.
\<close>

definition lead3_ok :: "byte \<Rightarrow> byte \<Rightarrow> bool" where
  "lead3_ok b c = (if b = 224 then 160 \<le> unat c \<and> unat c \<le> 191
     else if b = 237 then 128 \<le> unat c \<and> unat c \<le> 159 else utf8_cont c)"

definition lead4_ok :: "byte \<Rightarrow> byte \<Rightarrow> bool" where
  "lead4_ok b c = (if b = 240 then 144 \<le> unat c \<and> unat c \<le> 191
     else if b = 244 then 128 \<le> unat c \<and> unat c \<le> 143 else utf8_cont c)"

definition utf8_char :: "bytes \<Rightarrow> bool" where
  "utf8_char ch = (case ch of
      [a] \<Rightarrow> unat a < 128
    | [a, b] \<Rightarrow> 194 \<le> unat a \<and> unat a \<le> 223 \<and> utf8_cont b
    | [a, b, c] \<Rightarrow> 224 \<le> unat a \<and> unat a \<le> 239 \<and> lead3_ok a b \<and> utf8_cont c
    | [a, b, c, d] \<Rightarrow> 240 \<le> unat a \<and> unat a \<le> 244 \<and> lead4_ok a b \<and> utf8_cont c \<and> utf8_cont d
    | _ \<Rightarrow> False)"

lemma utf8_char_cases [consumes 1, case_names one two three four]:
  assumes "utf8_char ch"
  obtains (one) a where "ch = [a]" "unat a < 128"
  | (two) a b where "ch = [a, b]" "194 \<le> unat a" "unat a \<le> 223" "utf8_cont b"
  | (three) a b c where "ch = [a, b, c]" "224 \<le> unat a" "unat a \<le> 239" "lead3_ok a b" "utf8_cont c"
  | (four) a b c d where "ch = [a, b, c, d]" "240 \<le> unat a" "unat a \<le> 244" "lead4_ok a b" "utf8_cont c" "utf8_cont d"
  using assms by (auto simp: utf8_char_def split: list.splits)

lemma utf8_valid_char: "utf8_char ch \<Longrightarrow> utf8_valid (ch @ r) = utf8_valid r"
  by (cases ch rule: utf8_char_cases) (simp_all add: lead3_ok_def lead4_ok_def)

lemma utf8_valid_first:
  assumes "utf8_valid (b # bs)"
  shows "\<exists>ch r. b # bs = ch @ r \<and> utf8_char ch \<and> utf8_valid r"
proof -
  note v = assms [unfolded utf8_valid.simps]
  show ?thesis
  proof (cases "unat b < 128")
    case True
    with v have "utf8_char [b]" "utf8_valid bs"
      by (simp_all add: utf8_char_def)
    then show ?thesis
      by (intro exI [of _ "[b]"] exI [of _ bs]) simp
  next
    case ascii: False
    show ?thesis
    proof (cases "194 \<le> unat b \<and> unat b \<le> 223")
      case True
      note v2 = v [unfolded if_not_P [OF ascii] if_P [OF True]]
      then obtain c r where "bs = c # r" "utf8_cont c" "utf8_valid r"
        by (cases bs) simp_all
      with True have "b # bs = [b, c] @ r" "utf8_char [b, c]" "utf8_valid r"
        by (simp_all add: utf8_char_def)
      then show ?thesis by blast
    next
      case two: False
      show ?thesis
      proof (cases "224 \<le> unat b \<and> unat b \<le> 239")
        case True
        note v3 = v [unfolded if_not_P [OF ascii] if_not_P [OF two] if_P [OF True], folded lead3_ok_def]
        then obtain c d r where "bs = c # d # r" "lead3_ok b c" "utf8_cont d" "utf8_valid r"
          by (auto split: list.splits)
        with True have "b # bs = [b, c, d] @ r" "utf8_char [b, c, d]" "utf8_valid r"
          by (simp_all add: utf8_char_def)
        then show ?thesis by blast
      next
        case three: False
        show ?thesis
        proof (cases "240 \<le> unat b \<and> unat b \<le> 244")
          case True
          note v4 = v [unfolded if_not_P [OF ascii] if_not_P [OF two] if_not_P [OF three] if_P [OF True],
              folded lead4_ok_def]
          then obtain c d e r where "bs = c # d # e # r" "lead4_ok b c" "utf8_cont d" "utf8_cont e" "utf8_valid r"
            by (auto split: list.splits)
          with True have "b # bs = [b, c, d, e] @ r" "utf8_char [b, c, d, e]" "utf8_valid r"
            by (simp_all add: utf8_char_def)
          then show ?thesis by blast
        next
          case False
          with v ascii two three show ?thesis
            by (simp only: if_False)
        qed
      qed
    qed
  qed
qed

lemma utf8_char_high: "utf8_char ch \<Longrightarrow> length ch \<noteq> 1 \<Longrightarrow> c \<in> set ch \<Longrightarrow> 128 \<le> unat c"
  by (cases ch rule: utf8_char_cases) (auto simp: lead3_ok_def lead4_ok_def utf8_cont_def split: if_splits)

lemma utf8_char_not_Nil: "utf8_char ch \<Longrightarrow> ch \<noteq> []"
  by (auto simp: utf8_char_def)

lemma utf8_induct [consumes 1, case_names Nil char]:
  assumes "utf8_valid s" and "P []"
    and "\<And>ch r. utf8_char ch \<Longrightarrow> utf8_valid r \<Longrightarrow> P r \<Longrightarrow> P (ch @ r)"
  shows "P s"
  using assms(1)
proof (induction s rule: length_induct)
  case (1 s)
  show ?case
  proof (cases s)
    case Nil
    with assms(2) show ?thesis by simp
  next
    case (Cons b bs)
    with 1 utf8_valid_first obtain ch r where "s = ch @ r" "utf8_char ch" "utf8_valid r"
      by metis
    with 1 assms(3) utf8_char_not_Nil show ?thesis
      by simp
  qed
qed

lemma utf8_valid_append: "utf8_valid xs \<Longrightarrow> utf8_valid (xs @ ys) = utf8_valid ys"
  by (induction xs rule: utf8_induct) (simp_all add: utf8_valid_char)

lemma utf8_valid_split:
  assumes "utf8_valid (xs @ b # ys)" and "unat b < 128"
  shows "utf8_valid xs \<and> utf8_valid ys"
proof -
  have "\<And>xs. s = xs @ b # ys \<Longrightarrow> utf8_valid xs \<and> utf8_valid ys" if "utf8_valid s" for s
    using that
  proof (induction s rule: utf8_induct)
    case (char ch r)
    from char.prems consider us where "ch = xs @ us" "us @ r = b # ys" | us where "xs = ch @ us" "r = us @ b # ys"
      by (auto simp: append_eq_append_conv2)
    then show ?case
    proof cases
      case 1
      show ?thesis
      proof (cases us)
        case Nil
        with 1 char show ?thesis
          using char.IH [of "[]"] utf8_valid_char [of ch "[]"] by simp
      next
        case (Cons u vs)
        with 1 have "b \<in> set ch"
          by simp
        with char.hyps assms(2) utf8_char_high have "length ch = 1"
          by fastforce
        with 1 Cons char.hyps show ?thesis
          by simp
      qed
    next
      case 2
      with char show ?thesis
        by (simp add: utf8_valid_char)
    qed
  qed simp
  with assms(1) show ?thesis
    by blast
qed

lemma utf8_valid_prefix_byte:
  assumes "utf8_valid s" and "unat b < 128"
  shows "utf8_valid (takeWhile (\<lambda>c. c \<noteq> b) s)"
proof (cases "b \<in> set s")
  case True
  then have "s = takeWhile (\<lambda>c. c \<noteq> b) s @ b # tl (dropWhile (\<lambda>c. c \<noteq> b) s)"
    by (metis (mono_tags, lifting) dropWhile_eq_Nil_conv hd_dropWhile list.collapse takeWhile_dropWhile_id)
  with assms utf8_valid_split show ?thesis
    by metis
next
  case False
  then have "takeWhile (\<lambda>c. c \<noteq> b) s = s"
    unfolding takeWhile_eq_all_conv by blast
  with assms(1) show ?thesis
    by (simp only:)
qed

lemma unat_byte: "n < 256 \<Longrightarrow> unat (word_of_nat n :: byte) = n"
  by (simp add: unat_of_nat)

lemma word_of_nat_byte_eq: "n < 256 \<Longrightarrow> m < 256 \<Longrightarrow> (word_of_nat n :: byte) = word_of_nat m \<longleftrightarrow> n = m"
  by (metis unat_byte)

lemma mod_64_le: "(n::nat) mod 64 \<le> 63"
  using mod_less_divisor [of 64 n] by linarith

lemma utf8_valid_encode:
  assumes "is_scalar c"
  shows "utf8_valid (utf8_encode c)"
proof -
  have ge: "c \<le> 0x10FFFF" "\<not> (0xD800 \<le> c \<and> c \<le> 0xDFFF)"
    using assms by (auto simp: is_scalar_def)
  have k63: "c mod 64 \<le> 63" "c div 64 mod 64 \<le> 63" "c div 4096 mod 64 \<le> 63"
    by (simp_all only: mod_64_le)
  have k: "c mod 64 < 64" "c div 64 mod 64 < 64" "c div 4096 mod 64 < 64"
    by simp_all
  have d: "c div 4096 = c div 64 div 64" "c div 262144 = c div 4096 div 64"
    by (simp_all flip: div_mult2_eq)
  have "utf8_char (utf8_encode c)"
  proof -
    consider "c < 0x80" | "0x80 \<le> c" "c < 0x800" | "0x800 \<le> c" "c < 0x10000" | "0x10000 \<le> c" by linarith
    then show ?thesis
    proof cases
      case 1
      then show ?thesis by (simp add: utf8_encode_def utf8_char_def unat_byte)
    next
      case 2
      then have "2 \<le> c div 64" "c div 64 < 32"
        by (simp_all add: less_eq_div_iff_mult_less_eq less_mult_imp_div_less)
      then have "unat (word_of_nat (0xC0 + c div 64) :: byte) = 0xC0 + c div 64"
        "unat (word_of_nat (0x80 + c mod 64) :: byte) = 0x80 + c mod 64"
        using k by (simp_all add: unat_byte del: of_nat_add)
      moreover have "utf8_encode c = map word_of_nat [0xC0 + c div 64, 0x80 + c mod 64]"
        using 2 by (simp add: utf8_encode_def)
      ultimately show ?thesis
        using \<open>2 \<le> c div 64\<close> \<open>c div 64 < 32\<close> k(1)
        by (simp add: utf8_char_def utf8_cont_def del: of_nat_add)
    next
      case 3
      define a where "a = c div 4096"
      define m where "m = c div 64 mod 64"
      obtain r where c: "c = 4096 * a + 64 * m + r" "r < 64" "m < 64"
        using that [of "c mod 64"] mult_div_mod_eq [of 64 c] mult_div_mod_eq [of 64 "c div 64"]
        by (simp add: a_def m_def d)
      have "a < 16" "a = 0 \<Longrightarrow> 32 \<le> m"
        using 3 c by linarith+
      moreover have "m \<le> 31" if "a = 13"
      proof (rule ccontr)
        assume "\<not> m \<le> 31"
        with that c have "55296 \<le> c" "c \<le> 57343" by linarith+
        with ge show False by blast
      qed
      ultimately have a: "a < 16" "a = 0 \<Longrightarrow> 32 \<le> m" "a = 13 \<Longrightarrow> m \<le> 31"
        by blast+
      have eq: "(word_of_nat (0xE0 + a) :: byte) = 224 \<longleftrightarrow> a = 0" "(word_of_nat (0xE0 + a) :: byte) = 237 \<longleftrightarrow> a = 13"
        using a word_of_nat_byte_eq [of "0xE0 + a" 224] word_of_nat_byte_eq [of "0xE0 + a" 237] by simp_all
      have "utf8_encode c = map word_of_nat [0xE0 + a, 0x80 + m, 0x80 + c mod 64]"
        using 3 by (simp add: utf8_encode_def a_def m_def)
      moreover have "unat (word_of_nat (0xE0 + a) :: byte) = 0xE0 + a" "unat (word_of_nat (0x80 + m) :: byte) = 0x80 + m"
        "unat (word_of_nat (0x80 + c mod 64) :: byte) = 0x80 + c mod 64"
        using a k by (simp_all add: unat_byte m_def del: of_nat_add)
      ultimately show ?thesis
        using a k63(1,2) unfolding m_def [symmetric]
        by (simp add: utf8_char_def lead3_ok_def utf8_cont_def eq del: of_nat_add)
    next
      case 4
      define a where "a = c div 262144"
      define m where "m = c div 4096 mod 64"
      obtain r where c: "c = 262144 * a + 4096 * m + r" "r < 4096" "m < 64"
      proof -
        have q: "c div 4096 = 64 * a + m"
          unfolding a_def m_def d(2) by simp
        have "c = 4096 * (c div 4096) + c mod 4096"
          by simp
        then show thesis
          using that [of "c mod 4096"] unfolding q by (simp add: m_def)
      qed
      have a: "a \<le> 4" "a = 0 \<Longrightarrow> 16 \<le> m" "a = 4 \<Longrightarrow> m \<le> 15"
        using 4 ge c by linarith+
      have eq: "(word_of_nat (0xF0 + a) :: byte) = 240 \<longleftrightarrow> a = 0" "(word_of_nat (0xF0 + a) :: byte) = 244 \<longleftrightarrow> a = 4"
        using a word_of_nat_byte_eq [of "0xF0 + a" 240] word_of_nat_byte_eq [of "0xF0 + a" 244] by simp_all
      have "utf8_encode c = map word_of_nat [0xF0 + a, 0x80 + m, 0x80 + c div 64 mod 64, 0x80 + c mod 64]"
        using 4 by (simp add: utf8_encode_def a_def m_def)
      moreover have "unat (word_of_nat (0xF0 + a) :: byte) = 0xF0 + a" "unat (word_of_nat (0x80 + m) :: byte) = 0x80 + m"
        "unat (word_of_nat (0x80 + c div 64 mod 64) :: byte) = 0x80 + c div 64 mod 64"
        "unat (word_of_nat (0x80 + c mod 64) :: byte) = 0x80 + c mod 64"
        using a k by (simp_all add: unat_byte m_def del: of_nat_add)
      ultimately show ?thesis
        using a k63 unfolding m_def [symmetric]
        by (simp add: utf8_char_def lead4_ok_def utf8_cont_def eq del: of_nat_add)
    qed
  qed
  then show ?thesis
    using utf8_valid_char [of _ "[]"] by simp
qed

end
