(* ===== verification/Number_Properties.thy ===== *)
theory Number_Properties
  imports Number
begin

text \<open>
  Correctness of number formatting: the bignum operations compute on the numbers their limbs stand for,
  the digit strings are exact, the rounding is to the nearest with ties to even, and integers survive
  formatting and parsing.
\<close>

section \<open>Bignum operations\<close>

lemma big_from_u64_value: "v < 2 ^ 64 \<Longrightarrow> big_value (big_from_u64 v) = v"
proof -
  assume "v < 2 ^ 64"
  then have "v div 2 ^ 32 < 2 ^ 32"
    by (simp add: less_mult_imp_div_less)
  then show ?thesis
    by (simp only: big_from_u64_def big_value.simps unat_limb mod_less mult_0_right add_0_right mod_mult_div_eq)
qed

lemma unat_drop_limb: "unat (drop_bit k (l :: 32 word)) = unat l div 2 ^ k"
proof -
  have "take_bit 32 (unat l) = unat l"
    using limb_less [of l] by (simp add: take_bit_nat_eq_self)
  then show ?thesis
    unfolding unsigned_drop_bit_eq drop_bit_eq_div [where 'a = nat] by simp
qed

lemma shl_limb:
  assumes "n < 32" and "unat c < 2 ^ n"
  shows "unat (push_bit n l OR c :: 32 word) + 2 ^ 32 * unat (drop_bit (32 - n) l) = unat l * 2 ^ n + unat c"
proof -
  have "unat (take_bit n c) = unat c"
    unfolding unsigned_take_bit_eq using assms(2) by (simp add: take_bit_nat_eq_self)
  then have "take_bit n c = c"
    by (simp only: word_unat_eq_iff)
  then have "\<not> bit c i" if "n \<le> i" for i
    using that by (metis bit_take_bit_iff not_less)
  then have "\<And>i. \<not> bit (push_bit n l) i \<or> \<not> bit c i"
    by (auto simp: bit_push_bit_iff)
  then have or: "push_bit n l OR c = push_bit n l + c"
    by (simp add: disjunctive_add_eq_or bit_eq_iff bit_and_iff)
  define a where "a = unat l mod 2 ^ (32 - n)"
  define b where "b = unat l div 2 ^ (32 - n)"
  have p: "(2::nat) ^ (32 - n) * 2 ^ n = 2 ^ 32"
    using assms(1) by (simp flip: power_add)
  have "unat l = 2 ^ (32 - n) * b + a"
    by (simp add: a_def b_def)
  then have "unat l * 2 ^ n = b * (2 ^ (32 - n) * 2 ^ n) + a * 2 ^ n"
    by (simp add: algebra_simps)
  then have l: "unat l * 2 ^ n = b * 2 ^ 32 + a * 2 ^ n"
    by (simp only: p)
  have "a * 2 ^ n + 2 ^ n \<le> 2 ^ 32"
  proof -
    have "Suc a * 2 ^ n \<le> 2 ^ (32 - n) * 2 ^ n"
      by (intro mult_le_mono1) (simp add: a_def Suc_le_eq)
    then show ?thesis
      by (simp add: p add.commute)
  qed
  then have lt: "a * 2 ^ n + unat c < 2 ^ 32"
    using assms(2) by linarith
  have "unat (push_bit n l) = (unat l * 2 ^ n) mod 2 ^ 32"
    unfolding unsigned_push_bit_eq push_bit_eq_mult [where 'a = nat] by (simp add: take_bit_eq_mod)
  also have "\<dots> = a * 2 ^ n"
    unfolding l using lt by simp
  finally have pb: "unat (push_bit n l) = a * 2 ^ n" .
  have "unat (push_bit n l + c) = a * 2 ^ n + unat c"
    using lt by (simp add: unat_word_ariths pb)
  moreover have "unat (drop_bit (32 - n) l) = b"
    by (simp add: b_def unat_drop_limb)
  ultimately show ?thesis
    by (simp add: or l)
qed

lemma shl_loop_value:
  "0 < n \<Longrightarrow> n < 32 \<Longrightarrow> unat c < 2 ^ n \<Longrightarrow> big_value (shl_loop n c b) = big_value b * 2 ^ n + unat c"
proof (induction n c b rule: shl_loop.induct)
  case (2 n c l ls)
  have "unat (drop_bit (32 - n) l) < 2 ^ n"
  proof -
    have "unat l < 2 ^ (32 - n) * 2 ^ n"
      using "2.prems" limb_less [of l] by (simp flip: power_add)
    then show ?thesis
      by (simp add: unat_drop_limb less_mult_imp_div_less mult.commute)
  qed
  with 2 have "big_value (shl_loop n c (l # ls))
      = unat (push_bit n l OR c) + 2 ^ 32 * unat (drop_bit (32 - n) l) + 2 ^ 32 * (big_value ls * 2 ^ n)"
    by simp
  also have "\<dots> = unat l * 2 ^ n + unat c + 2 ^ 32 * (big_value ls * 2 ^ n)"
    by (simp only: shl_limb [OF "2.prems"(2,3)])
  finally show ?case
    by (simp add: algebra_simps)
qed auto

lemma shl_bits_value: "big_value (shl_bits b n) = big_value b * 2 ^ n"
proof (cases "32 \<le> n")
  case True
  have "(2::nat) ^ (32 * (n div 32)) * 2 ^ (n mod 32) = 2 ^ n"
    by (simp flip: power_add)
  with True show ?thesis
    by (auto simp: shl_bits_def Let_def shl_loop_value big_value_append big_value_zero ac_simps)
qed (auto simp: shl_bits_def Let_def shl_loop_value)

lemma mul_loop_value:
  "m < 2 ^ 32 \<Longrightarrow> c < 2 ^ 32 \<Longrightarrow> big_value (mul_loop m c b) = big_value b * m + c"
proof (induction m c b rule: mul_loop.induct)
  case (2 m c l ls)
  define prod where "prod = unat l * m + c"
  have "unat l * m \<le> (2 ^ 32 - 1) * (2 ^ 32 - 1)"
    using limb_less [of l] "2.prems" by (intro mult_le_mono) simp_all
  then have "prod < 2 ^ 32 * 2 ^ 32"
    using "2.prems" by (simp add: prod_def)
  then have "prod div 2 ^ 32 < 2 ^ 32"
    by (simp add: less_mult_imp_div_less)
  then have "big_value (mul_loop m c (l # ls)) = prod mod 2 ^ 32 + 2 ^ 32 * (prod div 2 ^ 32) + 2 ^ 32 * (big_value ls * m)"
    using "2.IH" [of prod] "2.prems" by (simp add: prod_def [symmetric] Let_def unat_limb)
  then show ?case
    by (simp add: prod_def algebra_simps)
qed (simp_all add: unat_limb)

lemma mul_small_value: "m < 2 ^ 32 \<Longrightarrow> big_value (mul_small b m) = big_value b * m"
  by (simp add: mul_small_def mul_loop_value)

lemma mul_pow5_value: "big_value (mul_pow5 b k) = big_value b * 5 ^ k"
proof (induction b k rule: mul_pow5.induct)
  case (1 b k)
  show ?case
  proof (cases "13 \<le> k")
    case True
    have "(5::nat) ^ k = 5 ^ 13 * 5 ^ (k - 13)"
      using True by (simp only: le_add_diff_inverse flip: power_add)
    with True 1 show ?thesis
      by (simp add: mul_pow5.simps [of b k] mul_small_value)
  next
    case False
    have "big_value (((\<lambda>b. mul_small b 5) ^^ j) b) = big_value b * 5 ^ j" for j
      by (induction j) (simp_all add: mul_small_value)
    with False show ?thesis
      by (simp add: mul_pow5.simps [of b k])
  qed
qed

section \<open>Exact decimal digits\<close>

text \<open>The reference: the decimal digits of a natural number, most significant first.\<close>

fun dec_digits :: "nat \<Rightarrow> nat list" where
  "dec_digits n = (if n < 10 then [n] else dec_digits (n div 10) @ [n mod 10])"

declare dec_digits.simps [simp del]

fun fixed_digits :: "nat \<Rightarrow> nat \<Rightarrow> nat list" where
  "fixed_digits 0 g = []"
| "fixed_digits (Suc k) g = fixed_digits k (g div 10) @ [g mod 10]"

lemma low_digits_dec: "0 < t \<Longrightarrow> rev (low_digits t) = dec_digits t"
proof (induction t rule: less_induct)
  case (less t)
  show ?case
  proof (cases "t < 10")
    case True
    with less.prems show ?thesis
      by (simp add: low_digits.simps [of t] low_digits.simps [of 0] dec_digits.simps [of t])
  next
    case False
    with less show ?thesis
      by (simp add: low_digits.simps [of t] dec_digits.simps [of t])
  qed
qed

lemma dec_digits_split:
  "0 < n div 10 ^ k \<Longrightarrow> dec_digits n = dec_digits (n div 10 ^ k) @ fixed_digits k (n mod 10 ^ k)"
proof (induction k arbitrary: n)
  case (Suc k)
  have n: "n div 10 ^ Suc k = n div 10 div 10 ^ k"
    by (simp add: div_mult2_eq)
  have "n mod 10 ^ Suc k div 10 = n div 10 mod 10 ^ k" "n mod 10 ^ Suc k mod 10 = n mod 10"
    by (simp_all add: mod_mult2_eq mod_mult_self2 div_mult_self2)
  moreover have "\<not> n < 10"
    using Suc.prems unfolding n by (metis div_less div_0 less_irrefl)
  ultimately show ?case
    using Suc unfolding n by (simp add: dec_digits.simps [of n])
qed simp

lemma group_digits_fixed: "group_digits g 100000000 = fixed_digits 9 g"
proof -
  have "group_digits g (10 ^ k) = fixed_digits (Suc k) g" for k
  proof (induction k arbitrary: g)
    case 0
    then show ?case
      by (simp add: group_digits.simps [of g "Suc 0"] group_digits.simps [of g 0])
  next
    case (Suc k)
    have shift: "group_digits g (10 * 10 ^ k) = group_digits (g div 10) (10 ^ k) @ [g mod 10]" for k
    proof (induction k)
      case 0
      then show ?case
        by (simp add: group_digits.simps [of _ 10] group_digits.simps [of _ "Suc 0"] group_digits.simps [of _ 0])
    next
      case (Suc k)
      have eq1: "group_digits g (10 * 10 ^ Suc k) = g div (10 * 10 ^ Suc k) mod 10 # group_digits g (10 * 10 ^ k)"
        by (subst group_digits.simps) simp
      have eq2: "group_digits (g div 10) (10 ^ Suc k)
          = g div 10 div 10 ^ Suc k mod 10 # group_digits (g div 10) (10 ^ k)"
        by (subst group_digits.simps) simp
      have "g div (10 * 10 ^ Suc k) = g div 10 div 10 ^ Suc k"
        by (rule div_mult2_eq)
      then show ?case
        unfolding eq1 eq2 Suc by simp
    qed
    show ?case
      using Suc shift by simp
  qed
  from this [of 8] show ?thesis
    by simp
qed

text \<open>The groups are the base \<open>10 ^ 9\<close> digits of the number, least significant first, and the last is
  not zero.\<close>

lemma decimal_groups_digits:
  "\<not> list_all (\<lambda>l. l = 0) b \<Longrightarrow>
    decimal_groups b \<noteq> []
    \<and> dec_digits (big_value b) = rev (low_digits (last (decimal_groups b)))
        @ concat (map (\<lambda>g. group_digits g 100000000) (tl (rev (decimal_groups b))))"
proof (induction b rule: decimal_groups.induct)
  case (1 b)
  obtain q r where dm: "divmod_small b 1000000000 = (q, r)"
    by (cases "divmod_small b 1000000000") simp
  have q: "big_value q = big_value b div 10 ^ 9" and r: "r = big_value b mod 10 ^ 9"
    using divmod_small_value [OF _ _ dm] by simp_all
  have gs: "decimal_groups b = r # decimal_groups q"
    using 1 by (simp add: decimal_groups.simps [of b] dm)
  show ?case
  proof (cases "list_all (\<lambda>l. l = 0) q")
    case True
    then have "big_value b div 10 ^ 9 = 0"
      unfolding q [symmetric] by (simp add: big_value_0_iff)
    then have "r = big_value b"
      using r by simp
    moreover have "0 < big_value b"
      using 1 by (simp flip: neq0_conv add: big_value_0_iff)
    ultimately show ?thesis
      using True by (simp add: gs decimal_groups.simps [of q] low_digits_dec)
  next
    case False
    note IH = "1.IH" [OF "1.prems" dm [symmetric] False]
    have "0 < big_value b div 10 ^ 9"
      using False unfolding q [symmetric] neq0_conv [symmetric] by (simp add: big_value_0_iff)
    from dec_digits_split [OF this]
    have "dec_digits (big_value b) = dec_digits (big_value q) @ group_digits r 100000000"
      by (simp only: q r group_digits_fixed)
    with IH show ?thesis
      by (simp add: gs)
  qed
qed

lemma to_decimal_digits: "to_decimal b = dec_digits (big_value b)"
proof (cases "list_all (\<lambda>l. l = 0) b")
  case True
  then have "big_value b = 0"
    by (simp add: big_value_0_iff)
  with True show ?thesis
    by (simp add: to_decimal_def dec_digits.simps [of 0])
next
  case False
  with decimal_groups_digits [OF False] show ?thesis
    by (simp add: to_decimal_def Let_def)
qed

text \<open>C33: The bignum expansion is exact: for any 64-bit significand the digits computed for
  \<open>m * 2 ^ e2\<close> are the decimal digits of that integer when the exponent is not negative, and of
  \<open>m * 5 ^ k\<close>, which is \<open>m * 2 ^ -k * 10 ^ k\<close>, when it is \<open>-k\<close>, with the position of the leading
  digit.\<close>

theorem exact_digits_refines:
  assumes "m < 2 ^ 64"
  shows "exact_digits m (int e) = (dec_digits (m * 2 ^ e), int (length (dec_digits (m * 2 ^ e))) - 1)
    \<and> (0 < k \<longrightarrow> exact_digits m (- int k)
        = (dec_digits (m * 5 ^ k), int (length (dec_digits (m * 5 ^ k))) - 1 - int k))"
  using assms
  by (simp add: exact_digits_def Let_def to_decimal_digits shl_bits_value mul_pow5_value big_from_u64_value)

theorem exact_digits_refines_witness:
  "exact_digits 5 (int 3) = ([4, 0], 1) \<and> exact_digits 1 (- int 2) = ([2, 5], -1)"
  using exact_digits_refines [of 5 3 1] exact_digits_refines [of 1 0 2] by (simp add: dec_digits.simps)

section \<open>Rounding\<close>

definition digits_num :: "nat list \<Rightarrow> nat" where
  "digits_num ds = foldl (\<lambda>a d. 10 * a + d) 0 ds"

lemma digits_num_snoc: "digits_num (ds @ [d]) = 10 * digits_num ds + d"
  by (simp add: digits_num_def)

lemma digits_num_append: "digits_num (xs @ ys) = digits_num xs * 10 ^ length ys + digits_num ys"
  by (induction ys rule: rev_induct) (simp_all add: digits_num_def algebra_simps)

lemma digits_num_less: "\<forall>d\<in>set ds. d < 10 \<Longrightarrow> digits_num ds < 10 ^ length ds"
proof (induction ds rule: rev_induct)
  case (snoc d ds)
  then show ?case by (simp add: digits_num_snoc)
qed (simp add: digits_num_def)

lemma digits_num_0: "digits_num ds = 0 \<longleftrightarrow> list_all (\<lambda>d. d = 0) ds"
  by (induction ds rule: rev_induct) (auto simp: digits_num_def)

lemma digits_num_zeros: "digits_num (replicate p 0) = 0"
  by (simp add: digits_num_0 list_all_iff)

lemma carry_loop_value:
  assumes "i \<le> length ks"
  shows "(carry_loop i ks = None \<longrightarrow> digits_num (take i ks) + 1 = 10 ^ i)
    \<and> (\<forall>ks'. carry_loop i ks = Some ks' \<longrightarrow> length ks' = length ks \<and> drop i ks' = drop i ks
         \<and> digits_num (take i ks') = digits_num (take i ks) + 1)"
  using assms
proof (induction i ks rule: carry_loop.induct)
  case (1 ks)
  then show ?case by (simp add: digits_num_def)
next
  case (2 i ks)
  have tk: "take (Suc i) ks = take i ks @ [ks ! i]"
    using "2.prems" by (simp add: take_Suc_conv_app_nth)
  show ?case
  proof (cases "ks ! i = 9")
    case True
    have IH: "(carry_loop i (ks[i := 0]) = None \<longrightarrow> digits_num (take i ks) + 1 = 10 ^ i)
      \<and> (\<forall>ks'. carry_loop i (ks[i := 0]) = Some ks' \<longrightarrow> length ks' = length ks \<and> drop i ks' = drop i (ks[i := 0])
           \<and> digits_num (take i ks') = digits_num (take i ks) + 1)"
      using "2.IH" [OF True] "2.prems" by simp
    have "take (Suc i) ks' = take i ks' @ [0] \<and> drop (Suc i) ks' = drop (Suc i) ks"
      if "length ks' = length ks" "drop i ks' = drop i (ks[i := 0])" for ks'
    proof -
      have "drop i ks' = 0 # drop (Suc i) ks"
        using that(2) "2.prems" by (simp add: drop_update_swap Cons_nth_drop_Suc [symmetric])
      then have "ks' ! i = 0" "drop (Suc i) ks' = drop (Suc i) ks"
        using that(1) "2.prems" by (metis Cons_nth_drop_Suc Suc_le_lessD list.inject)+
      with that(1) "2.prems" show ?thesis
        by (simp add: take_Suc_conv_app_nth)
    qed
    with IH True show ?thesis
      by (auto simp: tk digits_num_snoc)
  next
    case False
    with "2.prems" show ?thesis
      by (auto simp: tk digits_num_snoc take_Suc_conv_app_nth)
  qed
qed

text \<open>The decision to round up is the comparison of the dropped part with one half.\<close>

lemma rounds_up_half:
  assumes "p < length ds" and "0 < p" and "\<forall>d\<in>set ds. d < 10"
  shows "rounds_up ds p \<longleftrightarrow>
    10 ^ (length ds - p) < 2 * digits_num (drop p ds)
    \<or> (2 * digits_num (drop p ds) = 10 ^ (length ds - p) \<and> odd (digits_num (take p ds)))"
proof -
  define f where "f = ds ! p"
  define r where "r = digits_num (drop (p + 1) ds)"
  define t where "t = (10::nat) ^ (length ds - p - 1)"
  have ds: "drop p ds = f # drop (p + 1) ds"
    using assms(1) by (simp add: f_def Cons_nth_drop_Suc)
  have v: "digits_num (drop p ds) = f * t + r"
    unfolding ds using digits_num_append [of "[f]" "drop (p + 1) ds"]
    by (simp add: digits_num_def t_def r_def)
  have rt: "r < t"
    using digits_num_less [of "drop (p + 1) ds"] assms(3) by (auto simp: r_def t_def dest: in_set_dropD)
  have e: "10 ^ (length ds - p) = 10 * t"
    using assms(1) by (simp add: t_def flip: power_Suc)
  have z: "list_all (\<lambda>d. d = 0) (drop (p + 1) ds) \<longleftrightarrow> r = 0"
    by (simp add: r_def digits_num_0)
  have "take p ds = take (p - 1) ds @ [take p ds ! (p - 1)]"
    using assms by (metis Suc_diff_1 Suc_lessD diff_less lessI less_imp_diff_less nth_take take_Suc_conv_app_nth less_trans)
  then have "digits_num (take p ds) = 10 * digits_num (take (p - 1) ds) + take p ds ! (p - 1)"
    by (metis digits_num_snoc)
  then have odd: "odd (digits_num (take p ds)) \<longleftrightarrow> take p ds ! (p - 1) mod 2 = 1"
    by (simp add: odd_iff_mod_2_eq_one [symmetric] del: One_nat_def)
  consider "5 < f" | "f < 5" | "f = 5" by linarith
  then show ?thesis
  proof cases
    case 1
    then have "6 * t \<le> f * t" by (intro mult_le_mono1) simp
    moreover have "0 < t" using rt by simp
    ultimately have "10 * t < 2 * (f * t)" by linarith
    then have "10 * t < 2 * (f * t + r)" unfolding add_mult_distrib2 by (rule trans_less_add1)
    with 1 show ?thesis unfolding rounds_up_def v e by (simp add: f_def [symmetric])
  next
    case 2
    then have "f * t \<le> 4 * t" by (intro mult_le_mono1) simp
    from add_le_less_mono [OF this rt] have "2 * (f * t + r) < 10 * t" by simp
    with 2 show ?thesis unfolding rounds_up_def v e by (simp add: f_def [symmetric])
  next
    case 3
    then show ?thesis unfolding rounds_up_def v e odd z using rt by (auto simp: f_def [symmetric] Let_def)
  qed
qed

lemma round_to_value:
  assumes "0 < p" and "p < length ds" and "\<forall>d\<in>set ds. d < 10"
    and "round_to ds x p = (ks, y)"
  shows "digits_num ks = div_half_even (digits_num ds) (10 ^ (length ds - p))
    \<and> y = x + (int (length ks) - int p) \<and> (length ks = p \<or> length ks = p + 1)"
proof -
  let ?t = "10 ^ (length ds - p) :: nat"
  have split: "digits_num ds = digits_num (take p ds) * ?t + digits_num (drop p ds)"
    using digits_num_append [of "take p ds" "drop p ds"] by simp
  have "digits_num (drop p ds) < ?t"
    using digits_num_less [of "drop p ds"] assms(3) by (auto dest: in_set_dropD)
  then have dm: "digits_num ds div ?t = digits_num (take p ds)" "digits_num ds mod ?t = digits_num (drop p ds)"
    unfolding split by simp_all
  have half: "div_half_even (digits_num ds) ?t
      = (if rounds_up ds p then digits_num (take p ds) + 1 else digits_num (take p ds))"
    unfolding div_half_even_def Let_def dm rounds_up_half [OF assms(2,1,3)] by simp
  show ?thesis
  proof (cases "rounds_up ds p")
    case False
    with assms have "ks = take p ds" "y = x"
      by (simp_all add: round_to_def)
    with False assms(2) show ?thesis
      unfolding half by simp
  next
    case True
    have tp: "p \<le> length (take p ds)" "take p (take p ds) = take p ds"
      using assms(2) by simp_all
    note c = carry_loop_value [OF tp(1), unfolded tp(2)]
    show ?thesis
    proof (cases "carry_loop p (take p ds)")
      case None
      then have "ks = 1 # replicate p 0" "y = x + 1"
        using assms True by (simp_all add: round_to_def)
      moreover have "digits_num (1 # replicate p 0) = 10 ^ p"
        using digits_num_append [of "[1]" "replicate p 0"] by (simp add: digits_num_zeros) (simp add: digits_num_def)
      moreover have "digits_num (take p ds) + 1 = 10 ^ p"
        using None c by blast
      ultimately show ?thesis
        unfolding half using True by simp
    next
      case (Some kept)
      then have "ks = kept" "y = x"
        using assms True by (simp_all add: round_to_def)
      moreover have "length kept = p" "digits_num (take p kept) = digits_num (take p ds) + 1"
        using Some c assms(2) by auto
      ultimately show ?thesis
        unfolding half using True by simp
    qed
  qed
qed

text \<open>C34: Rounding to \<open>p\<close> significant digits is rounding to the nearest, ties to even: the number the
  kept digits stand for, in units of the last kept digit, is the exact number divided by that unit and
  rounded half to even, also when the carry runs through all digits and the exponent grows by one.\<close>

theorem round_to_nearest:
  assumes "0 < p" and "p < length ds" and "\<forall>d\<in>set ds. d < 10"
  shows "\<exists>ks. round_to ds x p = (ks, x + (int (length ks) - int p)) \<and> length ks \<in> {p, p + 1}
    \<and> digits_num ks = div_half_even (digits_num ds) (10 ^ (length ds - p))"
proof (cases "round_to ds x p")
  case (Pair ks y)
  with round_to_value [OF assms Pair] show ?thesis
    by (intro exI [of _ ks]) simp
qed

theorem round_to_nearest_witness:
  "\<exists>ks. round_to [9, 9, 5] 0 2 = (ks, int (length ks) - 2) \<and> length ks \<in> {2, 3}
    \<and> digits_num ks = div_half_even (digits_num [9, 9, 5]) 10"
  using round_to_nearest [of 2 "[9, 9, 5]" 0] by simp

section \<open>Integers\<close>

lemma format_small_int:
  assumes "small_int i"
  shows "format_json_number (f64_of_int i) = show_int i"
proof -
  note f = f64_of_small_int [OF assms]
  have g: "scaled (f64_of_int gate) = gate * 2 ^ 1074" "scaled (f64_of_int (- gate)) = - gate * 2 ^ 1074"
    "is_finite (f64_of_int gate)" "is_finite (f64_of_int (- gate))"
  proof -
    have abs: "nat \<bar>gate\<bar> = 9200000000000000000" "nat \<bar>- gate\<bar> = 9200000000000000000"
      by (simp_all add: gate_def)
    have "(2::nat) ^ 10 dvd 9200000000000000000" "bit_length 9200000000000000000 \<le> 53 + 10"
      "(9200000000000000000::nat) < 2 ^ 1000"
      by (simp_all add: dvd_eq_mod_eq_0 bit_length_mono)
    note e = this [folded abs(1)] this [folded abs(2)]
    show "scaled (f64_of_int gate) = gate * 2 ^ 1074" "is_finite (f64_of_int gate)"
      using f64_of_int_exact [OF e(1-3)] by blast+
    show "scaled (f64_of_int (- gate)) = - gate * 2 ^ 1074" "is_finite (f64_of_int (- gate))"
      using f64_of_int_exact [OF e(4-6)] by blast+
  qed
  have r: "- gate \<le> i" "i \<le> gate" "- (2 ^ 63) \<le> i" "i \<le> 2 ^ 63 - 1"
    using assms by (auto simp: small_int_def gate_def)
  have "f64_le (f64_of_int (- gate)) (f64_of_int i)" "f64_le (f64_of_int i) (f64_of_int gate)"
    unfolding f64_le_def g f(4) using r by (simp_all only: finite_not_nan g f(1) mult_right_mono) simp_all
  moreover have "f64_as (- (2 ^ 63)) (2 ^ 63 - 1) (f64_of_int i) = i"
    using r by (simp add: f64_as_def finite_not_nan f)
  ultimately show ?thesis
    by (simp add: format_json_number_def f)
qed

lemma parse_show_int: "parse_f64 (show_int i) = Some (f64_of_int i)"
  using parse_f64_digits [of "show_nat (nat \<bar>i\<bar>)"] show_nat_digits [of "nat \<bar>i\<bar>"]
  by (auto simp: show_int_def f64_of_int_def)

text \<open>C35: Integers survive the text form: an integer of at most 53 bits is formatted as its decimal
  digits, and those digits parse to the same double.\<close>

theorem integer_text_roundtrip:
  assumes "\<bar>i\<bar> < 2 ^ 53"
  shows "format_json_number (f64_of_int i) = show_int i
    \<and> parse_f64 (format_json_number (f64_of_int i)) = Some (f64_of_int i)
    \<and> f64_trunc (f64_of_int i) = i"
  using assms format_small_int [of i] parse_show_int [of i] f64_of_small_int(6) [of i]
  by (simp add: small_int_def)

theorem integer_text_roundtrip_witness:
  "parse_f64 (format_json_number (f64_of_int (- 60))) = Some (f64_of_int (- 60))"
  using conjunct1 [OF conjunct2 [OF integer_text_roundtrip [of "- 60"]]] by simp

end
