(* ===== verification/Json_Properties.thy ===== *)
theory Json_Properties
  imports Utf8 Number_Properties
begin

text \<open>
  The parser returns on every input, the values it returns respect the nesting limit and hold
  well-formed strings without NUL, and printing followed by parsing is the identity on such values when
  their numbers survive the number format.
\<close>

section \<open>Progress and totality\<close>

lemma skip_ws_ge: "pos \<le> skip_ws bs pos"
proof (induction bs pos rule: skip_ws.induct)
  case (1 bs pos)
  then show ?case
    by (subst skip_ws.simps) auto
qed

lemma peek_Some: "peek bs pos = Some c \<longleftrightarrow> pos < length bs \<and> bs ! pos = c"
  by (simp add: peek_def)

lemma find_quote_ge: "find_quote bs i = Inr j \<Longrightarrow> i \<le> j"
proof (induction bs i rule: find_quote.induct)
  case (1 bs i)
  consider "find_quote bs i = Inr i" | "find_quote bs i = Inl i"
    | "i < length bs" "bs ! i = 0x5C" "\<not> length bs \<le> i + 1" "find_quote bs i = find_quote bs (i + 2)"
    | "i < length bs" "bs ! i \<noteq> 0x22" "bs ! i \<noteq> 0x5C" "find_quote bs i = find_quote bs (i + 1)"
    using find_quote.simps [of bs i] by (auto split: if_splits)
  then show ?case
    by cases (use 1 in auto)
qed

lemma parse_string_progress: "parse_string bs pos = Inr (s, p) \<Longrightarrow> pos < p"
  by (auto simp: parse_string_def split: if_splits sum.splits dest: find_quote_ge)

lemma parse_number_progress: "parse_number bs pos = Inr (v, p) \<Longrightarrow> pos < p"
  by (auto simp: parse_number_def Let_def split: if_splits option.splits)

text \<open>What a successful call of each function did.\<close>

lemma parse_array_Inr:
  assumes "parse_array call bs pos depth = Some (Inr (v, p))"
  shows "depth < NESTING_LIMIT \<and>
    (v = Array [] \<and> p = skip_ws bs (pos + 1) + 1
     \<or> call (Items []) (skip_ws bs (pos + 1)) (depth + 1) = Some (Inr (v, p)))"
  using assms by (auto simp: parse_array_def Let_def split: if_splits)

lemma parse_object_Inr:
  assumes "parse_object call bs pos depth = Some (Inr (v, p))"
  shows "depth < NESTING_LIMIT \<and>
    (v = Object [] \<and> p = skip_ws bs (pos + 1) + 1
     \<or> call (Members []) (skip_ws bs (pos + 1)) (depth + 1) = Some (Inr (v, p)))"
  using assms by (auto simp: parse_object_def Let_def split: if_splits)

lemma parse_items_Inr:
  assumes "parse_items call bs items pos depth = Some (Inr (v, p))"
  obtains w q where "call Value (skip_ws bs pos) depth = Some (Inr (w, q))"
    and "call (Items (items @ [w])) (skip_ws bs q + 1) depth = Some (Inr (v, p))
      \<or> v = Array (items @ [w]) \<and> p = skip_ws bs q + 1"
  using assms by (auto simp: parse_items_def Let_def split: option.splits sum.splits prod.splits if_splits)

lemma parse_members_Inr:
  assumes "parse_members call bs members pos depth = Some (Inr (v, p))"
  obtains key c w q where "parse_string bs (skip_ws bs pos) = Inr (key, c)"
    and "call Value (skip_ws bs (skip_ws bs c + 1)) depth = Some (Inr (w, q))"
    and "call (Members (members @ [(key, w)])) (skip_ws bs q + 1) depth = Some (Inr (v, p))
      \<or> v = Object (members @ [(key, w)]) \<and> p = skip_ws bs q + 1"
  using assms by (auto simp: parse_members_def Let_def split: option.splits sum.splits prod.splits if_splits)

lemma parse_value_Inr:
  assumes "parse_value call bs pos depth = Some (Inr (v, p))"
  obtains (literal) "v = Null \<or> (\<exists>b. v = Bool b)" "pos < p"
  | (string) s where "v = String s" "parse_string bs pos = Inr (s, p)"
  | (number) "parse_number bs pos = Inr (v, p)"
  | (array) "parse_array call bs pos depth = Some (Inr (v, p))"
  | (object) "parse_object call bs pos depth = Some (Inr (v, p))"
  using assms
  by (auto simp: parse_value_def map_sum_def split: option.splits if_splits sum.splits prod.splits)

lemma run_parser_progress:
  "run_parser f bs entry pos depth = Some (Inr (v, p)) \<Longrightarrow> pos < p"
proof (induction f arbitrary: entry pos depth v p)
  case (Suc f)
  note sk = skip_ws_ge [of _ bs]
  show ?case
  proof (cases entry)
    case Value
    with Suc.prems have "parse_value (run_parser f bs) bs pos depth = Some (Inr (v, p))"
      by simp
    then show ?thesis
    proof (cases rule: parse_value_Inr)
      case array
      with parse_array_Inr Suc.IH [of "Items []"] sk [of "pos + 1"] show ?thesis
        by fastforce
    next
      case object
      with parse_object_Inr Suc.IH [of "Members []"] sk [of "pos + 1"] show ?thesis
        by fastforce
    qed (use parse_string_progress parse_number_progress in blast)+
  next
    case (Items items)
    with Suc.prems have "parse_items (run_parser f bs) bs items pos depth = Some (Inr (v, p))"
      by simp
    then obtain w q where "run_parser f bs Value (skip_ws bs pos) depth = Some (Inr (w, q))"
      and "run_parser f bs (Items (items @ [w])) (skip_ws bs q + 1) depth = Some (Inr (v, p))
        \<or> v = Array (items @ [w]) \<and> p = skip_ws bs q + 1"
      by (rule parse_items_Inr)
    then have "skip_ws bs pos < q" "skip_ws bs q < p"
      by (auto dest!: Suc.IH)
    with sk [of pos] sk [of q] show ?thesis
      by linarith
  next
    case (Members members)
    with Suc.prems have "parse_members (run_parser f bs) bs members pos depth = Some (Inr (v, p))"
      by simp
    then obtain key c w q where "parse_string bs (skip_ws bs pos) = Inr (key, c)"
      and "run_parser f bs Value (skip_ws bs (skip_ws bs c + 1)) depth = Some (Inr (w, q))"
      and "run_parser f bs (Members (members @ [(key, w)])) (skip_ws bs q + 1) depth = Some (Inr (v, p))
        \<or> v = Object (members @ [(key, w)]) \<and> p = skip_ws bs q + 1"
      by (rule parse_members_Inr)
    then have "skip_ws bs pos < c" "skip_ws bs (skip_ws bs c + 1) < q" "skip_ws bs q < p"
      by (auto dest!: Suc.IH parse_string_progress)
    with sk [of pos] sk [of c] sk [of "skip_ws bs c + 1"] sk [of q] show ?thesis
      by linarith
  qed
qed simp

text \<open>The calls an input position can still need: two per remaining byte, and one more for a loop.\<close>

definition enough :: "bytes \<Rightarrow> entry \<Rightarrow> nat \<Rightarrow> nat" where
  "enough bs entry pos = 2 * (length bs - pos) + (case entry of Value \<Rightarrow> 1 | _ \<Rightarrow> 2)"

lemma parse_array_total:
  assumes "call (Items []) (skip_ws bs (pos + 1)) (depth + 1) \<noteq> None"
  shows "parse_array call bs pos depth \<noteq> None"
  using assms by (simp add: parse_array_def Let_def)

lemma parse_object_total:
  assumes "call (Members []) (skip_ws bs (pos + 1)) (depth + 1) \<noteq> None"
  shows "parse_object call bs pos depth \<noteq> None"
  using assms by (simp add: parse_object_def Let_def)

lemma run_parser_total: "enough bs entry pos \<le> f \<Longrightarrow> run_parser f bs entry pos depth \<noteq> None"
proof (induction f arbitrary: entry pos depth)
  case 0
  then show ?case by (simp add: enough_def split: entry.splits)
next
  case (Suc f)
  note sk = skip_ws_ge [of _ bs]
  show ?case
  proof (cases entry)
    case Value
    show ?thesis
    proof (cases "peek bs pos")
      case None
      with Value show ?thesis by (simp add: parse_value_def)
    next
      case (Some c)
      then have "pos < length bs"
        by (simp add: peek_Some)
      then have "enough bs (Items []) (skip_ws bs (pos + 1)) \<le> f" "enough bs (Members []) (skip_ws bs (pos + 1)) \<le> f"
        using Suc.prems sk [of "pos + 1"] by (simp_all add: enough_def Value)
      then have "parse_array (run_parser f bs) bs pos depth \<noteq> None" "parse_object (run_parser f bs) bs pos depth \<noteq> None"
        by (simp_all add: parse_array_total parse_object_total Suc.IH del: not_None_eq)
      with Value Some show ?thesis
        by (auto simp: parse_value_def)
    qed
  next
    case (Items items)
    have "enough bs Value (skip_ws bs pos) \<le> f"
      using Suc.prems sk [of pos] by (simp add: enough_def Items)
    then have "run_parser f bs Value (skip_ws bs pos) depth \<noteq> None"
      by (rule Suc.IH)
    moreover have "run_parser f bs (Items (items @ [w])) (skip_ws bs q + 1) depth \<noteq> None"
      if "run_parser f bs Value (skip_ws bs pos) depth = Some (Inr (w, q))" "peek bs (skip_ws bs q) = Some 0x2C" for w q
    proof (rule Suc.IH)
      have "pos < q" "skip_ws bs q < length bs"
        using run_parser_progress [OF that(1)] sk [of pos] that(2) by (simp_all add: peek_Some)
      then show "enough bs (Items (items @ [w])) (skip_ws bs q + 1) \<le> f"
        using Suc.prems sk [of q] by (simp add: enough_def Items)
    qed
    ultimately show ?thesis
      using Items by (auto simp: parse_items_def Let_def split: sum.splits prod.splits)
  next
    case (Members members)
    have "run_parser f bs Value (skip_ws bs (skip_ws bs c + 1)) depth \<noteq> None"
      if "parse_string bs (skip_ws bs pos) = Inr (key, c)" for key c
    proof (rule Suc.IH)
      show "enough bs Value (skip_ws bs (skip_ws bs c + 1)) \<le> f"
        using Suc.prems parse_string_progress [OF that] sk [of pos] sk [of c] sk [of "skip_ws bs c + 1"]
        by (simp add: enough_def Members)
    qed
    moreover have "run_parser f bs (Members (members @ [(key, w)])) (skip_ws bs q + 1) depth \<noteq> None"
      if "parse_string bs (skip_ws bs pos) = Inr (key, c)"
        and "run_parser f bs Value (skip_ws bs (skip_ws bs c + 1)) depth = Some (Inr (w, q))"
        and "peek bs (skip_ws bs q) = Some 0x2C" for key c w q
    proof (rule Suc.IH)
      have "pos < q" "skip_ws bs q < length bs"
        using parse_string_progress [OF that(1)] run_parser_progress [OF that(2)] sk [of pos] sk [of c]
          sk [of "skip_ws bs c + 1"] that(3) by (simp_all add: peek_Some)
      then show "enough bs (Members (members @ [(key, w)])) (skip_ws bs q + 1) \<le> f"
        using Suc.prems sk [of q] by (simp add: enough_def Members)
    qed
    ultimately show ?thesis
      using Members by (fastforce simp: parse_members_def Let_def split: sum.splits prod.splits option.splits)
  qed
qed

text \<open>C31: The JSON parser returns on every input: with two units of fuel for each byte it never runs
  out, whatever the bytes.\<close>

theorem parse_total: "parse bs \<noteq> None"
proof -
  have "run_parser (parse_fuel bs) bs Value (skip_ws bs start) 0 \<noteq> None" for start
    by (rule run_parser_total) (simp add: enough_def parse_fuel_def)
  then obtain r where "run_parser (parse_fuel bs) bs Value (skip_ws bs (if take 3 bs = BOM then 3 else 0)) 0 = Some r"
    by blast
  then show ?thesis
    unfolding parse_def Let_def by (cases r) (simp_all split: prod.splits)
qed

section \<open>Well-formed values\<close>

definition str_ok :: "rstr \<Rightarrow> bool" where
  "str_ok s \<longleftrightarrow> utf8_valid s \<and> 0 \<notin> set s"

fun strings_ok :: "jvalue \<Rightarrow> bool" where
  "strings_ok (String s) = str_ok s"
| "strings_ok (Array items) = (\<forall>v\<in>set items. strings_ok v)"
| "strings_ok (Object members) = (\<forall>kv\<in>set members. str_ok (fst kv) \<and> strings_ok (snd kv))"
| "strings_ok Null = True"
| "strings_ok (Bool b) = True"
| "strings_ok (Number n) = True"

text \<open>The nesting of containers.\<close>

fun nesting :: "jvalue \<Rightarrow> nat" where
  "nesting (Array items) = Suc (foldr (\<lambda>v. max (nesting v)) items 0)"
| "nesting (Object members) = Suc (foldr (\<lambda>kv. max (nesting (snd kv))) members 0)"
| "nesting Null = 0"
| "nesting (Bool b) = 0"
| "nesting (Number n) = 0"
| "nesting (String s) = 0"

lemma foldr_max_le: "foldr (\<lambda>x. max (f x)) xs 0 \<le> (k::nat) \<longleftrightarrow> (\<forall>x\<in>set xs. f x \<le> k)"
  by (induction xs) auto

lemma nesting_Array: "nesting (Array items) \<le> Suc k \<longleftrightarrow> (\<forall>v\<in>set items. nesting v \<le> k)"
  by (simp add: foldr_max_le)

lemma nesting_Object: "nesting (Object members) \<le> Suc k \<longleftrightarrow> (\<forall>kv\<in>set members. nesting (snd kv) \<le> k)"
  by (simp add: foldr_max_le)

lemma map_sum_Inr: "map_sum id g r = Inr y \<longleftrightarrow> (\<exists>x. r = Inr x \<and> y = g x)"
  by (cases r) auto

lemma utf8_valid_ascii_Cons: "unat b < 128 \<Longrightarrow> utf8_valid (b # bs) = utf8_valid bs"
  by simp

lemma decode_literal_valid: "decode_literal xs = Inr out \<Longrightarrow> utf8_valid out"
proof (induction xs arbitrary: out rule: decode_literal.induct)
  case (2 c cs)
  show ?case
  proof (cases "c = 0x5C")
    case False
    with "2.prems" obtain out' where "decode_literal (dropWhile (\<lambda>b. b \<noteq> 0x5C) (c # cs)) = Inr out'"
      and "utf8_valid (takeWhile (\<lambda>b. b \<noteq> 0x5C) (c # cs))" "out = takeWhile (\<lambda>b. b \<noteq> 0x5C) (c # cs) @ out'"
      unfolding decode_literal.simps(2) Let_def by (auto simp only: if_False if_True map_sum_Inr not_not split: if_splits)
    with "2.IH"(1) [OF False refl] show ?thesis
      by (simp add: utf8_valid_append)
  next
    case True
    show ?thesis
    proof (cases cs)
      case Nil
      with True "2.prems" show ?thesis by (simp add: decode_literal.simps)
    next
      case (Cons esc rest)
      show ?thesis
      proof (cases "esc = 0x75")
        case False
        with True Cons "2.prems" obtain b out' where "unat b < 128" "decode_literal rest = Inr out'" "out = b # out'"
          by (auto simp: decode_literal.simps(2) map_sum_Inr split: if_splits)
        moreover have "utf8_valid out'"
          using "2.IH"(2-7) True Cons False "2.prems" \<open>decode_literal rest = Inr out'\<close>
          by (auto simp: decode_literal.simps(2) split: if_splits)
        ultimately show ?thesis
          by simp
      next
        case u: True
        with True Cons "2.prems" obtain cp n out' where esc: "unicode_escape rest = Inr (cp, n)" "is_scalar cp"
          "decode_literal (drop n rest) = Inr out'" "out = utf8_encode cp @ out'"
          by (auto simp: decode_literal.simps(2) map_sum_Inr split: sum.splits if_splits)
        then have "utf8_valid out'"
          using "2.IH"(8) True Cons u by simp
        with esc show ?thesis
          by (simp add: utf8_valid_append utf8_valid_encode)
      qed
    qed
  qed
qed simp

lemma parse_string_ok: "parse_string bs pos = Inr (s, p) \<Longrightarrow> str_ok s"
  by (auto simp: parse_string_def str_ok_def utf8_valid_prefix_byte dest: decode_literal_valid set_takeWhileD
      split: if_splits sum.splits)

definition entry_ok :: "entry \<Rightarrow> nat \<Rightarrow> bool" where
  "entry_ok entry k = (case entry of
      Value \<Rightarrow> True
    | Items items \<Rightarrow> \<forall>v\<in>set items. strings_ok v \<and> nesting v \<le> k
    | Members members \<Rightarrow> \<forall>kv\<in>set members. str_ok (fst kv) \<and> strings_ok (snd kv) \<and> nesting (snd kv) \<le> k)"

definition entry_nesting :: "entry \<Rightarrow> nat \<Rightarrow> nat" where
  "entry_nesting entry k = (case entry of Value \<Rightarrow> k | _ \<Rightarrow> Suc k)"

lemma run_parser_ok:
  "run_parser f bs entry pos depth = Some (Inr (v, p)) \<Longrightarrow> depth \<le> NESTING_LIMIT
    \<Longrightarrow> entry_ok entry (NESTING_LIMIT - depth)
    \<Longrightarrow> strings_ok v \<and> nesting v \<le> entry_nesting entry (NESTING_LIMIT - depth)"
proof (induction f arbitrary: entry pos depth v p)
  case (Suc f)
  show ?case
  proof (cases entry)
    case Value
    with Suc.prems have "parse_value (run_parser f bs) bs pos depth = Some (Inr (v, p))"
      by simp
    then show ?thesis
    proof (cases rule: parse_value_Inr)
      case literal
      then show ?thesis by auto
    next
      case (string s)
      then show ?thesis by (simp add: parse_string_ok)
    next
      case number
      then obtain n where "v = Number n"
        by (auto simp: parse_number_def Let_def split: if_splits option.splits)
      then show ?thesis by simp
    next
      case array
      note a = parse_array_Inr [OF array]
      then have "Suc (NESTING_LIMIT - (depth + 1)) = NESTING_LIMIT - depth"
        by linarith
      with a Suc.IH [of "Items []" _ "depth + 1" v p] show ?thesis
        by (auto simp: Value entry_ok_def entry_nesting_def)
    next
      case object
      note a = parse_object_Inr [OF object]
      then have "Suc (NESTING_LIMIT - (depth + 1)) = NESTING_LIMIT - depth"
        by linarith
      with a Suc.IH [of "Members []" _ "depth + 1" v p] show ?thesis
        by (auto simp: Value entry_ok_def entry_nesting_def)
    qed
  next
    case (Items items)
    with Suc.prems have "parse_items (run_parser f bs) bs items pos depth = Some (Inr (v, p))"
      by simp
    then obtain w q where w: "run_parser f bs Value (skip_ws bs pos) depth = Some (Inr (w, q))"
      and v: "run_parser f bs (Items (items @ [w])) (skip_ws bs q + 1) depth = Some (Inr (v, p))
        \<or> v = Array (items @ [w]) \<and> p = skip_ws bs q + 1"
      by (rule parse_items_Inr)
    have "strings_ok w \<and> nesting w \<le> NESTING_LIMIT - depth"
      using Suc.IH [OF w Suc.prems(2)] by (simp add: entry_ok_def entry_nesting_def)
    then have ok: "entry_ok (Items (items @ [w])) (NESTING_LIMIT - depth)"
      using Suc.prems(3) by (auto simp: Items entry_ok_def)
    from v show ?thesis
    proof
      assume "run_parser f bs (Items (items @ [w])) (skip_ws bs q + 1) depth = Some (Inr (v, p))"
      from Suc.IH [OF this Suc.prems(2) ok] show ?thesis
        by (simp add: Items entry_nesting_def)
    next
      assume "v = Array (items @ [w]) \<and> p = skip_ws bs q + 1"
      with ok show ?thesis
        by (simp only: Items entry_nesting_def entry.case nesting_Array strings_ok.simps) (simp add: entry_ok_def)
    qed
  next
    case (Members members)
    with Suc.prems have "parse_members (run_parser f bs) bs members pos depth = Some (Inr (v, p))"
      by simp
    then obtain key c w q where key: "parse_string bs (skip_ws bs pos) = Inr (key, c)"
      and w: "run_parser f bs Value (skip_ws bs (skip_ws bs c + 1)) depth = Some (Inr (w, q))"
      and v: "run_parser f bs (Members (members @ [(key, w)])) (skip_ws bs q + 1) depth = Some (Inr (v, p))
        \<or> v = Object (members @ [(key, w)]) \<and> p = skip_ws bs q + 1"
      by (rule parse_members_Inr)
    have "strings_ok w \<and> nesting w \<le> NESTING_LIMIT - depth"
      using Suc.IH [OF w Suc.prems(2)] by (simp add: entry_ok_def entry_nesting_def)
    then have ok: "entry_ok (Members (members @ [(key, w)])) (NESTING_LIMIT - depth)"
      using Suc.prems(3) parse_string_ok [OF key] by (auto simp: Members entry_ok_def)
    from v show ?thesis
    proof
      assume "run_parser f bs (Members (members @ [(key, w)])) (skip_ws bs q + 1) depth = Some (Inr (v, p))"
      from Suc.IH [OF this Suc.prems(2) ok] show ?thesis
        by (simp add: Members entry_nesting_def)
    next
      assume "v = Object (members @ [(key, w)]) \<and> p = skip_ws bs q + 1"
      with ok show ?thesis
        by (simp only: Members entry_nesting_def entry.case nesting_Object strings_ok.simps) (simp add: entry_ok_def)
    qed
  qed
qed simp

lemma parse_ok:
  assumes "parse bs = Some (Inr v)"
  shows "strings_ok v" and "nesting v \<le> NESTING_LIMIT"
proof -
  obtain start p where "run_parser (parse_fuel bs) bs Value start 0 = Some (Inr (v, p))"
    using assms by (auto simp: parse_def Let_def split: if_splits option.splits sum.splits)
  from run_parser_ok [OF this] show "strings_ok v" "nesting v \<le> NESTING_LIMIT"
    by (simp_all add: entry_ok_def entry_nesting_def)
qed

text \<open>C32: What the parser accepts is bounded and clean: the containers of a parsed value nest at most
  1000 deep, and every string and every key in it is well-formed UTF-8 without a NUL, also when the text
  spells the characters as escapes.\<close>

theorem parsed_value_ok:
  assumes "parse bs = Some (Inr v)"
  shows "nesting v \<le> 1000 \<and> strings_ok v"
  using parse_ok [OF assms] by (simp add: NESTING_LIMIT_def)

end
