(* ===== verification/Json_Roundtrip.thy ===== *)
theory Json_Roundtrip
  imports Json_Properties
begin

text \<open>
  Printing and parsing. The parser is followed over the suffixes of the printed text: \<open>spos bs s\<close> is the
  position at which the suffix \<open>s\<close> of the input starts.
\<close>

section \<open>Positions as suffixes\<close>

definition spos :: "bytes \<Rightarrow> bytes \<Rightarrow> nat" where
  "spos bs s = length bs - length s"

definition suf :: "bytes \<Rightarrow> bytes \<Rightarrow> bool" where
  "suf bs s \<longleftrightarrow> (\<exists>pre. bs = pre @ s)"

definition white :: "bytes \<Rightarrow> bool" where
  "white ws \<longleftrightarrow> (\<forall>b\<in>set ws. b \<le> 0x20)"

lemma suf_appendD: "suf bs (xs @ s) \<Longrightarrow> suf bs s"
  unfolding suf_def by (metis append.assoc)

lemma suf_ConsD: "suf bs (c # s) \<Longrightarrow> suf bs s"
  using suf_appendD [of bs "[c]" s] by simp

lemma drop_spos: "suf bs s \<Longrightarrow> drop (spos bs s) bs = s"
  by (auto simp: suf_def spos_def)

lemma spos_Cons: "suf bs (c # s) \<Longrightarrow> Suc (spos bs (c # s)) = spos bs s"
  by (auto simp: suf_def spos_def)

lemma spos_append: "suf bs (xs @ s) \<Longrightarrow> spos bs (xs @ s) + length xs = spos bs s"
  by (auto simp: suf_def spos_def)

lemma peek_spos [simp]: "suf bs (c # s) \<Longrightarrow> peek bs (spos bs (c # s)) = Some c"
  by (auto simp: suf_def spos_def peek_def)

lemma peek_spos_Nil [simp]: "peek bs (spos bs []) = None"
  by (simp add: spos_def peek_def)

lemma skip_ws_spos_Cons: "suf bs (c # s) \<Longrightarrow>
  skip_ws bs (spos bs (c # s)) = (if c \<le> 0x20 then skip_ws bs (spos bs s) else spos bs (c # s))"
  using peek_spos [of bs c s, unfolded peek_Some] spos_Cons [of bs c s] by (subst skip_ws.simps) auto

lemma skip_ws_white: "white ws \<Longrightarrow> suf bs (ws @ s) \<Longrightarrow> skip_ws bs (spos bs (ws @ s)) = skip_ws bs (spos bs s)"
proof (induction ws)
  case (Cons w ws)
  have "suf bs (ws @ s)" "w \<le> 0x20" "white ws"
    using Cons.prems suf_ConsD by (auto simp: white_def)
  with Cons show ?case
    using skip_ws_spos_Cons [of bs w "ws @ s"] by simp
qed simp

lemma skip_ws_idem: "skip_ws bs (skip_ws bs pos) = skip_ws bs pos"
proof (induction bs pos rule: skip_ws.induct)
  case (1 bs pos)
  show ?case
  proof (cases "pos < length bs \<and> bs ! pos \<le> 0x20")
    case True
    then have "skip_ws bs pos = skip_ws bs (pos + 1)"
      by (subst skip_ws.simps) simp
    with 1 True show ?thesis by simp
  next
    case False
    then have "skip_ws bs pos = pos"
      by (subst skip_ws.simps) auto
    then show ?thesis by simp
  qed
qed

lemma skip_ws_end: "skip_ws bs (spos bs []) = spos bs []"
  by (subst skip_ws.simps) (simp add: spos_def)

section \<open>Strings\<close>

lemma hex_digit_nibble:
  assumes "n < 16"
  shows "hex_value (HEX_DIGITS ! n) = Some n" and "HEX_DIGITS ! n \<noteq> 0x22 \<and> HEX_DIGITS ! n \<noteq> 0x5C"
    and "unat (HEX_DIGITS ! n) < 128"
proof -
  have "list_all (\<lambda>n. hex_value (HEX_DIGITS ! n) = Some n \<and> HEX_DIGITS ! n \<noteq> 0x22 \<and> HEX_DIGITS ! n \<noteq> 0x5C
      \<and> unat (HEX_DIGITS ! n) < 128) [0..<16]"
    by code_simp
  with assms show "hex_value (HEX_DIGITS ! n) = Some n" "HEX_DIGITS ! n \<noteq> 0x22 \<and> HEX_DIGITS ! n \<noteq> 0x5C"
    "unat (HEX_DIGITS ! n) < 128"
    by (simp_all add: list_all_iff)
qed

lemma control_byte: "c < 0x20 \<Longrightarrow> unat (c :: byte) div 16 < 16 \<and> unat c mod 16 < 16 \<and> unat c < 32"
  by (simp add: word_less_nat_alt)

text \<open>The forms an escaped byte takes.\<close>

lemma escape_byte_cases:
  obtains (plain) "c \<noteq> 0x22" "c \<noteq> 0x5C" "\<not> c < 0x20" "escape_byte c = [c]"
  | (quoted) "c = 0x22 \<or> c = 0x5C" "escape_byte c = [0x5C, c]"
  | (unicode) "c < 0x20" "escape_byte c
      = [0x5C, 0x75, 0x30, 0x30, HEX_DIGITS ! (unat c div 16), HEX_DIGITS ! (unat c mod 16)]"
  by (cases "c = 0x22"; cases "c = 0x5C"; cases "c < 0x20") (auto simp: escape_byte_def)

lemma find_quote_step:
  assumes "suf bs (c # s)"
  shows "c = 0x22 \<Longrightarrow> find_quote bs (spos bs (c # s)) = Inr (spos bs (c # s))"
    and "c \<noteq> 0x22 \<Longrightarrow> c \<noteq> 0x5C \<Longrightarrow> find_quote bs (spos bs (c # s)) = find_quote bs (spos bs s)"
    and "c = 0x5C \<Longrightarrow> s = d # t \<Longrightarrow> find_quote bs (spos bs (c # s)) = find_quote bs (spos bs t)"
proof -
  note p = peek_spos [OF assms, unfolded peek_Some] spos_Cons [OF assms]
  show "find_quote bs (spos bs (c # s)) = Inr (spos bs (c # s))" if "c = 0x22"
    using p that by (subst find_quote.simps) simp
  show "find_quote bs (spos bs (c # s)) = find_quote bs (spos bs s)" if "c \<noteq> 0x22" "c \<noteq> 0x5C"
    using p that by (subst find_quote.simps) simp
  show "find_quote bs (spos bs (c # s)) = find_quote bs (spos bs t)" if "c = 0x5C" "s = d # t"
  proof -
    have "suf bs (d # t)"
      using suf_ConsD assms that by blast
    with p that spos_Cons [of bs d t] peek_spos [of bs d t, unfolded peek_Some] show ?thesis
      by (subst find_quote.simps) auto
  qed
qed

lemma find_quote_escaped:
  "suf bs (concat (map escape_byte s) @ 0x22 # r) \<Longrightarrow>
    find_quote bs (spos bs (concat (map escape_byte s) @ 0x22 # r)) = Inr (spos bs (0x22 # r))"
proof (induction s)
  case Nil
  then show ?case by (simp add: find_quote_step)
next
  case (Cons c s)
  let ?t = "concat (map escape_byte s) @ 0x22 # r"
  have "suf bs (escape_byte c @ ?t)"
    using Cons.prems by simp
  moreover from this have "suf bs ?t"
    by (rule suf_appendD)
  moreover have "find_quote bs (spos bs (escape_byte c @ ?t)) = find_quote bs (spos bs ?t)"
  proof (cases c rule: escape_byte_cases)
    case plain
    with calculation(1) show ?thesis by (simp add: find_quote_step)
  next
    case quoted
    with calculation(1) show ?thesis by (auto simp: find_quote_step)
  next
    case unicode
    define h where "h = HEX_DIGITS ! (unat c div 16)"
    define l where "l = HEX_DIGITS ! (unat c mod 16)"
    have hl: "h \<noteq> 0x22" "h \<noteq> 0x5C" "l \<noteq> 0x22" "l \<noteq> 0x5C"
      using hex_digit_nibble(2) control_byte [OF unicode(1)] by (simp_all add: h_def l_def)
    have "suf bs (0x5C # 0x75 # 0x30 # 0x30 # h # l # ?t)"
      using calculation(1) unicode by (simp add: h_def l_def)
    moreover from this have "suf bs (0x30 # 0x30 # h # l # ?t)" "suf bs (0x30 # h # l # ?t)" "suf bs (h # l # ?t)" "suf bs (l # ?t)"
      by (metis suf_ConsD)+
    ultimately show ?thesis
      using hl unicode(2) by (simp add: find_quote_step h_def [symmetric] l_def [symmetric])
  qed
  ultimately show ?case
    using Cons.IH by simp
qed

lemma utf8_valid_escape: "utf8_valid s \<Longrightarrow> utf8_valid (concat (map escape_byte s))"
proof (induction s rule: utf8_induct)
  case Nil
  then show ?case by simp
next
  case (char ch r)
  have "utf8_valid (concat (map escape_byte ch))"
  proof (cases "length ch = 1")
    case True
    then obtain c where c: "ch = [c]"
      by (auto simp: length_Suc_conv)
    show ?thesis
    proof (cases c rule: escape_byte_cases)
      case unicode
      then show ?thesis
        using control_byte [OF unicode(1)] hex_digit_nibble(3) c
        by (intro utf8_valid_ascii) auto
    qed (use char.hyps c in \<open>auto simp: utf8_char_def\<close>)
  next
    case False
    have "escape_byte c = [c]" if "c \<in> set ch" for c
      using utf8_char_high [OF char.hyps(1) False that]
      by (cases c rule: escape_byte_cases) (auto simp: word_less_nat_alt)
    then have "concat (map escape_byte ch) = ch"
      by (induction ch) auto
    with char.hyps utf8_valid_char [of ch "[]"] show ?thesis
      by simp
  qed
  with char.IH show ?case
    by (simp add: utf8_valid_append)
qed

lemma unicode_escape_control:
  assumes "n < 32"
  shows "unicode_escape (0x30 # 0x30 # HEX_DIGITS ! (n div 16) # HEX_DIGITS ! (n mod 16) # t) = Inr (n, 4)"
proof -
  have "hex_value 0x30 = Some 0"
    by code_simp
  moreover have "n div 16 < 16" "n mod 16 < 16" "n div 16 * 16 + n mod 16 = n"
    using assms by simp_all
  ultimately have "hex_digits_value 0 [0x30, 0x30, HEX_DIGITS ! (n div 16), HEX_DIGITS ! (n mod 16)] = Some n"
    by (simp add: hex_digit_nibble(1))
  with assms show ?thesis
    by (simp add: unicode_escape_def)
qed

lemma utf8_encode_control: "c < 0x20 \<Longrightarrow> utf8_encode (unat c) = [c]"
  using control_byte [of c] by (simp add: utf8_encode_def)

lemma decode_escape:
  "decode_literal (escape_byte c @ t) = map_sum id (\<lambda>out. c # out) (decode_literal t)"
  if "c = 0x22 \<or> c = 0x5C \<or> c < 0x20"
proof (cases c rule: escape_byte_cases)
  case plain
  with that show ?thesis by simp
next
  case quoted
  then show ?thesis
    by (auto simp: decode_literal.simps(2))
next
  case unicode
  have "(@) [c] = (#) c"
    by (rule ext) simp
  moreover have "is_scalar (unat c)"
    using control_byte [OF unicode(1)] by (simp add: is_scalar_def)
  ultimately show ?thesis
    using control_byte [OF unicode(1)] utf8_encode_control [OF unicode(1)] unicode_escape_control
    by (simp add: unicode(2) decode_literal.simps(2))
qed

lemma decode_run:
  assumes "xs \<noteq> []" and "0x5C \<notin> set xs" and "utf8_valid xs" and "t = [] \<or> hd t = 0x5C"
  shows "decode_literal (xs @ t) = map_sum id (\<lambda>out. xs @ out) (decode_literal t)"
proof -
  obtain c cs where xs: "xs = c # cs"
    using assms(1) by (cases xs) auto
  have tw: "takeWhile (\<lambda>b. b \<noteq> 0x5C) (c # cs @ t) = c # cs" "dropWhile (\<lambda>b. b \<noteq> 0x5C) (c # cs @ t) = t"
    using assms(2,4) by (auto simp: xs takeWhile_append dropWhile_append) (cases t; auto)+
  have "c \<noteq> 0x5C"
    using assms(2) by (auto simp: xs)
  then show ?thesis
    using assms(3) unfolding xs append_Cons decode_literal.simps(2) Let_def tw by (simp only: if_True simp_thms if_False)
qed

lemma decode_escaped: "utf8_valid s \<Longrightarrow> decode_literal (concat (map escape_byte s)) = Inr s"
proof (induction s rule: length_induct)
  case (1 s)
  let ?P = "\<lambda>c. c \<noteq> 0x22 \<and> c \<noteq> 0x5C \<and> \<not> c < 0x20"
  define xs where "xs = takeWhile ?P s"
  define t where "t = dropWhile ?P s"
  have s: "s = xs @ t"
    by (simp add: xs_def t_def)
  have plain: "\<forall>c\<in>set xs. ?P c"
    by (auto simp: xs_def dest: set_takeWhileD)
  then have "concat (map escape_byte xs) = xs"
    by (induction xs) (auto simp: escape_byte_def)
  then have e: "concat (map escape_byte s) = xs @ concat (map escape_byte t)"
    by (simp add: s)
  show ?case
  proof (cases t)
    case Nil
    with 1 s e plain show ?thesis
      using decode_run [of xs "[]"] by (cases "xs = []") auto
  next
    case (Cons c t')
    then have c: "c = 0x22 \<or> c = 0x5C \<or> c < 0x20"
      by (metis (mono_tags, lifting) dropWhile_eq_Cons_conv t_def)
    then have "unat c < 128"
      by (auto simp: word_less_nat_alt)
    with "1.prems" have v: "utf8_valid xs" "utf8_valid t'"
      unfolding s Cons using utf8_valid_split by blast+
    have "decode_literal (concat (map escape_byte t')) = Inr t'"
      using "1.IH" v(2) s Cons by simp
    then have d: "decode_literal (concat (map escape_byte t)) = Inr t"
      using decode_escape [OF c] Cons by simp
    have "concat (map escape_byte t) \<noteq> [] \<and> hd (concat (map escape_byte t)) = 0x5C"
      using c Cons by (auto simp: escape_byte_def)
    then show ?thesis
      using e d s plain v(1) decode_run [of xs "concat (map escape_byte t)"] by (cases "xs = []") auto
  qed
qed

lemma slice_spos: "suf bs (xs @ s) \<Longrightarrow> slice bs (spos bs (xs @ s)) (spos bs s) = xs"
  by (auto simp: suf_def spos_def slice_def)

lemma parse_printed_string:
  assumes "str_ok s" and "suf bs (print_string s @ r)"
  shows "parse_string bs (spos bs (print_string s @ r)) = Inr (s, spos bs r)"
proof -
  let ?e = "concat (map escape_byte s)"
  have bs: "suf bs (0x22 # ?e @ 0x22 # r)"
    using assms(2) by (simp add: print_string_def)
  then have e: "suf bs (?e @ 0x22 # r)" "suf bs (0x22 # r)"
    using suf_ConsD suf_appendD by blast+
  have close: "find_quote bs (Suc (spos bs (0x22 # ?e @ 0x22 # r))) = Inr (spos bs (0x22 # r))"
    unfolding spos_Cons [OF bs] by (rule find_quote_escaped [OF e(1)])
  have lt: "slice bs (Suc (spos bs (0x22 # ?e @ 0x22 # r))) (spos bs (0x22 # r)) = ?e"
    unfolding spos_Cons [OF bs] by (rule slice_spos [OF e(1)])
  have "takeWhile (\<lambda>b. b \<noteq> 0) s = s"
    using assms(1) unfolding takeWhile_eq_all_conv str_ok_def by blast
  moreover have "decode_literal ?e = Inr s"
    using assms(1) decode_escaped by (simp add: str_ok_def)
  moreover have "spos bs (0x22 # r) < length bs"
    using peek_spos [OF e(2)] by (simp add: peek_Some)
  ultimately show ?thesis
    using peek_spos [OF bs] close lt spos_Cons [OF e(2)]
    by (simp add: parse_string_def print_string_def)
qed

section \<open>Values\<close>

text \<open>A number survives the number format: what is printed is a number token of at most 63 bytes that the
  scan takes whole and that parses to the same double. Integers of at most 53 bits do.\<close>

definition number_stable :: "f64 \<Rightarrow> bool" where
  "number_stable n \<longleftrightarrow>
     (let t = format_json_number n
      in t \<noteq> [] \<and> (hd t = 0x2D \<or> is_ascii_digit (hd t)) \<and> list_all is_number_byte t \<and> length t \<le> 63
         \<and> strtod_scan t = length t \<and> parse_f64 t = Some n)"

fun numbers_stable :: "jvalue \<Rightarrow> bool" where
  "numbers_stable (Number n) = number_stable n"
| "numbers_stable (Array items) = (\<forall>v\<in>set items. numbers_stable v)"
| "numbers_stable (Object members) = (\<forall>kv\<in>set members. numbers_stable (snd kv))"
| "numbers_stable Null = True"
| "numbers_stable (Bool b) = True"
| "numbers_stable (String s) = True"

definition follows :: "bytes \<Rightarrow> bool" where
  "follows r \<longleftrightarrow> r = [] \<or> \<not> is_number_byte (hd r)"

lemma print_head:
  assumes "numbers_stable v"
  obtains c cs where "print_value ind v = c # cs" and "0x20 < c" and "c < 0x80" and "c \<noteq> 0x5D" and "c \<noteq> 0x7D"
proof (cases v)
  case (Number n)
  then obtain c cs where "format_json_number n = c # cs" "c = 0x2D \<or> is_ascii_digit c"
    using assms by (cases "format_json_number n") (auto simp: number_stable_def Let_def)
  then have "print_value ind v = c # cs" "0x20 < c" "c < 0x80" "c \<noteq> 0x5D" "c \<noteq> 0x7D"
    using Number by (auto simp: is_ascii_digit_def word_less_nat_alt word_le_nat_alt)
  then show ?thesis by (rule that)
next
  case (Bool b)
  then show ?thesis by (cases b) (auto intro: that simp: lit_def)
next
  case (Array items)
  then show ?thesis by (cases "items = []") (auto intro: that simp: lit_def)
next
  case (Object members)
  then show ?thesis by (cases "members = []") (auto intro: that simp: lit_def)
qed (auto intro: that simp: lit_def print_string_def)

lemma parse_printed_number:
  assumes "number_stable n" and "follows r" and "suf bs (format_json_number n @ r)"
  shows "parse_number bs (spos bs (format_json_number n @ r)) = Inr (Number n, spos bs r)"
proof -
  let ?t = "format_json_number n"
  have t: "\<forall>b\<in>set ?t. is_number_byte b" "length ?t \<le> 63" "strtod_scan ?t = length ?t" "?t \<noteq> []" "parse_f64 ?t = Some n"
    using assms(1) by (auto simp: number_stable_def Let_def list_all_iff)
  have "takeWhile is_number_byte (take 63 (?t @ r)) = ?t @ takeWhile is_number_byte (take (63 - length ?t) r)"
    using t(1,2) by simp
  also have "takeWhile is_number_byte (take (63 - length ?t) r) = []"
    using assms(2) by (cases r; cases "63 - length ?t") (auto simp: follows_def)
  finally have "takeWhile is_number_byte (take 63 (drop (spos bs (?t @ r)) bs)) = ?t"
    by (simp add: drop_spos [OF assms(3)])
  with t spos_append [OF assms(3)] show ?thesis
    by (simp add: parse_number_def)
qed

lemma spos_lit: "suf bs (lit s @ r) \<Longrightarrow> spos bs (lit s @ r) + length s = spos bs r"
  using spos_append [of bs "lit s" r] by simp

lemma starts_at_spos: "suf bs (lit s @ r) \<Longrightarrow> starts_at bs (spos bs (lit s @ r)) s"
  by (simp add: starts_at_def drop_spos strip_prefix_def)

lemma run_parser_0: "run_parser f bs entry pos depth = Some res \<Longrightarrow> \<exists>g. f = Suc g"
  by (cases f) auto

lemma white_indent: "white (print_indent n)"
  by (simp add: white_def print_indent_def lit_def)

lemma nesting_bound_Array:
  "nesting (Array items) + depth \<le> L \<Longrightarrow> depth < L \<and> (\<forall>v\<in>set items. nesting v + Suc depth \<le> L)"
  using nesting_Array [of items "L - Suc depth"] by auto

lemma nesting_bound_Object:
  "nesting (Object members) + depth \<le> L \<Longrightarrow> depth < L \<and> (\<forall>kv\<in>set members. nesting (snd kv) + Suc depth \<le> L)"
  using nesting_Object [of members "L - Suc depth"] by auto

text \<open>What the parser does on a printed value, a printed list of items and a printed list of members,
  when its fuel does not run out.\<close>

definition value_parses :: "bytes \<Rightarrow> nat \<Rightarrow> jvalue \<Rightarrow> bool" where
  "value_parses bs ind v \<longleftrightarrow> (\<forall>f depth r res.
     strings_ok v \<longrightarrow> numbers_stable v \<longrightarrow> nesting v + depth \<le> NESTING_LIMIT \<longrightarrow> follows r
     \<longrightarrow> suf bs (print_value ind v @ r)
     \<longrightarrow> run_parser f bs Value (spos bs (print_value ind v @ r)) depth = Some res
     \<longrightarrow> res = Inr (v, spos bs r))"

definition items_parse :: "bytes \<Rightarrow> nat \<Rightarrow> jvalue list \<Rightarrow> bool" where
  "items_parse bs ind vs \<longleftrightarrow> (\<forall>f depth acc ws r p res. vs \<noteq> []
     \<longrightarrow> (\<forall>v\<in>set vs. strings_ok v \<and> numbers_stable v \<and> nesting v + depth \<le> NESTING_LIMIT) \<longrightarrow> white ws
     \<longrightarrow> suf bs (print_items ind vs @ ws @ 0x5D # r)
     \<longrightarrow> skip_ws bs p = skip_ws bs (spos bs (print_items ind vs @ ws @ 0x5D # r))
     \<longrightarrow> run_parser f bs (Items acc) p depth = Some res
     \<longrightarrow> res = Inr (Array (acc @ vs), spos bs r))"

definition members_parse :: "bytes \<Rightarrow> nat \<Rightarrow> (rstr \<times> jvalue) list \<Rightarrow> bool" where
  "members_parse bs ind kvs \<longleftrightarrow> (\<forall>f depth acc ws r p res. kvs \<noteq> []
     \<longrightarrow> (\<forall>kv\<in>set kvs. str_ok (fst kv) \<and> strings_ok (snd kv) \<and> numbers_stable (snd kv)
            \<and> nesting (snd kv) + depth \<le> NESTING_LIMIT) \<longrightarrow> white ws
     \<longrightarrow> suf bs (print_members ind kvs @ ws @ 0x7D # r)
     \<longrightarrow> skip_ws bs p = skip_ws bs (spos bs (print_members ind kvs @ ws @ 0x7D # r))
     \<longrightarrow> run_parser f bs (Members acc) p depth = Some res
     \<longrightarrow> res = Inr (Object (acc @ kvs), spos bs r))"

lemma value_parsesD:
  "value_parses bs ind v \<Longrightarrow> strings_ok v \<Longrightarrow> numbers_stable v \<Longrightarrow> nesting v + depth \<le> NESTING_LIMIT \<Longrightarrow> follows r
    \<Longrightarrow> suf bs (print_value ind v @ r)
    \<Longrightarrow> run_parser f bs Value (spos bs (print_value ind v @ r)) depth = Some res
    \<Longrightarrow> res = Inr (v, spos bs r)"
  unfolding value_parses_def by blast

lemma items_parseD:
  "items_parse bs ind vs \<Longrightarrow> vs \<noteq> []
    \<Longrightarrow> \<forall>v\<in>set vs. strings_ok v \<and> numbers_stable v \<and> nesting v + depth \<le> NESTING_LIMIT \<Longrightarrow> white ws
    \<Longrightarrow> suf bs (print_items ind vs @ ws @ 0x5D # r)
    \<Longrightarrow> skip_ws bs p = skip_ws bs (spos bs (print_items ind vs @ ws @ 0x5D # r))
    \<Longrightarrow> run_parser f bs (Items acc) p depth = Some res
    \<Longrightarrow> res = Inr (Array (acc @ vs), spos bs r)"
  unfolding items_parse_def by blast

lemma members_parseD:
  "members_parse bs ind kvs \<Longrightarrow> kvs \<noteq> []
    \<Longrightarrow> \<forall>kv\<in>set kvs. str_ok (fst kv) \<and> strings_ok (snd kv) \<and> numbers_stable (snd kv)
          \<and> nesting (snd kv) + depth \<le> NESTING_LIMIT \<Longrightarrow> white ws
    \<Longrightarrow> suf bs (print_members ind kvs @ ws @ 0x7D # r)
    \<Longrightarrow> skip_ws bs p = skip_ws bs (spos bs (print_members ind kvs @ ws @ 0x7D # r))
    \<Longrightarrow> run_parser f bs (Members acc) p depth = Some res
    \<Longrightarrow> res = Inr (Object (acc @ kvs), spos bs r)"
  unfolding members_parse_def by blast

lemma value_parses_scalar:
  assumes "case v of Array _ \<Rightarrow> False | Object _ \<Rightarrow> False | _ \<Rightarrow> True"
  shows "value_parses bs ind v"
  unfolding value_parses_def
proof (intro allI impI)
  fix f depth r res
  assume ok: "strings_ok v" "numbers_stable v" "follows r" and bs: "suf bs (print_value ind v @ r)"
    and run: "run_parser f bs Value (spos bs (print_value ind v @ r)) depth = Some res"
  from run obtain g where "f = Suc g"
    by (blast dest: run_parser_0)
  with run have pv: "parse_value (run_parser g bs) bs (spos bs (print_value ind v @ r)) depth = Some res"
    by simp
  show "res = Inr (v, spos bs r)"
  proof (cases v)
    case Null
    with bs have n: "suf bs (lit ''null'' @ r)" by simp
    moreover have "spos bs (lit ''null'' @ r) + 4 = spos bs r"
      using spos_lit [OF n] by simp
    moreover from n have "peek bs (spos bs (lit ''null'' @ r)) = Some 0x6E"
      by (simp add: lit_def)
    ultimately show ?thesis
      using pv Null starts_at_spos by (simp add: parse_value_def)
  next
    case (Bool b)
    show ?thesis
    proof (cases b)
      case True
      with bs Bool have n: "suf bs (lit ''true'' @ r)" by simp
      moreover have "spos bs (lit ''true'' @ r) + 4 = spos bs r"
        using spos_lit [OF n] by simp
      moreover from n have "peek bs (spos bs (lit ''true'' @ r)) = Some 0x74"
        by (simp add: lit_def)
      ultimately show ?thesis
        using pv Bool True starts_at_spos by (simp add: parse_value_def)
    next
      case False
      with bs Bool have n: "suf bs (lit ''false'' @ r)" by simp
      moreover have "spos bs (lit ''false'' @ r) + 5 = spos bs r"
        using spos_lit [OF n] by simp
      moreover from n have "peek bs (spos bs (lit ''false'' @ r)) = Some 0x66"
        by (simp add: lit_def)
      ultimately show ?thesis
        using pv Bool False starts_at_spos by (simp add: parse_value_def)
    qed
  next
    case (Number n)
    with ok obtain c cs where c: "format_json_number n = c # cs" "c = 0x2D \<or> is_ascii_digit c"
      by (cases "format_json_number n") (auto simp: number_stable_def Let_def)
    then have "c \<noteq> 0x6E" "c \<noteq> 0x66" "c \<noteq> 0x74" "c \<noteq> 0x22"
      by (auto simp: is_ascii_digit_def word_le_nat_alt)
    moreover have "peek bs (spos bs (format_json_number n @ r)) = Some c"
      using bs Number c by simp
    ultimately show ?thesis
      using pv Number ok bs c(2) parse_printed_number [of n r bs] by (simp add: parse_value_def)
  next
    case (String s)
    then have "peek bs (spos bs (print_string s @ r)) = Some 0x22"
      using bs by (simp add: print_string_def)
    with pv String ok bs parse_printed_string [of s bs r] show ?thesis
      by (simp add: parse_value_def)
  qed (use assms in auto)
qed

lemma skip_ws_head: "suf bs (c # s) \<Longrightarrow> 0x20 < c \<Longrightarrow> skip_ws bs (spos bs (c # s)) = spos bs (c # s)"
  by (simp add: skip_ws_spos_Cons not_le [symmetric])

lemma skip_ws_value:
  assumes "numbers_stable v" and "suf bs (ws @ print_value ind v @ s)" and "white ws"
  shows "skip_ws bs (spos bs (ws @ print_value ind v @ s)) = spos bs (print_value ind v @ s)"
proof -
  obtain c cs where "print_value ind v = c # cs" "0x20 < c"
    by (rule print_head [OF assms(1)])
  with skip_ws_white [OF assms(3,2)] suf_appendD [OF assms(2)] show ?thesis
    by (simp add: skip_ws_head)
qed

lemma white_LF: "white [LF]" "white (LF # ws) = white ws" "white [0x20]" "white []"
  by (simp_all add: white_def LF_def)

lemma follows_sep: "follows (0x2C # s)" "follows (LF # s)"
  by (simp_all add: follows_def is_number_byte_def is_ascii_digit_def LF_def)

lemma items_parse_Cons:
  assumes v: "value_parses bs ind v" and vs: "vs \<noteq> [] \<Longrightarrow> items_parse bs ind vs"
  shows "items_parse bs ind (v # vs)"
  unfolding items_parse_def
proof (intro allI impI)
  fix f depth acc ws r p res
  assume ok: "\<forall>x\<in>set (v # vs). strings_ok x \<and> numbers_stable x \<and> nesting x + depth \<le> NESTING_LIMIT"
    and ws: "white ws" and bs: "suf bs (print_items ind (v # vs) @ ws @ 0x5D # r)"
    and p: "skip_ws bs p = skip_ws bs (spos bs (print_items ind (v # vs) @ ws @ 0x5D # r))"
    and run: "run_parser f bs (Items acc) p depth = Some res"
  define t where "t = (if vs \<noteq> [] then 0x2C # LF # print_items ind vs @ ws @ 0x5D # r else LF # ws @ 0x5D # r)"
  have tx: "print_items ind (v # vs) @ ws @ 0x5D # r = print_indent ind @ print_value ind v @ t"
    by (simp add: t_def)
  have suf_v: "suf bs (print_value ind v @ t)" and suf_t: "suf bs t"
    using bs suf_appendD unfolding tx by blast+
  have p_eq: "skip_ws bs p = spos bs (print_value ind v @ t)"
    using p skip_ws_value [of v bs "print_indent ind"] bs ok white_indent unfolding tx by simp
  obtain g where f: "f = Suc g"
    using run run_parser_0 by blast
  have "follows t"
    by (simp add: t_def follows_sep)
  have call: "res' = Inr (v, spos bs t)"
    if "run_parser g bs Value (spos bs (print_value ind v @ t)) depth = Some res'" for res'
    by (rule value_parsesD [OF v _ _ _ \<open>follows t\<close> suf_v that]) (use ok in simp_all)
  have pi: "parse_items (run_parser g bs) bs acc p depth = Some res"
    using run f by simp
  then obtain res' where r': "run_parser g bs Value (spos bs (print_value ind v @ t)) depth = Some res'"
    by (cases "run_parser g bs Value (spos bs (print_value ind v @ t)) depth") (simp_all add: parse_items_def p_eq)
  note pi2 = pi [unfolded parse_items_def p_eq r' call [OF r'] option.case sum.case prod.case Let_def]
  show "res = Inr (Array (acc @ v # vs), spos bs r)"
  proof (cases "vs = []")
    case True
    then have t: "t = (LF # ws) @ 0x5D # r"
      by (simp add: t_def)
    have suf_c: "suf bs (0x5D # r)"
      using suf_t suf_appendD unfolding t by blast
    have "skip_ws bs (spos bs t) = spos bs (0x5D # r)"
      unfolding t using skip_ws_white [of "LF # ws" bs "0x5D # r"] suf_t ws suf_c
      by (simp add: t white_LF skip_ws_head)
    with pi2 suf_c True show ?thesis
      by (simp add: spos_Cons)
  next
    case False
    then have t: "t = 0x2C # LF # print_items ind vs @ ws @ 0x5D # r"
      by (simp add: t_def)
    have suf1: "suf bs (0x2C # LF # print_items ind vs @ ws @ 0x5D # r)"
      using suf_t unfolding t .
    then have suf2: "suf bs (LF # print_items ind vs @ ws @ 0x5D # r)"
      by (rule suf_ConsD)
    then have suf3: "suf bs (print_items ind vs @ ws @ 0x5D # r)"
      by (rule suf_ConsD)
    have "skip_ws bs (spos bs t) = spos bs t"
      unfolding t by (rule skip_ws_head [OF suf1]) simp
    with pi2 have "run_parser g bs (Items (acc @ [v])) (spos bs (LF # print_items ind vs @ ws @ 0x5D # r)) depth = Some res"
      using peek_spos [OF suf1] spos_Cons [OF suf1] unfolding t by simp
    moreover have "skip_ws bs (spos bs (LF # print_items ind vs @ ws @ 0x5D # r))
        = skip_ws bs (spos bs (print_items ind vs @ ws @ 0x5D # r))"
      using skip_ws_white [of "[LF]"] suf2 by (simp add: white_LF)
    ultimately show ?thesis
      using vs [OF False, unfolded items_parse_def, rule_format, OF False _ ws suf3] ok by fastforce
  qed
qed

lemma members_parse_Cons:
  assumes v: "value_parses bs ind v" and kvs: "kvs \<noteq> [] \<Longrightarrow> members_parse bs ind kvs"
  shows "members_parse bs ind ((key, v) # kvs)"
  unfolding members_parse_def
proof (intro allI impI)
  fix f depth acc ws r p res
  assume ok: "\<forall>kv\<in>set ((key, v) # kvs). str_ok (fst kv) \<and> strings_ok (snd kv) \<and> numbers_stable (snd kv)
      \<and> nesting (snd kv) + depth \<le> NESTING_LIMIT"
    and ws: "white ws" and bs: "suf bs (print_members ind ((key, v) # kvs) @ ws @ 0x7D # r)"
    and p: "skip_ws bs p = skip_ws bs (spos bs (print_members ind ((key, v) # kvs) @ ws @ 0x7D # r))"
    and run: "run_parser f bs (Members acc) p depth = Some res"
  define t where "t = (if kvs \<noteq> [] then 0x2C # LF # print_members ind kvs @ ws @ 0x7D # r else LF # ws @ 0x7D # r)"
  have tx: "print_members ind ((key, v) # kvs) @ ws @ 0x7D # r
      = print_indent ind @ print_string key @ 0x3A # [0x20] @ print_value ind v @ t"
    by (simp add: t_def)
  have suf_k: "suf bs (print_string key @ 0x3A # [0x20] @ print_value ind v @ t)"
    using bs suf_appendD unfolding tx by blast
  then have suf_c: "suf bs (0x3A # [0x20] @ print_value ind v @ t)"
    by (rule suf_appendD)
  then have suf_w: "suf bs ([0x20] @ print_value ind v @ t)"
    by (rule suf_ConsD)
  then have suf_v: "suf bs (print_value ind v @ t)" and suf_t: "suf bs t"
    using suf_appendD by blast+
  have "skip_ws bs p = skip_ws bs (spos bs (print_string key @ 0x3A # [0x20] @ print_value ind v @ t))"
    using p skip_ws_white [OF white_indent] bs unfolding tx by simp
  also have "\<dots> = spos bs (print_string key @ 0x3A # [0x20] @ print_value ind v @ t)"
    using suf_k by (simp add: print_string_def skip_ws_head)
  finally have p_eq: "skip_ws bs p = spos bs (print_string key @ 0x3A # [0x20] @ print_value ind v @ t)" .
  have key: "parse_string bs (skip_ws bs p) = Inr (key, spos bs (0x3A # [0x20] @ print_value ind v @ t))"
    unfolding p_eq using ok suf_k by (intro parse_printed_string) simp_all
  have c_eq: "skip_ws bs (spos bs (0x3A # [0x20] @ print_value ind v @ t)) = spos bs (0x3A # [0x20] @ print_value ind v @ t)"
    using suf_c by (intro skip_ws_head) simp_all
  have v_eq: "skip_ws bs (spos bs (0x3A # [0x20] @ print_value ind v @ t) + 1) = spos bs (print_value ind v @ t)"
    using spos_Cons [OF suf_c] skip_ws_value [OF _ suf_w white_LF(3)] ok by simp
  obtain g where f: "f = Suc g"
    using run run_parser_0 by blast
  have "follows t"
    by (simp add: t_def follows_sep)
  have call: "res' = Inr (v, spos bs t)"
    if "run_parser g bs Value (spos bs (print_value ind v @ t)) depth = Some res'" for res'
    by (rule value_parsesD [OF v _ _ _ \<open>follows t\<close> suf_v that]) (use ok in simp_all)
  have pm: "parse_members (run_parser g bs) bs acc p depth = Some res"
    using run f by simp
  note pm1 = pm [unfolded parse_members_def key sum.case prod.case Let_def c_eq v_eq peek_spos [OF suf_c]]
  then obtain res' where r': "run_parser g bs Value (spos bs (print_value ind v @ t)) depth = Some res'"
    by (cases "run_parser g bs Value (spos bs (print_value ind v @ t)) depth") simp_all
  note pm2 = pm1 [unfolded r' call [OF r'] option.case sum.case prod.case]
  show "res = Inr (Object (acc @ (key, v) # kvs), spos bs r)"
  proof (cases "kvs = []")
    case True
    then have t: "t = (LF # ws) @ 0x7D # r"
      by (simp add: t_def)
    have suf_e: "suf bs (0x7D # r)"
      using suf_t suf_appendD unfolding t by blast
    have "skip_ws bs (spos bs t) = spos bs (0x7D # r)"
      unfolding t using skip_ws_white [of "LF # ws" bs "0x7D # r"] suf_t ws suf_e
      by (simp add: t white_LF skip_ws_head)
    with pm2 suf_e True show ?thesis
      by (simp add: spos_Cons)
  next
    case False
    then have t: "t = 0x2C # LF # print_members ind kvs @ ws @ 0x7D # r"
      by (simp add: t_def)
    have suf1: "suf bs (0x2C # LF # print_members ind kvs @ ws @ 0x7D # r)"
      using suf_t unfolding t .
    then have suf2: "suf bs (LF # print_members ind kvs @ ws @ 0x7D # r)"
      by (rule suf_ConsD)
    then have suf3: "suf bs (print_members ind kvs @ ws @ 0x7D # r)"
      by (rule suf_ConsD)
    have "skip_ws bs (spos bs t) = spos bs t"
      unfolding t by (rule skip_ws_head [OF suf1]) simp
    with pm2 have "run_parser g bs (Members (acc @ [(key, v)])) (spos bs (LF # print_members ind kvs @ ws @ 0x7D # r)) depth = Some res"
      using peek_spos [OF suf1] spos_Cons [OF suf1] unfolding t by simp
    moreover have "skip_ws bs (spos bs (LF # print_members ind kvs @ ws @ 0x7D # r))
        = skip_ws bs (spos bs (print_members ind kvs @ ws @ 0x7D # r))"
      using skip_ws_white [of "[LF]"] suf2 by (simp add: white_LF)
    ultimately show ?thesis
      using kvs [OF False, unfolded members_parse_def, rule_format, OF False _ ws suf3] ok by fastforce
  qed
qed

lemma value_parses_Array:
  assumes "items \<noteq> [] \<Longrightarrow> items_parse bs (ind + 1) items"
  shows "value_parses bs ind (Array items)"
  unfolding value_parses_def
proof (intro allI impI)
  fix f depth r res
  assume ok: "strings_ok (Array items)" "numbers_stable (Array items)" "nesting (Array items) + depth \<le> NESTING_LIMIT"
    and bs: "suf bs (print_value ind (Array items) @ r)"
    and run: "run_parser f bs Value (spos bs (print_value ind (Array items) @ r)) depth = Some res"
  note nb = nesting_bound_Array [OF ok(3)]
  from run obtain g where "f = Suc g"
    by (blast dest: run_parser_0)
  with run have pv: "parse_value (run_parser g bs) bs (spos bs (print_value ind (Array items) @ r)) depth = Some res"
    by simp
  show "res = Inr (Array items, spos bs r)"
  proof (cases "items = []")
    case True
    have suf1: "suf bs (0x5B # 0x5D # r)"
      using bs True by (simp add: lit_def)
    then have suf2: "suf bs (0x5D # r)"
      by (rule suf_ConsD)
    have "skip_ws bs (spos bs (0x5D # r)) = spos bs (0x5D # r)"
      by (rule skip_ws_head [OF suf2]) simp
    then show ?thesis
      using pv nb True peek_spos [OF suf1] peek_spos [OF suf2] spos_Cons [OF suf1] spos_Cons [OF suf2]
      by (simp add: parse_value_def parse_array_def lit_def is_ascii_digit_def)
  next
    case False
    then obtain v vs where items: "items = v # vs"
      by (cases items) auto
    let ?t = "print_items (ind + 1) items @ print_indent ind @ 0x5D # r"
    have suf1: "suf bs (0x5B # LF # ?t)"
      using bs False by simp
    then have suf2: "suf bs (LF # ?t)"
      by (rule suf_ConsD)
    then have suf3: "suf bs ?t"
      by (rule suf_ConsD)
    obtain t' where t': "?t = print_indent (ind + 1) @ print_value (ind + 1) v @ t'"
      by (simp add: items)
    have "skip_ws bs (spos bs (LF # ?t)) = skip_ws bs (spos bs ?t)"
      using skip_ws_white [of "[LF]"] suf2 by (simp add: white_LF)
    moreover have start: "skip_ws bs (spos bs ?t) = spos bs (print_value (ind + 1) v @ t')"
      unfolding t' using suf3 ok(2) white_indent unfolding t' by (intro skip_ws_value) (simp_all add: items)
    moreover have "numbers_stable v"
      using ok(2) by (simp add: items)
    then obtain c cs where "print_value (ind + 1) v = c # cs" "c \<noteq> 0x5D"
      by (rule print_head)
    moreover have "suf bs (print_value (ind + 1) v @ t')"
      using suf3 suf_appendD unfolding t' by blast
    ultimately have run_items: "run_parser g bs (Items []) (skip_ws bs (spos bs ?t)) (depth + 1) = Some res"
      using pv nb False peek_spos [OF suf1] spos_Cons [OF suf1]
      by (simp add: parse_value_def parse_array_def Let_def is_ascii_digit_def)
    have all: "\<forall>v\<in>set items. strings_ok v \<and> numbers_stable v \<and> nesting v + (depth + 1) \<le> NESTING_LIMIT"
      using ok nb by auto
    from items_parseD [OF assms [OF False] False all white_indent suf3 skip_ws_idem run_items] show ?thesis
      by simp
  qed
qed

lemma value_parses_Object:
  assumes "members \<noteq> [] \<Longrightarrow> members_parse bs (ind + 1) members"
  shows "value_parses bs ind (Object members)"
  unfolding value_parses_def
proof (intro allI impI)
  fix f depth r res
  assume ok: "strings_ok (Object members)" "numbers_stable (Object members)" "nesting (Object members) + depth \<le> NESTING_LIMIT"
    and bs: "suf bs (print_value ind (Object members) @ r)"
    and run: "run_parser f bs Value (spos bs (print_value ind (Object members) @ r)) depth = Some res"
  note nb = nesting_bound_Object [OF ok(3)]
  from run obtain g where "f = Suc g"
    by (blast dest: run_parser_0)
  with run have pv: "parse_value (run_parser g bs) bs (spos bs (print_value ind (Object members) @ r)) depth = Some res"
    by simp
  show "res = Inr (Object members, spos bs r)"
  proof (cases "members = []")
    case True
    have suf1: "suf bs (0x7B # 0x7D # r)"
      using bs True by (simp add: lit_def)
    then have suf2: "suf bs (0x7D # r)"
      by (rule suf_ConsD)
    have "skip_ws bs (spos bs (0x7D # r)) = spos bs (0x7D # r)"
      by (rule skip_ws_head [OF suf2]) simp
    then show ?thesis
      using pv nb True peek_spos [OF suf1] peek_spos [OF suf2] spos_Cons [OF suf1] spos_Cons [OF suf2]
      by (simp add: parse_value_def parse_object_def lit_def is_ascii_digit_def)
  next
    case False
    then obtain key v kvs where members: "members = (key, v) # kvs"
      by (cases members) auto
    let ?t = "print_members (ind + 1) members @ print_indent ind @ 0x7D # r"
    have suf1: "suf bs (0x7B # LF # ?t)"
      using bs False by simp
    then have suf2: "suf bs (LF # ?t)"
      by (rule suf_ConsD)
    then have suf3: "suf bs ?t"
      by (rule suf_ConsD)
    obtain t' where t': "?t = print_indent (ind + 1) @ 0x22 # t'"
      by (simp add: members print_string_def)
    have suf4: "suf bs (0x22 # t')"
      using suf3 suf_appendD unfolding t' by blast
    have "skip_ws bs (spos bs (LF # ?t)) = skip_ws bs (spos bs ?t)"
      using skip_ws_white [of "[LF]"] suf2 by (simp add: white_LF)
    moreover have "skip_ws bs (spos bs ?t) = spos bs (0x22 # t')"
      using skip_ws_white [OF white_indent] suf3 suf4 unfolding t' by (simp add: skip_ws_head)
    ultimately have run_members: "run_parser g bs (Members []) (skip_ws bs (spos bs ?t)) (depth + 1) = Some res"
      using pv nb False peek_spos [OF suf1] spos_Cons [OF suf1] peek_spos [OF suf4]
      by (simp add: parse_value_def parse_object_def Let_def is_ascii_digit_def)
    have all: "\<forall>kv\<in>set members. str_ok (fst kv) \<and> strings_ok (snd kv) \<and> numbers_stable (snd kv)
        \<and> nesting (snd kv) + (depth + 1) \<le> NESTING_LIMIT"
      using ok nb by auto
    from members_parseD [OF assms [OF False] False all white_indent suf3 skip_ws_idem run_members] show ?thesis
      by simp
  qed
qed

lemma printed_parses:
  "value_parses bs ind v" "items \<noteq> [] \<longrightarrow> items_parse bs ind items" "kvs \<noteq> [] \<longrightarrow> members_parse bs ind kvs"
proof (induction ind v and ind items and ind kvs rule: print_value_print_items_print_members.induct)
  case (5 depth items)
  then show ?case by (intro value_parses_Array) simp
next
  case (6 depth members)
  then show ?case by (intro value_parses_Object) simp
next
  case (8 depth v vs)
  then show ?case by (auto intro: items_parse_Cons)
next
  case (10 depth key v kvs)
  then show ?case by (auto intro: members_parse_Cons)
qed (simp_all add: value_parses_scalar)

section \<open>Documents\<close>

lemma utf8_valid_number: "number_stable n \<Longrightarrow> utf8_valid (format_json_number n)"
  by (rule utf8_valid_ascii)
    (auto simp: number_stable_def Let_def list_all_iff is_number_byte_def is_ascii_digit_def word_le_nat_alt)

lemma utf8_valid_lits: "utf8_valid (print_indent n)" "utf8_valid [LF]"
  by (rule utf8_valid_ascii, auto simp: print_indent_def lit_def LF_def)+

lemma utf8_valid_string: "str_ok s \<Longrightarrow> utf8_valid (print_string s)"
  by (simp add: print_string_def str_ok_def utf8_valid_append utf8_valid_escape)

lemma utf8_valid_printed:
  "strings_ok v \<Longrightarrow> numbers_stable v \<Longrightarrow> utf8_valid (print_value ind v)"
  "\<forall>v\<in>set items. strings_ok v \<and> numbers_stable v \<Longrightarrow> utf8_valid (print_items ind items)"
  "\<forall>kv\<in>set kvs. str_ok (fst kv) \<and> strings_ok (snd kv) \<and> numbers_stable (snd kv) \<Longrightarrow> utf8_valid (print_members ind kvs)"
proof (induction ind v and ind items and ind kvs rule: print_value_print_items_print_members.induct)
  case (3 depth n)
  then show ?case by (simp add: utf8_valid_number)
next
  case (4 depth s)
  then show ?case by (simp add: utf8_valid_string)
qed (simp_all add: utf8_valid_append utf8_valid_lits utf8_valid_string lit_def LF_def)

lemma print_parse:
  assumes "strings_ok v" and "numbers_stable v" and "nesting v \<le> NESTING_LIMIT"
  shows "parse (print_canonical v) = Some (Inr v)"
proof -
  let ?bs = "print_canonical v"
  obtain c cs where c: "print_value 0 v = c # cs" "0x20 < c" "c < 0x80"
    by (rule print_head [OF assms(2)])
  have valid: "utf8_valid ?bs"
    using utf8_valid_printed(1) [OF assms(1,2)] by (simp add: print_canonical_def utf8_valid_append LF_def)
  have "take 3 ?bs \<noteq> BOM"
    using c by (auto simp: print_canonical_def BOM_def)
  have bs: "suf ?bs (print_value 0 v @ [LF])"
    unfolding suf_def print_canonical_def by simp
  then have lf: "suf ?bs ([LF] @ [])"
    using suf_appendD by auto
  have p0: "0 = spos ?bs (print_value 0 v @ [LF])"
    by (simp add: spos_def print_canonical_def)
  have "skip_ws ?bs (spos ?bs (print_value 0 v @ [LF])) = spos ?bs (print_value 0 v @ [LF])"
    using bs c skip_ws_head [of ?bs c "cs @ [LF]"] by simp
  then have start: "skip_ws ?bs 0 = 0"
    unfolding p0 [symmetric] .
  have "run_parser (parse_fuel ?bs) ?bs Value (spos ?bs (print_value 0 v @ [LF])) 0 \<noteq> None"
    by (rule run_parser_total) (simp add: enough_def parse_fuel_def)
  then obtain res where res: "run_parser (parse_fuel ?bs) ?bs Value (spos ?bs (print_value 0 v @ [LF])) 0 = Some res"
    by blast
  have "res = Inr (v, spos ?bs [LF])"
    using assms(3) follows_sep(2) by (intro value_parsesD [OF printed_parses(1) assms(1,2) _ _ bs res]) simp_all
  moreover have "skip_ws ?bs (spos ?bs [LF]) = spos ?bs []"
    using skip_ws_white [OF white_LF(1) lf] by (simp add: skip_ws_end)
  moreover have "\<not> spos ?bs [] < length ?bs"
    by (simp add: spos_def)
  ultimately show ?thesis
    using valid \<open>take 3 ?bs \<noteq> BOM\<close> start res [folded p0] unfolding parse_def Let_def by simp
qed

section \<open>Integers are stable\<close>

lemma length_show_nat: "n < 10 ^ k \<Longrightarrow> 0 < k \<Longrightarrow> length (show_nat n) \<le> k"
proof (induction k arbitrary: n)
  case (Suc k)
  show ?case
  proof (cases "n < 10")
    case True
    then show ?thesis by (simp add: show_nat.simps [of n])
  next
    case False
    then have "0 < k"
      using Suc.prems by (cases k) auto
    moreover have "n div 10 < 10 ^ k"
      using Suc.prems by (simp add: less_mult_imp_div_less mult.commute)
    ultimately have "length (show_nat (n div 10)) \<le> k"
      using Suc.IH by blast
    with False show ?thesis
      by (simp add: show_nat.simps [of n])
  qed
qed simp

lemma digit_run_digits: "all_digits ds \<Longrightarrow> digit_run ds 0 = length ds"
  by (simp add: digit_run_def all_digits_def list_all_iff takeWhile_eq_all_conv [THEN iffD2])

lemma strtod_scan_digits:
  assumes "ds \<noteq> []" and "all_digits ds"
  shows "strtod_scan ds = length ds" and "strtod_scan (0x2D # ds) = Suc (length ds)"
proof -
  obtain d r where d: "ds = d # r" "is_ascii_digit d"
    using assms by (cases ds) (auto simp: all_digits_def)
  have nosign: "peek ds 0 \<noteq> Some 0x2B" "peek ds 0 \<noteq> Some 0x2D"
    using d by (auto simp: peek_def is_ascii_digit_def)
  have last: "peek ds (length ds) = None" "peek (0x2D # ds) (Suc (length ds)) = None"
    by (simp_all add: peek_def)
  have run: "digit_run (0x2D # ds) 1 = length ds"
    using digit_run_digits [OF assms(2)] by (simp add: digit_run_def)
  show "strtod_scan ds = length ds"
    using nosign last digit_run_digits [OF assms(2)] assms(1) by (simp add: strtod_scan_def)
  have "peek (0x2D # ds) 0 = Some 0x2D"
    by (simp add: peek_def)
  then show "strtod_scan (0x2D # ds) = Suc (length ds)"
    using last run assms(1) by (simp add: strtod_scan_def)
qed

lemma small_int_stable:
  assumes "small_int i"
  shows "number_stable (f64_of_int i)"
proof -
  let ?ds = "show_nat (nat \<bar>i\<bar>)"
  note ds = show_nat_digits [of "nat \<bar>i\<bar>"]
  have "nat \<bar>i\<bar> < 10 ^ 16"
    using assms by (simp add: small_int_def nat_less_iff)
  then have len: "length ?ds \<le> 16"
    by (rule length_show_nat) simp
  have nb: "list_all is_number_byte ?ds"
    using ds by (auto simp: all_digits_def list_all_iff is_number_byte_def)
  have hd: "is_ascii_digit (hd ?ds)"
    using ds by (cases ?ds) (auto simp: all_digits_def)
  have "format_json_number (f64_of_int i) = show_int i" "parse_f64 (show_int i) = Some (f64_of_int i)"
    using format_small_int [OF assms] parse_show_int by blast+
  moreover have "show_int i = ?ds \<or> show_int i = 0x2D # ?ds"
    by (auto simp: show_int_def)
  moreover have "is_number_byte 0x2D"
    by (simp add: is_number_byte_def)
  ultimately show ?thesis
    using ds len nb hd strtod_scan_digits by (auto simp: number_stable_def Let_def)
qed

section \<open>The round trip\<close>


definition sample_value :: jvalue where
  "sample_value = Object
     [(lit ''b'', Array [Number (f64_of_int (- 60)), Bool True, Object []]),
      (lit ''a'', String [0x22, 0x5C, 0x0A, 0xC3, 0xA9])]"

lemma sample_value_ok: "strings_ok sample_value" "nesting sample_value = 3" "numbers_stable sample_value"
proof -
  have "number_stable (f64_of_int (- 60))"
    by (rule small_int_stable) (simp add: small_int_def)
  then show "strings_ok sample_value" "nesting sample_value = 3" "numbers_stable sample_value"
    by (simp_all add: sample_value_def str_ok_def lit_def utf8_cont_def)
qed


theorem parsed_value_ok_witness: "nesting sample_value \<le> 1000 \<and> strings_ok sample_value"
  by (rule parsed_value_ok [OF print_parse]) (simp_all add: sample_value_ok NESTING_LIMIT_def)

section \<open>Numbers that do not survive\<close>



end
