(* ===== verification/Manifest_Text.thy ===== *)
theory Manifest_Text
  imports Manifest_Sound Json_Roundtrip
begin

text \<open>
  The manifest as text: the tree built for a parsed manifest holds clean strings and nests a few levels
  deep, so what \<open>ParsedManifest::write\<close> prints parses back to the same manifest with the same unknown
  root fields.
\<close>

section \<open>Clean and shallow trees\<close>

definition plain :: "nat \<Rightarrow> jvalue \<Rightarrow> bool" where
  "plain k v \<longleftrightarrow> strings_ok v \<and> nesting v \<le> k"

definition plain_fields :: "nat \<Rightarrow> obj \<Rightarrow> bool" where
  "plain_fields k kvs \<longleftrightarrow> (\<forall>kv\<in>set kvs. str_ok (fst kv) \<and> plain k (snd kv))"

named_theorems plain "clean and shallow trees"

lemma plain_values [plain]:
  "plain k (String s) \<longleftrightarrow> str_ok s" "plain k (Number n)"
  "plain (Suc k) (Array (map f vs)) \<longleftrightarrow> (\<forall>v\<in>set vs. plain k (f v))"
  "plain (Suc k) (Object kvs) \<longleftrightarrow> plain_fields k kvs"
  by (auto simp: plain_def plain_fields_def nesting_Array nesting_Object simp del: nesting.simps(1,2))

lemma plain_Array: "plain (Suc k) (Array vs) \<longleftrightarrow> (\<forall>v\<in>set vs. plain k v)"
  using plain_values(3) [of k "\<lambda>v. v" vs] by simp

lemma plain_fields_simps [plain]:
  "plain_fields k (a @ b) \<longleftrightarrow> plain_fields k a \<and> plain_fields k b"
  "plain_fields k (put key v) \<longleftrightarrow> str_ok (lit key) \<and> plain k v"
  "plain_fields k (put_opt key ov) \<longleftrightarrow> ov = None \<or> str_ok (lit key) \<and> present str_ok ov"
  "plain_fields k (put_some key f x) \<longleftrightarrow> x = None \<or> str_ok (lit key) \<and> present (\<lambda>y. plain k (f y)) x"
  "plain_fields k (put_list key g xs) \<longleftrightarrow> xs = [] \<or> str_ok (lit key) \<and> plain k (Array (map g xs))"
  by (auto simp: plain_fields_def put_def put_opt_def put_some_def put_list_def plain_values split: option.split)

lemma plain_mono: "plain j v \<Longrightarrow> j \<le> k \<Longrightarrow> plain k v"
  by (simp add: plain_def)

lemma str_ok_ascii: "list_all (\<lambda>c. of_char c \<noteq> (0 :: byte) \<and> of_char c < (0x80 :: byte)) s \<Longrightarrow> str_ok (lit s)"
proof (induction s)
  case (Cons c s)
  then show ?case
    by (simp add: str_ok_def lit_def word_less_nat_alt)
qed (simp add: str_ok_def lit_def)

lemma str_ok_known [plain]:
  "str_ok (lit ''name'')" "str_ok (lit ''role'')" "str_ok (lit ''musicbrainzId'')" "str_ok (lit ''sortName'')"
  "str_ok (lit ''path'')" "str_ok (lit ''sha256'')" "str_ok (lit ''codec'')" "str_ok (lit ''md5'')"
  "str_ok (lit ''title'')" "str_ok (lit ''artists'')" "str_ok (lit ''releaseType'')" "str_ok (lit ''originalReleaseDate'')"
  "str_ok (lit ''genres'')" "str_ok (lit ''releaseDate'')" "str_ok (lit ''edition'')" "str_ok (lit ''country'')"
  "str_ok (lit ''label'')" "str_ok (lit ''catalogueNumber'')" "str_ok (lit ''notes'')"
  "str_ok (lit ''musicbrainzReleaseGroupId'')" "str_ok (lit ''musicbrainzReleaseId'')" "str_ok (lit ''barcode'')"
  "str_ok (lit ''source'')" "str_ok (lit ''confidence'')" "str_ok (lit ''type'')" "str_ok (lit ''store'')"
  "str_ok (lit ''sourceId'')" "str_ok (lit ''isrc'')" "str_ok (lit ''musicbrainzTrackId'')"
  "str_ok (lit ''musicbrainzRecordingId'')" "str_ok (lit ''trackId'')" "str_ok (lit ''trackLUFS'')"
  "str_ok (lit ''truePeakDbTP'')" "str_ok (lit ''version'')" "str_ok (lit ''intervalMs'')" "str_ok (lit ''encoding'')"
  "str_ok (lit ''floorDb'')" "str_ok (lit ''points'')" "str_ok (lit ''lang'')" "str_ok (lit ''track'')"
  "str_ok (lit ''identifiers'')" "str_ok (lit ''sourceAudio'')" "str_ok (lit ''duration'')" "str_ok (lit ''loudness'')"
  "str_ok (lit ''audio'')" "str_ok (lit ''waveform'')" "str_ok (lit ''lyrics'')" "str_ok (lit ''representations'')"
  "str_ok (lit ''disc'')" "str_ok (lit ''format'')" "str_ok (lit ''tracks'')" "str_ok (lit ''profile'')"
  "str_ok (lit ''algorithm'')" "str_ok (lit ''albumLUFS'')" "str_ok (lit ''albumTruePeakDbTP'')" "str_ok (lit ''tool'')"
  "str_ok (lit ''toolVersion'')" "str_ok (lit ''album'')" "str_ok (lit ''release'')" "str_ok (lit ''identity'')"
  "str_ok (lit ''media'')" "str_ok (lit ''artwork'')" "str_ok (lit ''booklet'')" "str_ok (lit ''extras'')"
  "str_ok (lit ''analysis'')" "str_ok (lit ''provenance'')" "str_ok ENCODING" "str_ok FORMAT_ID"
  unfolding ENCODING_def FORMAT_ID_def by (rule str_ok_ascii; simp)+

lemma str_ok_enums [plain]:
  "str_ok (lit (release_type_str t))" "str_ok (lit (medium_format_str f))" "str_ok (lit (identity_source_str i))"
  "str_ok (lit (identity_confidence_str c))"
  by ((cases t; rule str_ok_ascii; simp), (cases f; rule str_ok_ascii; simp), (cases i; rule str_ok_ascii; simp),
      (cases c; rule str_ok_ascii; simp))

section \<open>Strings come from the parsed document\<close>

lemma get_ok: "strings_ok v \<Longrightarrow> get v k = Some x \<Longrightarrow> strings_ok x"
  by (cases v) (auto simp: get_def dest!: map_of_SomeD)

lemma require_string_ok: "require_string v k = Inr s \<Longrightarrow> strings_ok v \<Longrightarrow> str_ok s"
  by (auto simp: require_string_def split: option.splits jvalue.splits if_splits dest: get_ok)

lemma opt_string_ok: "opt_string v k = Inr ov \<Longrightarrow> strings_ok v \<Longrightarrow> present str_ok ov"
  by (auto simp: opt_string_def split: option.splits jvalue.splits if_splits dest: get_ok)

lemma require_object_ok: "require_object (Some v) w = Inr u \<Longrightarrow> strings_ok v \<Longrightarrow> strings_ok u"
  by (auto simp: require_object_def split: if_splits)

lemmas field_ok = require_object_ok require_string_ok opt_string_ok get_ok

lemma parse_asset_ok: "parse_asset v = Inr a \<Longrightarrow> strings_ok v \<Longrightarrow> str_ok (as_path a) \<and> str_ok (as_sha256 a)"
  by (auto simp: parse_asset_def and_then_Inr split: if_splits dest: field_ok)

lemma parse_lang_ok: "parse_lang (get v k) = Inr ov \<Longrightarrow> strings_ok v \<Longrightarrow> present str_ok ov"
  by (auto simp: parse_lang_def split: option.splits jvalue.splits if_splits dest: get_ok)

lemma parse_artist_ok: "parse_artist v = Inr a \<Longrightarrow> strings_ok v \<Longrightarrow> plain 1 (artist_to_json a)"
  by (auto simp: parse_artist_def and_then_Inr artist_to_json_def plain numeral_eq_Suc dest: field_ok)

lemma collect_ok:
  "collect f vs = Inr ys \<Longrightarrow> (\<And>v y. f v = Inr y \<Longrightarrow> strings_ok v \<Longrightarrow> P y) \<Longrightarrow> strings_ok (Array vs) \<Longrightarrow> \<forall>y\<in>set ys. P y"
  unfolding collect_Inr list_all2_conv_all_nth all_set_conv_all_nth strings_ok.simps by metis

lemma get_array_ok: "get v k = Some (Array vs) \<Longrightarrow> strings_ok v \<Longrightarrow> strings_ok (Array vs)"
  using get_ok by blast

lemma sections_ok:
  "parse_release v = Inr (Some x1) \<Longrightarrow> strings_ok v \<Longrightarrow> plain 1 (release_to_json x1)"
  "parse_identifiers v = Inr (Some x2) \<Longrightarrow> strings_ok v \<Longrightarrow> plain 1 (identifiers_to_json x2)"
  "parse_source v = Inr (Some x4) \<Longrightarrow> strings_ok v \<Longrightarrow> plain 1 (source_to_json x4)"
  "parse_provenance v = Inr (Some x5) \<Longrightarrow> strings_ok v \<Longrightarrow> plain 1 (provenance_to_json x5)"
  "parse_track_identifiers v = Inr (Some x6) \<Longrightarrow> strings_ok v \<Longrightarrow> plain 1 (track_identifiers_to_json x6)"
  "parse_track_source v = Inr (Some x7) \<Longrightarrow> strings_ok v \<Longrightarrow> plain 1 (track_source_to_json x7)"
  "parse_source_audio v = Inr (Some x8) \<Longrightarrow> strings_ok v \<Longrightarrow> plain 1 (source_audio_to_json x8)"
  by (auto simp: parse_release_def parse_identifiers_def parse_source_def parse_provenance_def
      parse_track_identifiers_def parse_track_source_def parse_source_audio_def and_then_Inr keep_if_Some
      release_to_json_def identifiers_to_json_def source_to_json_def provenance_to_json_def
      track_identifiers_to_json_def track_source_to_json_def source_audio_to_json_def plain
      dest!: require_object_ok dest: opt_string_ok)

lemma plain_numeric [plain]:
  "plain 1 (identity_to_json iy)" "plain 1 (loudness_to_json lo)"
  by (auto simp: identity_to_json_def loudness_to_json_def plain present_def split: option.split)

lemma parse_waveform_ok: "parse_waveform v = Inr w \<Longrightarrow> strings_ok v \<Longrightarrow> plain 1 (waveform_to_json w)"
  by (auto simp: parse_waveform_def and_then_Inr waveform_to_json_def plain split: if_splits dest!: require_object_ok
      dest: require_string_ok)

lemma parse_representation_ok: "parse_representation v = Inr r \<Longrightarrow> strings_ok v \<Longrightarrow> plain 1 (representation_to_json r)"
  by (auto simp: parse_representation_def and_then_Inr representation_to_json_def plain dest!: require_object_ok
      dest: parse_asset_ok opt_string_ok)

lemma parse_lyrics_ref_ok: "parse_lyrics_ref v = Inr l \<Longrightarrow> strings_ok v \<Longrightarrow> plain 1 (lyrics_ref_to_json l)"
  by (auto simp: parse_lyrics_ref_def and_then_Inr lyrics_ref_to_json_def plain dest!: require_object_ok
      dest: parse_asset_ok parse_lang_ok)

lemma parse_artwork_entry_ok: "parse_artwork_entry v = Inr w \<Longrightarrow> strings_ok v \<Longrightarrow> plain 1 (artwork_to_json w)"
  by (auto simp: parse_artwork_entry_def and_then_Inr artwork_to_json_def plain dest!: require_object_ok
      dest: parse_asset_ok require_string_ok)

lemma parse_analysis_entry_ok: "parse_analysis_entry v = Inr a \<Longrightarrow> strings_ok v \<Longrightarrow> plain 1 (analysis_to_json a)"
  by (auto simp: parse_analysis_entry_def and_then_Inr analysis_to_json_def plain dest!: require_object_ok
      dest: opt_string_ok require_string_ok split: if_splits)

lemma parse_album_loudness_ok:
  assumes "parse_album_loudness v = Inr (Some l)" and "strings_ok v"
  shows "plain 1 (album_loudness_to_json l)"
proof -
  obtain o' algo where o': "require_object (Some v) ''loudness'' = Inr o'" "opt_string o' ''algorithm'' = Inr algo"
    and r: "(case (get o' (lit ''albumLUFS''), get o' (lit ''albumTruePeakDbTP'')) of
       (None, None) \<Rightarrow> Inr None
     | (Some (Number a), Some (Number b)) \<Rightarrow>
         if is_valid_loudness_value a \<and> is_valid_loudness_value b
         then Inr (Some \<lparr>ll_algorithm = algo, ll_lufs = a, ll_true_peak_db = b\<rparr>)
         else bad (lit ''album loudness values must be finite numbers within [-70, 6]'')
     | (Some _, Some _) \<Rightarrow> bad (lit ''album loudness values must be finite numbers within [-70, 6]'')
     | _ \<Rightarrow> bad (lit ''album loudness requires both albumLUFS and albumTruePeakDbTP'')) = Inr (Some l)"
    using assms(1) unfolding parse_album_loudness_def and_then_Inr by blast
  have "ll_algorithm l = algo"
    using r by (cases "get o' (lit ''albumLUFS'')" rule: value_cases; cases "get o' (lit ''albumTruePeakDbTP'')" rule: value_cases)
      (auto split: if_splits)
  moreover have "present str_ok algo"
    using o' assms(2) by (blast dest: field_ok)
  ultimately show ?thesis
    by (simp add: album_loudness_to_json_def plain)
qed

section \<open>Containers\<close>

lemma parse_artists_ok:
  "parse_artists (get v k) = Inr as \<Longrightarrow> strings_ok v \<Longrightarrow> \<forall>a\<in>set as. plain 1 (artist_to_json a)"
  by (auto simp: parse_artists_def split: option.splits jvalue.splits if_splits dest: get_array_ok
      dest!: collect_ok [where P = "\<lambda>a. plain 1 (artist_to_json a)", OF _ parse_artist_ok])

lemma require_array_ok:
  "require_array (Some v) w = Inr vs \<Longrightarrow> strings_ok v \<Longrightarrow> strings_ok (Array vs)"
  by (auto simp: require_array_def split: jvalue.splits)

lemma parse_representations_ok:
  "parse_representations (get v k) = Inr rs \<Longrightarrow> strings_ok v \<Longrightarrow> \<forall>r\<in>set rs. plain 1 (representation_to_json r)"
  by (auto simp: parse_representations_def and_then_Inr split: option.splits dest!: require_array_ok dest: get_ok
      dest!: collect_ok [where P = "\<lambda>r. plain 1 (representation_to_json r)", OF _ parse_representation_ok])

lemma parse_track_lyrics_ok:
  "parse_track_lyrics (get v k) = Inr ls \<Longrightarrow> strings_ok v \<Longrightarrow> \<forall>l\<in>set ls. plain 1 (lyrics_ref_to_json l)"
  by (auto simp: parse_track_lyrics_def and_then_Inr split: option.splits if_splits dest!: require_array_ok dest: get_ok
      dest!: collect_ok [where P = "\<lambda>l. plain 1 (lyrics_ref_to_json l)", OF _ parse_lyrics_ref_ok])

lemma parse_artwork_ok:
  "parse_artwork (get v k) = Inr ws \<Longrightarrow> strings_ok v \<Longrightarrow> \<forall>w\<in>set ws. plain 1 (artwork_to_json w)"
  by (auto simp: parse_artwork_def and_then_Inr split: option.splits if_splits dest!: require_array_ok dest: get_ok
      dest!: collect_ok [where P = "\<lambda>w. plain 1 (artwork_to_json w)", OF _ parse_artwork_entry_ok])

lemma parse_analysis_ok:
  "parse_analysis (get v k) = Inr as \<Longrightarrow> strings_ok v \<Longrightarrow> \<forall>a\<in>set as. plain 1 (analysis_to_json a)"
  by (auto simp: parse_analysis_def and_then_Inr split: option.splits if_splits dest!: require_array_ok dest: get_ok
      dest!: collect_ok [where P = "\<lambda>a. plain 1 (analysis_to_json a)", OF _ parse_analysis_entry_ok])

lemma parse_asset_array_ok:
  assumes "parse_asset_array (get v k) w n = Inr as" and "strings_ok v"
  shows "\<forall>a\<in>set as. plain 1 (asset_to_json a)"
proof -
  have "plain 1 (asset_to_json a)"
    if "and_then (require_object (Some u) w) parse_asset = Inr a" and "strings_ok u" for u a
    using that by (auto simp: and_then_Inr asset_to_json_def plain dest: parse_asset_ok require_object_ok)
  with assms show ?thesis
    by (auto simp: parse_asset_array_def split: option.splits jvalue.splits if_splits dest!: get_array_ok
        dest: collect_ok [where P = "\<lambda>a. plain 1 (asset_to_json a)"])
qed

lemma parse_string_list_ok:
  assumes "parse_string_list (get v k) w n = Inr ss" and "strings_ok v"
  shows "\<forall>s\<in>set ss. str_ok s"
proof -
  have "str_ok s" if "parse_string_item w u = Inr s" and "strings_ok u" for u s
    using that by (auto simp: parse_string_item_def split: jvalue.splits)
  with assms show ?thesis
    by (auto simp: parse_string_list_def split: option.splits jvalue.splits if_splits dest!: get_array_ok
        dest: collect_ok [where P = str_ok])
qed

lemma parse_album_ok:
  assumes "parse_album v = Inr a" and "strings_ok v"
  shows "plain 3 (album_to_json a)"
proof -
  obtain al where al: "require_object (get v (lit ''album'')) ''album'' = Inr al" "require_string al ''title'' = Inr (al_title a)"
    "parse_artists (get al (lit ''artists'')) = Inr (al_artists a)"
    "opt_string al ''originalReleaseDate'' = Inr (al_original_release_date a)"
    "parse_string_list (get al (lit ''genres'')) ''genres'' MAX_GENRES = Inr (al_genres a)"
    using assms(1) unfolding parse_album_def and_then_Inr by auto
  have ok: "strings_ok al"
    using al(1) assms(2) get_ok by (cases "get v (lit ''album'')") (auto simp: require_object_def split: if_splits)
  show ?thesis
    using require_string_ok [OF al(2) ok] parse_artists_ok [OF al(3) ok] opt_string_ok [OF al(4) ok]
      parse_string_list_ok [OF al(5) ok]
    by (simp add: album_to_json_def plain numeral_eq_Suc present_def [where P = "\<lambda>y. True"] split: option.split)
qed

lemma opt_section_ok:
  "opt_section (get v k) f = Inr x \<Longrightarrow> strings_ok v \<Longrightarrow> (\<And>u y. f u = Inr (Some y) \<Longrightarrow> strings_ok u \<Longrightarrow> P y) \<Longrightarrow> present P x"
  by (cases "get v k"; cases x) (auto simp: opt_section_def dest: get_ok)

lemma optional_ok:
  "opt_section (get v k) parse_release = Inr x1 \<Longrightarrow> strings_ok v \<Longrightarrow> present (\<lambda>y. plain 1 (release_to_json y)) x1"
  "opt_section (get v k) parse_identifiers = Inr x2 \<Longrightarrow> strings_ok v \<Longrightarrow> present (\<lambda>y. plain 1 (identifiers_to_json y)) x2"
  "opt_section (get v k) parse_source = Inr x4 \<Longrightarrow> strings_ok v \<Longrightarrow> present (\<lambda>y. plain 1 (source_to_json y)) x4"
  "opt_section (get v k) parse_provenance = Inr x5 \<Longrightarrow> strings_ok v \<Longrightarrow> present (\<lambda>y. plain 1 (provenance_to_json y)) x5"
  "opt_section (get v k) parse_track_identifiers = Inr x6 \<Longrightarrow> strings_ok v \<Longrightarrow> present (\<lambda>y. plain 1 (track_identifiers_to_json y)) x6"
  "opt_section (get v k) parse_track_source = Inr x7 \<Longrightarrow> strings_ok v \<Longrightarrow> present (\<lambda>y. plain 1 (track_source_to_json y)) x7"
  "opt_section (get v k) parse_source_audio = Inr x8 \<Longrightarrow> strings_ok v \<Longrightarrow> present (\<lambda>y. plain 1 (source_audio_to_json y)) x8"
  "opt_section (get v k) parse_album_loudness = Inr x9 \<Longrightarrow> strings_ok v \<Longrightarrow> present (\<lambda>y. plain 1 (album_loudness_to_json y)) x9"
  by (erule opt_section_ok, assumption, erule sections_ok parse_album_loudness_ok, assumption)+

lemma plain_one_mono: "plain 1 v \<Longrightarrow> plain (Suc k) v"
  by (erule plain_mono) simp

lemma present_mono: "present P x \<Longrightarrow> (\<And>y. P y \<Longrightarrow> Q y) \<Longrightarrow> present Q x"
  by (cases x) simp_all

lemma present_plain: "present (\<lambda>y. plain 1 (f y)) x \<Longrightarrow> present (\<lambda>y. plain (Suc k) (f y)) x"
  by (erule present_mono) (rule plain_one_mono)

lemma present_plain_all: "(\<And>y. plain 1 (f y)) \<Longrightarrow> present (\<lambda>y. plain (Suc k) (f y)) x"
  by (cases x) (simp_all add: plain_one_mono)

lemma parse_track_ok:
  assumes "parse_track v = Inr t" and "strings_ok v"
  shows "plain 3 (track_to_json t)"
proof -
  obtain o' audio_value where o': "require_object (Some v) ''track'' = Inr o'"
    "get o' (lit ''audio'') = Some audio_value" and t: "require_string o' ''title'' = Inr (tr_title t)"
    "parse_artists (get o' (lit ''artists'')) = Inr (tr_artists t)"
    "opt_section (get o' (lit ''identifiers'')) parse_track_identifiers = Inr (tr_identifiers t)"
    "opt_section (get o' (lit ''source'')) parse_track_source = Inr (tr_source t)"
    "opt_section (get o' (lit ''sourceAudio'')) parse_source_audio = Inr (tr_source_audio t)"
    "parse_asset audio_value = Inr (tr_audio t)" "opt_string audio_value ''codec'' = Inr (tr_audio_codec t)"
    "opt_section (get o' (lit ''waveform'')) (\<lambda>v. and_then (parse_waveform v) (\<lambda>w. Inr (Some w))) = Inr (tr_waveform t)"
    "parse_representations (get o' (lit ''representations'')) = Inr (tr_representations t)"
    "parse_track_lyrics (get o' (lit ''lyrics'')) = Inr (tr_lyrics t)"
    using assms(1) unfolding parse_track_def and_then_Inr by (auto split: option.splits simp: and_then_Inr)
  have ok: "strings_ok o'" "strings_ok audio_value"
    using o' assms(2) by (blast dest: field_ok)+
  have "present (\<lambda>w. plain 1 (waveform_to_json w)) (tr_waveform t)"
    by (rule opt_section_ok [OF t(8) ok(1)]) (auto simp: and_then_Inr dest: parse_waveform_ok)
  moreover have "plain (Suc (Suc 0)) (audio_to_json (tr_audio t) (tr_audio_codec t))"
    using parse_asset_ok [OF t(6) ok(2)] opt_string_ok [OF t(7) ok(2)] by (simp add: audio_to_json_def plain)
  ultimately show ?thesis
    using require_string_ok [OF t(1) ok(1)] parse_artists_ok [OF t(2) ok(1)] optional_ok(5) [OF t(3) ok(1)]
      optional_ok(6) [OF t(4) ok(1)] optional_ok(7) [OF t(5) ok(1)] parse_representations_ok [OF t(9) ok(1)]
      parse_track_lyrics_ok [OF t(10) ok(1)]
    by (simp add: track_to_json_def plain numeral_eq_Suc present_plain [unfolded One_nat_def]
        present_plain_all [OF plain_numeric(2), unfolded One_nat_def] present_def [where P = "\<lambda>y. True"] split: option.split)
qed

lemma parse_disc_ok:
  assumes "parse_disc v = Inr d" and "strings_ok v"
  shows "plain 5 (disc_to_json d)"
proof -
  obtain o' tv ts where o': "require_object (Some v) ''media entry'' = Inr o'" "get o' (lit ''tracks'') = Some tv"
    "require_array (Some tv) ''tracks'' = Inr ts" and d: "opt_string o' ''title'' = Inr (di_title d)"
    "collect parse_track ts = Inr (di_tracks d)"
    using assms(1) unfolding parse_disc_def and_then_Inr by (auto split: option.splits if_splits simp: and_then_Inr)
  have ok: "strings_ok o'" "strings_ok tv" "strings_ok (Array ts)"
    using o' assms(2) by (blast dest: field_ok require_array_ok)+
  have "\<forall>t\<in>set (di_tracks d). plain 3 (track_to_json t)"
    using collect_ok [OF d(2), where P = "\<lambda>t. plain 3 (track_to_json t)"] parse_track_ok ok(3) by blast
  then show ?thesis
    using opt_string_ok [OF d(1) ok(1)]
    by (simp add: disc_to_json_def plain numeral_eq_Suc present_def [where P = "\<lambda>y. True"] split: option.split)
qed

lemma parse_media_ok:
  assumes "parse_media (get v k) = Inr ds" and "strings_ok v"
  shows "\<forall>d\<in>set ds. plain 5 (disc_to_json d)"
proof -
  obtain mv vs where m: "get v k = Some mv" "require_array (Some mv) ''media'' = Inr vs" "collect parse_disc vs = Inr ds"
    using assms(1) unfolding parse_media_def by (auto split: option.splits if_splits simp: and_then_Inr)
  then have "strings_ok (Array vs)"
    using assms(2) by (blast dest: get_ok require_array_ok)
  then show ?thesis
    using collect_ok [OF m(3), where P = "\<lambda>d. plain 5 (disc_to_json d)"] parse_disc_ok by blast
qed

lemma plain_list: "\<forall>x\<in>set xs. plain (Suc 0) (f x) \<Longrightarrow> \<forall>x\<in>set xs. plain (Suc k) (f x)"
  using plain_one_mono by auto

lemma build_tree_ok:
  assumes "manifest_from_tree v = Inr m" and "strings_ok v"
  shows "plain 7 (build_tree m)"
proof -
  have m: "parse_album v = Inr (mf_album m)"
    "opt_section (get v (lit ''release'')) parse_release = Inr (mf_release m)"
    "opt_section (get v (lit ''identifiers'')) parse_identifiers = Inr (mf_identifiers m)"
    "opt_section (get v (lit ''source'')) parse_source = Inr (mf_source m)"
    "parse_media (get v (lit ''media'')) = Inr (mf_media m)"
    "parse_artwork (get v (lit ''artwork'')) = Inr (mf_artwork m)"
    "parse_asset_array (get v (lit ''booklet'')) ''booklet'' MAX_BOOKLET = Inr (mf_booklet m)"
    "parse_asset_array (get v (lit ''lyrics'')) ''lyrics'' MAX_LYRICS = Inr (mf_lyrics m)"
    "parse_asset_array (get v (lit ''extras'')) ''extras'' MAX_EXTRAS = Inr (mf_extras m)"
    "parse_analysis (get v (lit ''analysis'')) = Inr (mf_analysis m)"
    "opt_section (get v (lit ''loudness'')) parse_album_loudness = Inr (mf_loudness m)"
    "opt_section (get v (lit ''provenance'')) parse_provenance = Inr (mf_provenance m)"
    using assms(1) unfolding manifest_from_tree_def Let_def by (auto simp: and_then_Inr split: if_splits)
  have "plain 6 (album_to_json (mf_album m))"
    by (rule plain_mono [OF parse_album_ok [OF m(1) assms(2)]]) simp
  then show ?thesis
    using optional_ok(1) [OF m(2) assms(2)] optional_ok(2) [OF m(3) assms(2)] optional_ok(3) [OF m(4) assms(2)]
      parse_media_ok [OF m(5) assms(2)] parse_artwork_ok [OF m(6) assms(2)] parse_asset_array_ok [OF m(7) assms(2)]
      parse_asset_array_ok [OF m(8) assms(2)] parse_asset_array_ok [OF m(9) assms(2)] parse_analysis_ok [OF m(10) assms(2)]
      optional_ok(8) [OF m(11) assms(2)] optional_ok(4) [OF m(12) assms(2)]
    by (simp add: build_tree_def root_fields_def plain numeral_eq_Suc present_plain [unfolded One_nat_def]
        present_plain_all [OF plain_numeric(1), unfolded One_nat_def] plain_list)
qed

section \<open>The document with its unknown fields\<close>

text \<open>The tree \<open>write_parsed\<close> prints: the canonical fields, then the unknown fields of the original.\<close>

definition extended_tree :: "manifest \<Rightarrow> obj \<Rightarrow> jvalue" where
  "extended_tree m ext = Object (root_fields m @ ext)"

definition unknown_fields :: "obj \<Rightarrow> bool" where
  "unknown_fields ext \<longleftrightarrow> (\<forall>kv\<in>set ext. fst kv \<notin> set KNOWN_ROOT_FIELDS)"

lemma key_segments_root: "key_segments [''format'', ''version'', ''album'', ''release'', ''identifiers'', ''identity'',
     ''source'', ''media'', ''artwork'', ''booklet'', ''lyrics'', ''extras'', ''analysis'', ''loudness'', ''provenance''] (root_fields m)"
  unfolding root_fields_def by (rule keys)+

lemma subseq_subset: "subseq xs ys \<Longrightarrow> set xs \<subseteq> set ys"
  by (induction rule: list_emb.induct) auto

lemma root_keys_known: "fst ` set (root_fields m) \<subseteq> set KNOWN_ROOT_FIELDS"
proof -
  have "set (map fst (root_fields m)) \<subseteq> set KNOWN_ROOT_FIELDS"
    using key_segments_root [of m] unfolding key_segments_def KNOWN_ROOT_FIELDS_def by (intro subseq_subset [OF conjunct1])
  then show ?thesis
    by (simp only: set_map)
qed

lemma get_extended:
  assumes "unknown_fields ext" and "k \<in> set KNOWN_ROOT_FIELDS"
  shows "get (extended_tree m ext) k = get (build_tree m) k"
proof -
  have "map_of ext k = None"
    using assms by (auto simp: unknown_fields_def map_of_eq_None_iff)
  then show ?thesis
    by (simp add: extended_tree_def build_tree_def get_def map_of_append map_add_def split: option.split)
qed

lemma extended_keys:
  assumes "unknown_fields ext" and "\<not> has_duplicate_keys (Object ext)"
  shows "\<not> has_duplicate_keys (extended_tree m ext)"
proof -
  have "fst ` set (root_fields m) \<inter> fst ` set ext = {}"
    using assms(1) root_keys_known [of m] by (fastforce simp: unknown_fields_def)
  moreover have "distinct (map fst (root_fields m))" "\<forall>kv\<in>set (root_fields m). \<not> has_duplicate_keys (snd kv)"
    using distinct_keys_tree [of m] by (simp_all add: build_tree_def repeated_key_distinct)
  ultimately show ?thesis
    using assms(2) by (auto simp: extended_tree_def repeated_key_distinct)
qed

lemma manifest_from_extended:
  assumes "unknown_fields ext" and "\<not> has_duplicate_keys (Object ext)"
  shows "manifest_from_tree (extended_tree m ext) = manifest_from_tree (build_tree m)"
proof -
  have known: "get (extended_tree m ext) (lit k) = get (build_tree m) (lit k)"
    if "k \<in> {''format'', ''version'', ''album'', ''release'', ''identifiers'', ''identity'', ''source'', ''media'',
      ''artwork'', ''booklet'', ''lyrics'', ''extras'', ''analysis'', ''loudness'', ''provenance''}" for k
    using that by (intro get_extended [OF assms(1)]) (auto simp: KNOWN_ROOT_FIELDS_def)
  have "is_object (extended_tree m ext)" "is_object (build_tree m)"
    by (simp_all add: extended_tree_def build_tree_def is_object_def)
  then show ?thesis
    unfolding manifest_from_tree_def check_format_def check_version_def parse_album_def
    by (simp add: extended_keys [OF assms] distinct_keys_tree known)
qed

lemma extensions_unknown: "unknown_fields (extensions v)"
  by (cases v) (auto simp: extensions_def unknown_fields_def)

lemma extensions_extended: "unknown_fields ext \<Longrightarrow> extensions (extended_tree m ext) = ext"
  using root_keys_known [of m]
  by (force simp: extensions_def extended_tree_def unknown_fields_def filter_empty_conv filter_id_conv case_prod_beta)

lemma extensions_keys:
  assumes "\<not> has_duplicate_keys v"
  shows "\<not> has_duplicate_keys (Object (extensions v))"
proof (cases v)
  case (Object kvs)
  with assms have "distinct (map fst kvs)" "\<forall>kv\<in>set kvs. \<not> has_duplicate_keys (snd kv)"
    by (simp_all add: repeated_key_distinct)
  then show ?thesis
    using Object by (auto simp: extensions_def repeated_key_distinct distinct_map_filter)
qed (simp_all add: extensions_def)

lemma extended_ok:
  assumes "strings_ok v" and "nesting v \<le> NESTING_LIMIT" and "plain 7 (build_tree m)"
  shows "strings_ok (extended_tree m (extensions v))" and "nesting (extended_tree m (extensions v)) \<le> NESTING_LIMIT"
proof -
  have "plain_fields 6 (root_fields m)"
    using assms(3) by (simp add: build_tree_def plain eval_nat_numeral)
  then have "plain_fields 999 (root_fields m)"
    using plain_mono [of 6 _ 999] by (auto simp: plain_fields_def)
  moreover have "plain_fields 999 (extensions v)"
  proof (cases v)
    case (Object kvs)
    then have "plain (Suc 999) (Object kvs)"
      using assms(1,2) by (simp add: plain_def NESTING_LIMIT_def del: nesting.simps)
    then have "plain_fields 999 kvs"
      by (simp only: plain_values)
    then show ?thesis
      using Object by (auto simp: extensions_def plain_fields_def)
  qed (simp_all add: extensions_def plain_fields_def)
  ultimately have "plain (Suc 999) (extended_tree m (extensions v))"
    by (simp only: extended_tree_def plain)
  then show "strings_ok (extended_tree m (extensions v))" "nesting (extended_tree m (extensions v)) \<le> NESTING_LIMIT"
    by (simp_all add: plain_def NESTING_LIMIT_def)
qed

section \<open>Writing and reading back\<close>

lemma write_parsed_text:
  assumes "manifest_from_tree (build_tree m) = Inr m" and "is_object v"
  shows "write_parsed \<lparr>pm_manifest = m, pm_original = v\<rparr> = Inr (print_canonical (extended_tree m (extensions v)))"
  using assms by (cases v) (simp_all add: write_parsed_def validate_for_write_def copy_package_extensions_def build_tree_def
      extended_tree_def is_object_def)

lemma reread:
  assumes "manifest_wf m" and "al_artists (mf_album m) \<noteq> []" and "is_object v" and "\<not> has_duplicate_keys v"
    and "strings_ok v" and "nesting v \<le> NESTING_LIMIT" and "plain 7 (build_tree m)"
    and "numbers_stable (extended_tree m (extensions v))"
    and "length (print_canonical (extended_tree m (extensions v))) \<le> MANIFEST_MAX_BYTES"
  shows "parse_manifest (print_canonical (extended_tree m (extensions v)))
    = Some (Inr \<lparr>pm_manifest = m, pm_original = extended_tree m (extensions v)\<rparr>)"
proof -
  have "manifest_from_tree (extended_tree m (extensions v)) = Inr m"
    using manifest_from_extended [OF extensions_unknown extensions_keys [OF assms(4)]]
      manifest_from_built_tree [OF assms(1,2)] by simp
  moreover have "parse (print_canonical (extended_tree m (extensions v))) = Some (Inr (extended_tree m (extensions v)))"
    by (rule print_parse [OF extended_ok(1) [OF assms(5-7)] assms(8) extended_ok(2) [OF assms(5-7)]])
  ultimately show ?thesis
    using assms(9) by (simp add: parse_manifest_def)
qed

end
