(* ===== verification/Package.thy ===== *)
theory Package
  imports Verify_Sound Mpak_Properties Mpak_Complete Manifest_Text
begin

text \<open>
  The MPAK container as a package: its streams and prefix digests over exact sources, the assets of a manifest
  in the orders the code lists them, and the lemmas from which an MPAK verification and a pack are judged.
\<close>

section \<open>Streams and prefixes of exact sources\<close>

context exact_source
begin

lemma member_read_nonempty:
  assumes "member_read src s n = Inr (out, s')" and "mr_pos s < mr_end s" and "0 < n"
  shows "out \<noteq> []"
proof -
  let ?want = "min n (mr_end s - mr_pos s)"
  have "bs_read_at src (mr_pos s) ?want = Inr out"
    using assms by (auto simp: member_read_def Let_def split: sum.splits)
  then have "read_exact src (mr_pos s) ?want = Inr out"
    by (simp add: read_exact_def)
  then have "length out = ?want"
    unfolding read_exact_Inr by auto
  with assms(2,3) show ?thesis by auto
qed

lemma read_all_member_results:
  assumes "0 < n"
  shows "read_all acc (member_results src n s) = member_read_to_end src n acc s"
proof (induction "mr_end s - mr_pos s" arbitrary: s acc rule: less_induct)
  case less
  show ?case
  proof (cases "mr_pos s < mr_end s")
    case True
    show ?thesis
    proof (cases "member_read src s n")
      case (Inr p)
      obtain out s' where p: "p = (out, s')" by fastforce
      have "out \<noteq> []"
        using member_read_nonempty Inr p True assms by blast
      moreover have "mr_end s' - mr_pos s' < mr_end s - mr_pos s"
        using Inr p True assms by (auto simp: member_read_def Let_def split: sum.splits if_splits)
      ultimately show ?thesis
        using True assms Inr p less [of s' "acc @ out"]
        by (subst member_results.simps, subst member_read_to_end.simps) simp
    qed (use True assms in \<open>subst member_results.simps, subst member_read_to_end.simps, simp\<close>)
  qed (subst member_results.simps, subst member_read_to_end.simps, simp)
qed

lemma prefix_bytes_eq:
  assumes "len \<le> length content" and "length content < u64_limit" and "pos \<le> len"
  shows "prefix_bytes src len pos acc = Inr (acc @ slice content pos len)"
  using assms(3)
proof (induction "len - pos" arbitrary: pos acc rule: less_induct)
  case less
  show ?case
  proof (cases "pos < len")
    case True
    let ?want = "min READ_BUFFER (len - pos)"
    have w: "0 < ?want" "pos + ?want \<le> len"
      using True by (auto simp: READ_BUFFER_def)
    have "read_exact src pos ?want = Inr (slice content pos (pos + ?want))"
      using w assms(1,2) by (intro read_exact_inside) simp_all
    moreover have "prefix_bytes src len (pos + ?want) (acc @ slice content pos (pos + ?want))
        = Inr ((acc @ slice content pos (pos + ?want)) @ slice content (pos + ?want) len)"
      using w True by (intro less) simp_all
    moreover have "slice content pos (pos + ?want) @ slice content (pos + ?want) len = slice content pos len"
      using w by (intro slice_join) simp_all
    ultimately show ?thesis
      using True by (subst prefix_bytes.simps) (simp add: Let_def)
  next
    case False
    with less.prems show ?thesis
      by (subst prefix_bytes.simps) simp
  qed
qed

lemma hash_prefix_eq:
  "len \<le> length content \<Longrightarrow> length content < u64_limit \<Longrightarrow> hash_prefix sha256 src len = Inr (sha256 (take len content))"
  by (simp add: hash_prefix_def prefix_bytes_eq slice_def)

end

section \<open>The container is a backend without identities\<close>

lemma mpak_backend_fields [simp]:
  "open_asset (mpak_as_backend sha256 mb) = mpak_open_asset mb"
  "object_id_of (mpak_as_backend sha256 mb) = (\<lambda>_. None)"
  "verify_extra (mpak_as_backend sha256 mb) = verify_container sha256 mb"
  by (simp_all add: mpak_as_backend_def)

interpretation mpak: object_identity "mpak_as_backend sha256 mb" for sha256 mb
  by unfold_locales simp

section \<open>The assets of a manifest\<close>

definition track_waveforms :: "track \<Rightarrow> declared_asset list" where
  "track_waveforms t = (case tr_waveform t of Some w \<Rightarrow> [waveform_pair w] | None \<Rightarrow> [])"

lemma over_all_tracks:
  "concat (map (\<lambda>d. concat (map f (di_tracks d))) ds) = concat (map f (concat (map di_tracks ds)))"
  by (induction ds) simp_all

lemma mset_concat_map: "mset (concat (map f xs)) = (\<Sum>x\<leftarrow>xs. mset (f x))"
  by (induction xs) simp_all

lemma fst_pairs [simp]:
  "fst (asset_pair a) = as_path a" "fst (representation_pair r) = rp_path r" "fst (lyrics_pair l) = ly_path l"
  "fst (waveform_pair w) = wf_path w" "fst \<circ> asset_pair = as_path" "fst \<circ> representation_pair = rp_path"
  "fst \<circ> lyrics_pair = ly_path"
  by (auto simp: asset_pair_def representation_pair_def lyrics_pair_def waveform_pair_def)

lemma map_snd_Pair [simp]: "map snd (map (Pair k) xs) = xs"
  by (simp add: comp_def)

lemma shared_paths_pairs: "map fst (shared_assets m) = shared_paths m"
  by (simp add: shared_assets_def shared_paths_def comp_def)

lemma track_pairs:
  "mset (map snd (track_run t) @ track_waveforms t)
     = {#asset_pair (tr_audio t)#} + mset (map representation_pair (tr_representations t))
       + mset (track_waveforms t) + mset (map lyrics_pair (tr_lyrics t))"
  by (simp add: track_run_def comp_def)

lemma sum_split4:
  "(\<Sum>x\<leftarrow>xs. f x + g x + h x + k x) = (\<Sum>x\<leftarrow>xs. f x) + (\<Sum>x\<leftarrow>xs. g x) + (\<Sum>x\<leftarrow>xs. h x) + (\<Sum>x\<leftarrow>xs. (k x :: 'a multiset))"
  by (induction xs) (simp_all add: ac_simps)

lemma sum_singleton: "(\<Sum>x\<leftarrow>xs. {#f x#}) = mset (map f xs)"
  by (induction xs) simp_all

lemma pack_order_tracks:
  "mset (concat (map (\<lambda>t. map snd (track_run t) @ track_waveforms t) ts))
     = mset (map (\<lambda>t. asset_pair (tr_audio t)) ts) + mset (concat (map (\<lambda>t. map representation_pair (tr_representations t)) ts))
       + mset (concat (map track_waveforms ts)) + mset (concat (map (\<lambda>t. map lyrics_pair (tr_lyrics t)) ts))"
  unfolding mset_concat_map track_pairs sum_split4 sum_singleton ..

lemma canonical_pack_order_mset:
  "mset (canonical_pack_order m)
     = mset (concat (map (\<lambda>t. map snd (track_run t) @ track_waveforms t) (all_tracks m))) + mset (shared_assets m)"
  unfolding pack_order_tracks canonical_pack_order_def by (simp add: track_waveforms_def [abs_def])

lemma map_snd_package_run:
  "map snd (package_run m) = concat (map (\<lambda>t. map snd (track_run t)) (all_tracks m)) @ shared_assets m"
  by (simp add: package_run_def shared_assets_def map_concat comp_def)

lemma sum_split2: "(\<Sum>x\<leftarrow>xs. f x + g x) = (\<Sum>x\<leftarrow>xs. f x) + (\<Sum>x\<leftarrow>xs. (g x :: 'a multiset))"
  by (induction xs) (simp_all add: ac_simps)

lemma package_run_mset:
  "mset (map snd (package_run m)) + mset (concat (map track_waveforms (all_tracks m))) = mset (canonical_pack_order m)"
  unfolding canonical_pack_order_mset map_snd_package_run mset_append mset_concat_map sum_split2
  by (simp add: ac_simps)

lemma pack_order_paths: "mset (map fst (canonical_pack_order m)) = mset (referenced_paths m)"
proof -
  have t: "mset (map fst (map snd (track_run t) @ track_waveforms t)) = mset (track_paths t)" for t
    by (cases "tr_waveform t") (simp_all add: track_run_def track_waveforms_def track_paths_def comp_def)
  have "mset (map fst (canonical_pack_order m)) = image_mset fst (mset (canonical_pack_order m))"
    by simp
  also have "\<dots> = mset (concat (map (\<lambda>t. map fst (map snd (track_run t) @ track_waveforms t)) (all_tracks m)))
      + mset (map fst (shared_assets m))"
    unfolding canonical_pack_order_mset image_mset_union mset_map [symmetric] map_concat map_map comp_def ..
  also have "\<dots> = mset (referenced_paths m)"
    unfolding mset_concat_map t shared_paths_pairs
    by (simp add: referenced_paths_def over_all_tracks all_tracks_def mset_concat_map)
  finally show ?thesis .
qed

end
