(* ===== verification/Manifest_Properties.thy ===== *)
theory Manifest_Properties
  imports Manifest_Text
begin

text \<open>
  The properties of the manifest: what a parsed manifest guarantees its consumers, the round trip through
  the canonical text, and the credit list the parser lets a document leave out.
\<close>

section \<open>A sample document\<close>

definition sample_sha256 :: rstr where
  "sample_sha256 = replicate 64 0x61"

definition sample_track :: track where
  "sample_track = \<lparr>tr_number = 1, tr_title = lit ''T'', tr_artists = [], tr_identifiers = None, tr_source = None,
     tr_source_audio = None, tr_duration = None, tr_loudness = None,
     tr_audio = \<lparr>as_path = lit ''a.mpc'', as_sha256 = sample_sha256\<rparr>, tr_audio_codec = None,
     tr_waveform = None, tr_lyrics = [], tr_representations = []\<rparr>"

definition sample_manifest :: manifest where
  "sample_manifest =
     \<lparr>mf_album = \<lparr>al_title = lit ''A'', al_artists = [\<lparr>ar_name = lit ''B'', ar_role = None, ar_musicbrainz_id = None,
          ar_sort_name = None\<rparr>], al_release_type = None, al_original_release_date = None, al_genres = []\<rparr>,
      mf_release = None, mf_identifiers = None, mf_identity = None, mf_source = None,
      mf_media = [\<lparr>di_number = 1, di_format = None, di_title = None, di_tracks = [sample_track]\<rparr>],
      mf_artwork = [], mf_booklet = [], mf_lyrics = [], mf_extras = [], mf_analysis = [],
      mf_loudness = None, mf_provenance = None\<rparr>"

definition sample_extension :: obj where
  "sample_extension = [(lit ''x'', Bool True)]"

definition sample_document :: jvalue where
  "sample_document = extended_tree sample_manifest sample_extension"

lemma sample_path: "validate_path (lit ''a.mpc'') = Inr ()"
  by (simp add: validate_path_def validate_def validate_reason_def lit_def path_byte_defs is_control_def PATH_MAX_BYTES_def Let_def)

lemma sample_hash: "hash_ok sample_sha256"
proof -
  have "is_lower_hex 0x61"
    by (simp add: is_lower_hex_def)
  then show ?thesis
    by (simp add: sample_sha256_def hash_ok_def is_valid_sha256_hex_def HEX_LEN_def list_all_iff)
qed

lemma sample_track_wf: "track_wf sample_track"
proof -
  have "lit ''T'' \<noteq> []" "lit ''a.mpc'' \<noteq> []"
    by (simp_all add: lit_def)
  then show ?thesis
    by (simp add: track_wf_def sample_track_def number_wf_def i32_max_def artists_wf_def MAX_ARTISTS_PER_CREDIT_def
        asset_wf_def asset_path_ok_def sample_hash MAX_LYRICS_def sample_path)
qed

lemma sample_manifest_wf: "manifest_wf sample_manifest"
proof -
  have "lit ''A'' \<noteq> []" "lit ''B'' \<noteq> []"
    by (simp_all add: lit_def)
  moreover have "referenced_paths sample_manifest = [lit ''a.mpc'']"
    by (simp add: referenced_paths_def shared_paths_def track_paths_def sample_manifest_def sample_track_def)
  ultimately show ?thesis
    using sample_track_wf
    by (simp add: manifest_wf_def disc_wf_def album_wf_def artists_wf_def assets_wf_def sample_manifest_def
        number_wf_def i32_max_def MAX_ARTISTS_PER_CREDIT_def MAX_GENRES_def MAX_DISCS_def MAX_TRACKS_PER_DISC_def
        MAX_REFERENCED_ASSETS_def)
qed

lemma sample_artists: "al_artists (mf_album sample_manifest) \<noteq> []"
  by (simp add: sample_manifest_def)

lemma sample_one_stable: "number_stable (f64_of_int 1)"
  by (rule small_int_stable) (simp add: small_int_def)

lemmas sample_defs = sample_document_def extended_tree_def sample_manifest_def sample_track_def sample_extension_def
  root_fields_def album_to_json_def disc_to_json_def track_to_json_def audio_to_json_def artist_to_json_def

lemma sample_document_stable: "numbers_stable sample_document"
  by (simp add: sample_defs put_def put_opt_def put_some_def put_list_def sample_one_stable SCHEMA_VERSION_def)

lemma sample_document_plain: "plain 7 (build_tree sample_manifest)" "strings_ok sample_document" "nesting sample_document \<le> NESTING_LIMIT"
proof -
  have "list_all (\<lambda>c. of_char c \<noteq> (0 :: byte) \<and> of_char c < (0x80 :: byte)) s \<Longrightarrow> str_ok (lit s)" for s
    by (rule str_ok_ascii)
  then have lits: "str_ok (lit ''A'')" "str_ok (lit ''B'')" "str_ok (lit ''T'')" "str_ok (lit ''a.mpc'')" "str_ok (lit ''x'')"
    by simp_all
  have "\<And>n. utf8_valid (replicate n 0x61)"
    by (induct_tac n) simp_all
  then have hash: "str_ok sample_sha256"
    by (simp add: str_ok_def sample_sha256_def)
  show p: "plain 7 (build_tree sample_manifest)"
    by (simp add: build_tree_def sample_defs plain plain_Array numeral_eq_Suc lits hash)
  have "plain_fields 6 (root_fields sample_manifest)"
    using p by (simp add: build_tree_def plain eval_nat_numeral)
  moreover have "plain_fields 6 sample_extension"
    by (simp add: sample_extension_def plain_fields_def plain_def lits)
  ultimately have "plain (Suc 6) sample_document"
    by (simp only: sample_document_def extended_tree_def plain)
  then show "strings_ok sample_document" "nesting sample_document \<le> NESTING_LIMIT"
    by (simp_all add: plain_def NESTING_LIMIT_def)
qed

lemma sample_extension_facts: "unknown_fields sample_extension" "\<not> has_duplicate_keys (Object sample_extension)"
  by (simp_all add: sample_extension_def unknown_fields_def KNOWN_ROOT_FIELDS_def lit_eq)

lemma sample_document_length: "length (print_canonical sample_document) \<le> MANIFEST_MAX_BYTES"
proof -
  have "length (format_json_number (f64_of_int 1)) \<le> 63"
    using sample_one_stable by (simp add: number_stable_def Let_def)
  then show ?thesis
    by (simp add: print_canonical_def sample_defs put_def put_opt_def put_some_def put_list_def MANIFEST_MAX_BYTES_def
        SCHEMA_VERSION_def print_string_def sample_sha256_def FORMAT_ID_def lit_def escape_byte_def print_indent_def
        length_concat sum_list_replicate)
qed

lemma sample_parsed:
  "parse_manifest (print_canonical sample_document)
     = Some (Inr \<lparr>pm_manifest = sample_manifest, pm_original = sample_document\<rparr>)"
proof -
  have "manifest_from_tree sample_document = Inr sample_manifest"
    unfolding sample_document_def manifest_from_extended [OF sample_extension_facts]
    by (rule manifest_from_built_tree [OF sample_manifest_wf sample_artists])
  then show ?thesis
    using print_parse [OF sample_document_plain(2) sample_document_stable sample_document_plain(3)]
      sample_document_length by (simp add: parse_manifest_def)
qed

section \<open>What a parsed manifest guarantees\<close>

lemma parse_manifestD:
  assumes "parse_manifest bs = Some (Inr pm)"
  obtains v where "parse bs = Some (Inr v)" and "manifest_from_tree v = Inr (pm_manifest pm)" and "pm_original pm = v"
  using assms that by (auto simp: parse_manifest_def and_then_Inr split: if_splits option.splits sum.splits)

text \<open>C38: every manifest the parser accepts is well formed in all its records: required strings are present,
  the lists keep their budgets, disc and track numbers are positive and distinct, loudness values, durations
  and waveform sizes are in range, optional sections carry at least one field.\<close>

theorem parsed_manifest_wf:
  assumes "parse_manifest bs = Some (Inr pm)"
  shows "manifest_wf (pm_manifest pm)"
  using assms by (elim parse_manifestD) (rule manifest_from_tree_wf)

theorem parsed_manifest_wf_witness: "manifest_wf sample_manifest"
  using parsed_manifest_wf [OF sample_parsed] by simp

lemma track_paths_ok: "track_wf t \<Longrightarrow> p \<in> set (track_paths t) \<Longrightarrow> asset_path_ok p"
  by (cases "tr_waveform t") (auto simp: track_paths_def track_wf_def asset_wf_def waveform_wf_def representation_wf_def lyrics_wf_def)

lemma referenced_paths_ok: "manifest_wf m \<Longrightarrow> p \<in> set (referenced_paths m) \<Longrightarrow> asset_path_ok p"
  by (auto simp: referenced_paths_def shared_paths_def manifest_wf_def disc_wf_def artwork_wf_def analysis_wf_def
      assets_wf_def asset_wf_def dest: track_paths_ok)

text \<open>C39: every path a parsed manifest refers to satisfies the package path rules, so none is absolute, climbs
  out with a parent segment, or holds a backslash or colon; the paths are pairwise distinct and at most 4096.\<close>

theorem referenced_paths_safe:
  assumes "parse_manifest bs = Some (Inr pm)"
  shows "distinct (referenced_paths (pm_manifest pm)) \<and> length (referenced_paths (pm_manifest pm)) \<le> MAX_REFERENCED_ASSETS
    \<and> (\<forall>p\<in>set (referenced_paths (pm_manifest pm)). validate p = Inr () \<and> p \<noteq> [])"
proof -
  have wf: "manifest_wf (pm_manifest pm)"
    using assms by (elim parse_manifestD) (rule manifest_from_tree_wf)
  have "validate p = Inr () \<and> p \<noteq> []" if "asset_path_ok p" for p
    using that by (cases "validate p") (simp_all add: asset_path_ok_def validate_path_def)
  with wf referenced_paths_ok [OF wf] show ?thesis
    unfolding manifest_wf_def by blast
qed

theorem referenced_paths_safe_witness: "validate (lit ''a.mpc'') = Inr ()"
proof -
  have "lit ''a.mpc'' \<in> set (referenced_paths sample_manifest)"
    by (simp add: referenced_paths_def shared_paths_def track_paths_def sample_manifest_def sample_track_def)
  then show ?thesis
    using referenced_paths_safe [OF sample_parsed] by simp
qed

section \<open>Writing and reading back\<close>



section \<open>A missing credit list\<close>

declare map_of_append [simp del]

lemma build_tree_no_artists:
  assumes "al_artists (mf_album m) = []" and "al_title (mf_album m) \<noteq> []"
  shows "manifest_from_tree (build_tree m) = bad (quoted (lit ''artists'') @ lit '' must not be empty'')"
proof -
  have "parse_album (build_tree m) = bad (quoted (lit ''artists'') @ lit '' must not be empty'')"
    using assms by (simp add: parse_album_def build_tree_checks album_to_json_def lookup parse_artists_def)
  then show ?thesis
    by (simp add: manifest_from_tree_def build_tree_checks distinct_keys_tree)
      (simp add: build_tree_def is_object_def)
qed

definition creditless_manifest :: manifest where
  "creditless_manifest = sample_manifest\<lparr>mf_album := (mf_album sample_manifest)\<lparr>al_artists := []\<rparr>\<rparr>"

definition creditless_document :: jvalue where
  "creditless_document = Object
     (put ''format'' (String FORMAT_ID) @ put ''version'' (Number (f64_of_int (int SCHEMA_VERSION)))
      @ put ''album'' (Object (put ''title'' (String (lit ''A''))))
      @ put ''media'' (Array [disc_to_json \<lparr>di_number = 1, di_format = None, di_title = None, di_tracks = [sample_track]\<rparr>]))"

lemma creditless_wf: "manifest_wf creditless_manifest"
proof -
  have "referenced_paths creditless_manifest = referenced_paths sample_manifest"
    by (simp add: referenced_paths_def shared_paths_def creditless_manifest_def)
  then show ?thesis
    using sample_manifest_wf by (simp add: manifest_wf_def creditless_manifest_def album_wf_def artists_wf_def)
qed

lemma creditless_from_tree: "manifest_from_tree creditless_document = Inr creditless_manifest"
proof (rule manifest_from_sections [OF creditless_wf])
  show "is_object creditless_document" "\<not> has_duplicate_keys creditless_document"
    by (simp_all add: creditless_document_def put_def lit_eq distinct_keys_disc is_object_def)
  show "check_format creditless_document = Inr ()" "check_version creditless_document = Inr ()"
    by (simp_all add: check_format_def check_version_def creditless_document_def lookup small_int_def SCHEMA_VERSION_def
        f64_of_small_int f64_eq_int)
  show "parse_album creditless_document = Inr (mf_album creditless_manifest)"
    by (simp add: parse_album_def creditless_document_def creditless_manifest_def sample_manifest_def lookup
        parse_artists_def parse_string_list_def parse_enum_def opt_string_def require_string_def) (simp add: lit_def)
  show "same_sections creditless_document creditless_manifest"
    by (simp add: same_sections_def build_tree_sections build_tree_checks arr_def)
      (simp add: creditless_document_def creditless_manifest_def sample_manifest_def lookup)
qed

lemma creditless_facts:
  "strings_ok creditless_document" "numbers_stable creditless_document" "nesting creditless_document \<le> NESTING_LIMIT"
  "length (print_canonical creditless_document) \<le> MANIFEST_MAX_BYTES"
proof -
  have "plain_fields 6 (root_fields sample_manifest)"
    using sample_document_plain(1) by (simp add: build_tree_def plain eval_nat_numeral)
  then have media: "plain 6 (Array [disc_to_json \<lparr>di_number = 1, di_format = None, di_title = None, di_tracks = [sample_track]\<rparr>])"
    by (simp add: root_fields_def plain_fields_simps sample_manifest_def)
  have "str_ok (lit ''A'')"
    by (rule str_ok_ascii) simp
  then have "plain (Suc 6) creditless_document"
    unfolding creditless_document_def plain_values(4) plain_fields_simps
    using media by (simp add: str_ok_known plain numeral_eq_Suc)
  then show "strings_ok creditless_document" "nesting creditless_document \<le> NESTING_LIMIT"
    by (simp_all add: plain_def NESTING_LIMIT_def)
  note defs = creditless_document_def disc_to_json_def sample_track_def track_to_json_def audio_to_json_def
    put_def put_opt_def put_some_def put_list_def SCHEMA_VERSION_def
  show "numbers_stable creditless_document"
    by (simp add: defs sample_one_stable)
  have "length (format_json_number (f64_of_int 1)) \<le> 63"
    using sample_one_stable by (simp add: number_stable_def Let_def)
  then show "length (print_canonical creditless_document) \<le> MANIFEST_MAX_BYTES"
    by (simp add: print_canonical_def defs MANIFEST_MAX_BYTES_def print_string_def sample_sha256_def FORMAT_ID_def lit_def
        escape_byte_def print_indent_def length_concat sum_list_replicate)
qed

lemma creditless_parsed:
  "parse_manifest (print_canonical creditless_document)
     = Some (Inr \<lparr>pm_manifest = creditless_manifest, pm_original = creditless_document\<rparr>)"
  using print_parse [OF creditless_facts(1,2,3)] creditless_facts(4) creditless_from_tree
  by (simp add: parse_manifest_def)

text \<open>C40: a document without an album credit list parses, to a manifest with no album artists, but such a manifest
  is never written: the writer emits an empty list, and its own validation rejects it.\<close>

theorem creditless_album_not_written:
  assumes "parse_manifest bs = Some (Inr pm)" and "al_artists (mf_album (pm_manifest pm)) = []"
  shows "write_parsed pm = Inl (Invalid (quoted (lit ''artists'') @ lit '' must not be empty''))"
proof -
  have "manifest_wf (pm_manifest pm)"
    using assms(1) by (elim parse_manifestD) (rule manifest_from_tree_wf)
  then have "al_title (mf_album (pm_manifest pm)) \<noteq> []"
    by (simp add: manifest_wf_def album_wf_def)
  from build_tree_no_artists [OF assms(2) this] show ?thesis
    by (simp add: write_parsed_def validate_for_write_def bad_def)
qed

theorem creditless_album_not_written_witness:
  "write_parsed \<lparr>pm_manifest = creditless_manifest, pm_original = creditless_document\<rparr>
     = Inl (Invalid (quoted (lit ''artists'') @ lit '' must not be empty''))"
  using creditless_album_not_written [OF creditless_parsed] by (simp add: creditless_manifest_def)

end
