(* ===== verification/Package_Verify.thy ===== *)
theory Package_Verify
  imports Package Manifest_Properties
begin

text \<open>
  What a verification of a container says of its bytes, and the container backend over a pack of a bundle: its
  contents, its findings and what the verifier charges for it.
\<close>

section \<open>A verified container\<close>

context exact_source
begin

lemma prefix_bytes_inside:
  "prefix_bytes src len pos acc = Inr bs \<Longrightarrow> pos \<le> length content \<Longrightarrow> len \<le> length content"
proof (induction "len - pos" arbitrary: pos acc rule: less_induct)
  case less
  show ?case
  proof (cases "pos < len")
    case True
    let ?want = "min READ_BUFFER (len - pos)"
    obtain chunk where chunk: "read_exact src pos ?want = Inr chunk"
      "prefix_bytes src len (pos + ?want) (acc @ chunk) = Inr bs"
      using less.prems(1) True by (subst (asm) prefix_bytes.simps) (auto simp: Let_def split: sum.splits)
    then have "pos + ?want \<le> length content"
      unfolding read_exact_Inr by simp
    moreover have "len - (pos + ?want) < len - pos"
      using True by (auto simp: READ_BUFFER_def)
    ultimately show ?thesis
      using less.hyps chunk(2) by blast
  qed (use less.prems in simp)
qed

lemma hash_prefix_Inr:
  assumes "hash_prefix sha256 src len = Inr d" and "length content < u64_limit"
  shows "d = sha256 (take len content)"
proof -
  have "len \<le> length content"
    using assms(1) prefix_bytes_inside [of len 0 "[]"] by (auto simp: hash_prefix_def split: sum.splits)
  with assms show ?thesis
    by (simp add: hash_prefix_eq)
qed

end

context object_identity
begin

lemma verify_sound:
  assumes "is_ok (verify sha256 m be)" and "distinct (referenced_paths m)" and "a \<in> set (canonical_pack_order m)"
  shows "intact sha256 be a"
proof -
  have dist: "distinct (map fst (canonical_pack_order m))"
    using assms(2) mset_eq_imp_distinct_iff [OF pack_order_paths] by blast
  have run: "\<forall>c\<in>set (package_run m). intact sha256 be (snd c)"
  proof (rule run_sound)
    show "is_ok (fst (run_assets sha256 be (package_run m) (Some budget_empty)))"
      using assms(1) by (simp add: verify_ok)
    have "mset (map fst (map snd (package_run m) @ concat (map track_waveforms (all_tracks m))))
        = mset (map fst (canonical_pack_order m))"
      by (simp only: mset_map [of fst] mset_append package_run_mset)
    then have "distinct (map fst (map snd (package_run m) @ concat (map track_waveforms (all_tracks m))))"
      using dist mset_eq_imp_distinct_iff by blast
    then show "distinct (map (\<lambda>c. fst (snd c)) (package_run m))"
      by (simp add: comp_def)
    show "\<forall>c\<in>set (package_run m). unseen (fst (snd c)) (Some budget_empty)"
      by (simp add: unseen_empty)
  qed
  have "a \<in># mset (map snd (package_run m)) + mset (concat (map track_waveforms (all_tracks m)))"
    using assms(3) unfolding package_run_mset by simp
  then consider c where "c \<in> set (package_run m)" "a = snd c"
    | t where "t \<in> set (all_tracks m)" "a \<in> set (track_waveforms t)"
    by auto
  then show ?thesis
  proof cases
    case 2
    then obtain w where "tr_waveform t = Some w" "a = waveform_pair w"
      by (cases "tr_waveform t") (simp_all add: track_waveforms_def)
    moreover have "is_ok (verify_waveform sha256 be t)"
      using 2 assms(1) by (simp add: verify_ok)
    ultimately show ?thesis
      using verify_waveform_sound by blast
  qed (use run in simp)
qed

end

lemma verify_mpakD:
  assumes "verify_mpak sha256 src = Some (Inr report)"
  obtains r man pm where "scan src False = Inr r" and "Mpak_Read.manifest r = Some man" and "0 \<notin> set man"
    and "parse_manifest man = Some (Inr pm)"
    and "report = verify sha256 (pm_manifest pm) (mpak_as_backend sha256 \<lparr>mb_source = src, mb_reader = r, mb_manifest = man\<rparr>)"
  using assms that by (auto simp: verify_mpak_def mpak_open_def split: sum.splits option.splits if_splits)

lemma mpak_intact:
  assumes "scan (memory_source bs) False = Inr r" and "length bs < u64_limit"
    and "intact sha256 (mpak_as_backend sha256 \<lparr>mb_source = memory_source bs, mb_reader = r, mb_manifest = man\<rparr>) (p, h)"
  shows "\<exists>m\<in>set (members r). m_path m = p \<and> m_offset m + m_length m \<le> length bs
    \<and> to_hex (sha256 (slice bs (m_offset m) (m_offset m + m_length m))) = h"
proof -
  have ok: "scan_result_ok bs False r"
    using assms(1) by (rule memory.scan_correct)
  obtain m c where m: "member r p = Some m" "to_hex (sha256 c) = h"
    "read_all [] (member_results (memory_source bs) READ_BUFFER (member_reader_new (m_offset m) (m_length m))) = Inr c"
    using assms(3) by (auto simp: intact_def mpak_open_asset_def split: option.splits)
  have mem: "m \<in> set (members r)" "m_path m = p"
    using m(1) scan_result_members [OF ok] by auto
  then have "member_ok bs m"
    using ok by (simp add: scan_result_ok_def reader_ok_def list_all_iff)
  then have inside: "m_offset m + m_length m \<le> length bs"
    by (auto simp: member_ok_def data_block_at_def)
  have "member_read_to_end (memory_source bs) READ_BUFFER [] (member_reader_new (m_offset m) (m_length m))
      = Inr (slice bs (m_offset m) (m_offset m + m_length m))"
    using inside assms(2) by (subst memory.member_read_to_end_eq) (simp_all add: member_reader_new_def READ_BUFFER_def)
  with m(3) have "c = slice bs (m_offset m) (m_offset m + m_length m)"
    by (simp add: memory.read_all_member_results READ_BUFFER_def)
  with m(2) mem inside show ?thesis by blast
qed

lemma verify_container_ok:
  assumes "is_ok (verify_container sha256 \<lparr>mb_source = memory_source bs, mb_reader = r, mb_manifest = man\<rparr> m)"
    and "scan (memory_source bs) False = Inr r" and "length bs < u64_limit"
  shows "duplicate_members r = 0"
    and "tail_present r \<Longrightarrow> \<not> tail_malformed r \<Longrightarrow> tail_total_size r = length bs
      \<and> tail_objects r = length (members r) \<and> tail_digest r = sha256 (take (tail_offset r) bs)"
proof -
  have ok: "scan_result_ok bs False r"
    using assms(2) by (rule memory.scan_correct)
  then have r: "file_size r = length bs" "duplicate_members r = 0 \<longleftrightarrow> duplicate_example r = None"
    by (simp_all add: scan_result_ok_def reader_ok_def)
  show "duplicate_members r = 0"
    using assms(1) r(2) by (auto simp: verify_container_def Let_def split: option.splits if_splits)
  have "is_ok (tail_findings sha256 (memory_source bs) r)"
    using assms(1) by (simp add: verify_container_def Let_def)
  then show "tail_present r \<Longrightarrow> \<not> tail_malformed r \<Longrightarrow> tail_total_size r = length bs
      \<and> tail_objects r = length (members r) \<and> tail_digest r = sha256 (take (tail_offset r) bs)"
    using r(1) memory.hash_prefix_Inr [OF _ assms(3)]
    by (auto simp: tail_findings_def split: if_splits sum.splits)
qed

section \<open>A packed bundle\<close>

lemma duration_warning_ok [simp]: "is_ok (duration_warning path points duration)"
  by (simp add: duration_warning_def Let_def split: option.split)

lemma track_paths_plain:
  assumes "plain 3 (track_to_json t)" and "p \<in> set (track_paths t)"
  shows "str_ok p"
proof -
  have "plain_fields 2 (put ''audio'' (audio_to_json (tr_audio t) (tr_audio_codec t)))"
    "plain_fields 2 (put_some ''waveform'' waveform_to_json (tr_waveform t))"
    "plain_fields 2 (put_list ''lyrics'' lyrics_ref_to_json (tr_lyrics t))"
    "plain_fields 2 (put_list ''representations'' representation_to_json (tr_representations t))"
    using assms(1) unfolding track_to_json_def numeral_3_eq_3 numeral_2_eq_2 plain_values(4) plain_fields_simps(1)
    by simp_all
  then show ?thesis
    using assms(2) unfolding numeral_2_eq_2
    by (cases "tr_waveform t") (auto simp: track_paths_def plain audio_to_json_def waveform_to_json_def
        lyrics_ref_to_json_def representation_to_json_def)
qed

lemma asset_paths_plain:
  "plain (Suc k) (Array (map asset_to_json as)) \<Longrightarrow> a \<in> set as \<Longrightarrow> 0 < k \<Longrightarrow> str_ok (as_path a)"
  "plain (Suc k) (Array (map artwork_to_json ws)) \<Longrightarrow> w \<in> set ws \<Longrightarrow> 0 < k \<Longrightarrow> str_ok (as_path (aw_asset w))"
  "plain (Suc k) (Array (map analysis_to_json ns)) \<Longrightarrow> n \<in> set ns \<Longrightarrow> 0 < k \<Longrightarrow> str_ok (as_path (an_asset n))"
  by (auto simp: gr0_conv_Suc plain asset_to_json_def artwork_to_json_def analysis_to_json_def)

lemma media_paths_plain:
  assumes "plain 6 (Array (map disc_to_json ds))" and "d \<in> set ds" and "t \<in> set (di_tracks d)" and "p \<in> set (track_paths t)"
  shows "str_ok p"
proof -
  have "plain 5 (disc_to_json d)"
    using assms(1,2) by (simp add: eval_nat_numeral plain)
  then have "plain 4 (Array (map track_to_json (di_tracks d)))"
    by (simp add: eval_nat_numeral disc_to_json_def plain_values(4) plain_fields_simps(1,2))
  then have "plain 3 (track_to_json t)"
    using assms(3) by (simp add: eval_nat_numeral plain)
  then show ?thesis
    using assms(4) by (rule track_paths_plain)
qed

lemma referenced_paths_plain:
  assumes "plain 7 (build_tree m)" and "p \<in> set (referenced_paths m)"
  shows "str_ok p"
proof -
  have "plain_fields 6 (root_fields m)"
    using assms(1) by (simp add: eval_nat_numeral build_tree_def plain_values(4))
  then have f: "plain 6 (Array (map disc_to_json (mf_media m)))"
    "mf_artwork m = [] \<or> plain 6 (Array (map artwork_to_json (mf_artwork m)))"
    "mf_booklet m = [] \<or> plain 6 (Array (map asset_to_json (mf_booklet m)))"
    "mf_lyrics m = [] \<or> plain 6 (Array (map asset_to_json (mf_lyrics m)))"
    "mf_extras m = [] \<or> plain 6 (Array (map asset_to_json (mf_extras m)))"
    "mf_analysis m = [] \<or> plain 6 (Array (map analysis_to_json (mf_analysis m)))"
    unfolding root_fields_def plain_fields_simps by blast+
  have "p \<in> set (shared_paths m) \<or> (\<exists>d\<in>set (mf_media m). \<exists>t\<in>set (di_tracks d). p \<in> set (track_paths t))"
    using assms(2) by (auto simp: referenced_paths_def)
  then show ?thesis
    using f media_paths_plain [OF f(1)] asset_paths_plain [of 5]
    by (auto simp: shared_paths_def)
qed

lemma parsed_paths_wf:
  assumes "parse_manifest man = Some (Inr pm)" and "p \<in> set (referenced_paths (pm_manifest pm))"
  shows "path_wf p"
proof -
  obtain v where v: "parse man = Some (Inr v)" "manifest_from_tree v = Inr (pm_manifest pm)"
    using assms(1) by (rule parse_manifestD)
  have "str_ok p"
    using build_tree_ok [OF v(2) parse_ok(1) [OF v(1)]] assms(2) by (rule referenced_paths_plain)
  moreover have "asset_path_ok p"
    using manifest_from_tree_wf [OF v(2)] assms(2) by (rule referenced_paths_ok)
  then have "validate p = Inr ()"
    by (cases "validate p") (simp_all add: asset_path_ok_def validate_path_def)
  ultimately show ?thesis
    by (simp add: path_wf_def str_ok_def)
qed

lemma pack_bundleD:
  assumes "pack_bundle sha256 be man (Inr man) = Some (Inr out)"
  obtains pm where "parse_manifest man = Some (Inr pm)" and "is_ok (verify sha256 (pm_manifest pm) be)"
    and "write_mpak sha256 (bundle_source be man (pm_manifest pm)) = Inr out"
  using assms that
  by (auto simp: pack_bundle_def Let_def and_then_Inr split: option.splits sum.splits if_splits)

text \<open>The container backend over a pack of a bundle: what \<open>open\<close> gives for every declared asset.\<close>

definition same_content :: "(bytes \<Rightarrow> bytes) \<Rightarrow> backend \<Rightarrow> mpak_backend \<Rightarrow> declared_asset \<Rightarrow> bool" where
  "same_content sha256 be mb a \<longleftrightarrow> (\<exists>opened c rs. open_asset be (fst a) = Inr opened \<and> read_all [] (oa_reader opened) = Inr c
     \<and> mpak_open_asset mb (fst a) = Inr \<lparr>oa_len = length c, oa_reader = rs\<rparr> \<and> read_all [] rs = Inr c
     \<and> length c \<le> MAX_FILE_BYTES \<and> to_hex (sha256 c) = snd a
     \<and> indx_sha256 (mb_reader mb) (fst a) = sha256_hex_to_bytes (snd a))"

lemma packed_same_content:
  assumes l: "layout_ok sha256 (bundle_source be man m) l" and out: "out = container sha256 (bundle_source be man m) l"
    and sha: "\<And>x. length (sha256 x) = 32" and r: "r = packed_reader sha256 (bundle_source be man m) l idx"
    and scan: "scan (memory_source out) False = Inr r" and a: "a \<in> set (canonical_pack_order m)"
  shows "same_content sha256 be \<lparr>mb_source = memory_source out, mb_reader = r, mb_manifest = man\<rparr> a"
proof -
  let ?src = "bundle_source be man m"
  have len: "length (members r) = length (ps_members ?src)" "length (lo_contents l) = length (ps_members ?src)"
    using packed_reader_content [OF l out sha _ r, of READ_BUFFER] l
    by (simp_all add: READ_BUFFER_def list_all2_lengthD layout_ok_def Let_def)
  have "\<lparr>pm_path = fst a, pm_sha256_hex = snd a\<rparr> \<in> set (ps_members ?src)"
    using a by (force simp: bundle_source_def)
  then obtain i where i: "i < length (ps_members ?src)" "ps_members ?src ! i = \<lparr>pm_path = fst a, pm_sha256_hex = snd a\<rparr>"
    by (auto simp: in_set_conv_nth)
  let ?mem = "members r ! i"
  have "map m_path (members r) ! i = map pm_path (ps_members ?src) ! i"
    using packed_reader_fields(1) [OF l out sha r] by simp
  then have path: "m_path ?mem = fst a"
    using i len by simp
  obtain rs c where c: "ps_read_member ?src (fst a) = Inr rs" "read_all [] rs = Inr c"
    "member_read_to_end (memory_source out) READ_BUFFER [] (member_reader_new (m_offset ?mem) (m_length ?mem)) = Inr c"
    "to_hex (sha256 c) = snd a" "indx_sha256 r (fst a) = sha256_hex_to_bytes (snd a)" "m_length ?mem = length c"
    using list_all2_nthD [OF packed_reader_content [OF l out sha _ r, of READ_BUFFER], of i] i len path
    by (auto simp: READ_BUFFER_def)
  have member: "member r (fst a) = Some ?mem"
    using scan_result_members [OF memory.scan_correct [OF scan]] path i(1) len by simp
  have "m_length ?mem = map length (lo_contents l) ! i"
    using packed_reader_fields(2) [OF l out sha r] i len
    by (metis length_map nth_map)
  then have "length c \<le> MAX_FILE_BYTES"
    using l i(1) len(2) c(6) by (simp add: layout_ok_def Let_def)
  with c path member show ?thesis
    unfolding same_content_def
    by (auto simp: bundle_source_def mpak_open_asset_def memory.read_all_member_results READ_BUFFER_def split: sum.splits)
qed

lemma same_content_intact:
  "same_content sha256 be mb a \<Longrightarrow> intact sha256 (mpak_as_backend sha256 mb) a"
  by (auto simp: same_content_def intact_def)

text \<open>A waveform that verified in the bundle verifies in the container.\<close>

lemma verify_waveform_packed:
  assumes "is_ok (verify_waveform sha256 be t)"
    and "\<And>w. tr_waveform t = Some w \<Longrightarrow> same_content sha256 be mb (waveform_pair w)"
  shows "is_ok (verify_waveform sha256 (mpak_as_backend sha256 mb) t)"
proof (cases "tr_waveform t")
  case (Some w)
  let ?expected = "min (nat (wf_points w) * 2) (u64_limit - 1)"
  obtain opened c rs where c: "open_asset be (wf_path w) = Inr opened" "read_all [] (oa_reader opened) = Inr c"
    "mpak_open_asset mb (wf_path w) = Inr \<lparr>oa_len = length c, oa_reader = rs\<rparr>" "read_all [] rs = Inr c"
    using assms(2) [OF Some] by (auto simp: same_content_def waveform_pair_def)
  have "oa_len opened = ?expected" "oa_len opened \<le> MAX_PAYLOAD_BYTES" "length c = ?expected"
    using assms(1) c(1,2) unfolding verify_waveform_def Some
    by (auto simp: Let_def size_of_def read_payload_def min_le_iff_disj not_less split: if_splits)
  moreover have "is_ok (fst (verify_one sha256 (mpak_as_backend sha256 mb) (wf_path w) (wf_sha256 w) ''waveform'' None))"
    using same_content_intact [OF assms(2) [OF Some]] by (simp add: verify_one_unbudgeted waveform_pair_def)
  ultimately show ?thesis
    using c(3,4) by (auto simp: verify_waveform_def Some size_of_def read_payload_def Let_def not_less min_le_iff_disj)
qed (simp add: verify_waveform_def)

lemma set_case_option: "set (case x of Some y \<Rightarrow> [f y] | None \<Rightarrow> []) = f ` set_option x"
  by (cases x) simp_all

lemma collect_assets_subset: "set (collect_manifest_assets m) \<subseteq> set (canonical_pack_order m)"
proof -
  have "(\<Union>t\<in>T. insert (f t) (A t \<union> B t)) \<union> S \<subseteq> f ` T \<union> (\<Union>t\<in>T. A t) \<union> (\<Union>t\<in>T. B t) \<union> (\<Union>t\<in>T. C t) \<union> S"
    for T :: "track set" and f and A B C and S :: "declared_asset set"
    by blast
  from this [where T = "set (all_tracks m)" and f = "\<lambda>t. asset_pair (tr_audio t)"
      and A = "\<lambda>t. representation_pair ` set (tr_representations t)" and B = "\<lambda>t. waveform_pair ` set_option (tr_waveform t)"
      and C = "\<lambda>t. lyrics_pair ` set (tr_lyrics t)" and S = "set (shared_assets m)"]
  show ?thesis
    by (simp only: collect_manifest_assets_def over_all_tracks all_tracks_def [symmetric] collect_track_assets_def
        canonical_pack_order_def set_append set_concat set_map set_case_option list.set image_image Un_assoc Un_insert_left)
qed

lemma verify_container_packed:
  assumes l: "layout_ok sha256 (bundle_source be man m) l" and out: "out = container sha256 (bundle_source be man m) l"
    and sha: "\<And>x. length (sha256 x) = 32" and r: "r = packed_reader sha256 (bundle_source be man m) l idx"
    and mb: "mb = \<lparr>mb_source = memory_source out, mb_reader = r, mb_manifest = man\<rparr>"
    and same: "\<forall>a\<in>set (canonical_pack_order m). same_content sha256 be mb a"
  shows "is_ok (verify_container sha256 mb m)"
proof -
  note fields = packed_reader_fields [OF l out sha r]
  have lim: "length out < u64_limit"
    using container_prefix_bound [OF l] length_container [of sha256 "bundle_source be man m", OF sha] by (simp add: out)
  have "index_finding r a = []" if "a \<in> set (collect_manifest_assets m)" for a
  proof -
    have "same_content sha256 be mb a"
      using same collect_assets_subset that by blast
    then show ?thesis
      by (auto simp: same_content_def mb index_finding_def mpak_open_asset_def split: prod.split option.splits)
  qed
  then have "is_ok (index_findings r m)"
    using fields by (simp add: index_findings_def)
  moreover have "is_ok (tail_findings sha256 (memory_source out) r)"
    using fields memory.hash_prefix_eq [OF _ lim, of "tail_offset r" sha256] by (simp add: tail_findings_def)
  ultimately show ?thesis
    using fields by (simp add: verify_container_def mb Let_def)
qed

text \<open>What the verifier charges for a packed container is at most the contents the writer admitted.\<close>

lemma sum_subset_mset: "B \<subseteq># A \<Longrightarrow> (\<Sum>x\<in>#B. f x) \<le> (\<Sum>x\<in>#A. f x :: nat)"
  by (auto simp: subset_mset.le_iff_add)

lemma packed_charge:
  assumes l: "layout_ok sha256 (bundle_source be man m) l" and out: "out = container sha256 (bundle_source be man m) l"
    and sha: "\<And>x. length (sha256 x) = 32" and r: "r = packed_reader sha256 (bundle_source be man m) l idx"
    and scan: "scan (memory_source out) False = Inr r"
    and mb: "mb = \<lparr>mb_source = memory_source out, mb_reader = r, mb_manifest = man\<rparr>"
  shows "sum_list (map (\<lambda>a. asset_len (mpak_as_backend sha256 mb) (fst (snd a))) (package_run m)) \<le> MAX_TOTAL_BYTES"
proof -
  let ?len = "asset_len (mpak_as_backend sha256 mb)"
  have lens: "?len (m_path x) = m_length x" if "x \<in> set (members r)" for x
    using scan_result_members [OF memory.scan_correct [OF scan], of "m_path x" x] that
    by (simp add: asset_len_def mpak_open_asset_def mb)
  have "mset (map snd (package_run m)) \<subseteq># mset (canonical_pack_order m)"
    unfolding package_run_mset [symmetric] by simp
  then have "(\<Sum>a\<in>#mset (map snd (package_run m)). ?len (fst a)) \<le> (\<Sum>a\<in>#mset (canonical_pack_order m). ?len (fst a))"
    by (rule sum_subset_mset)
  then have "sum_list (map (\<lambda>a. ?len (fst (snd a))) (package_run m)) \<le> sum_list (map ?len (map fst (canonical_pack_order m)))"
    by (simp only: mset_map [symmetric] sum_mset_sum_list map_map comp_def)
  also have "map fst (canonical_pack_order m) = map m_path (members r)"
    using packed_reader_fields(1) [OF l out sha r] by (simp add: bundle_source_def comp_def split_def)
  also have "map ?len (map m_path (members r)) = map m_length (members r)"
    using lens by simp
  also have "sum_list (map m_length (members r)) \<le> MAX_TOTAL_BYTES"
    using packed_reader_fields(2) [OF l out sha r] l by (simp add: layout_ok_def Let_def)
  finally show ?thesis .
qed

lemma verify_packed:
  assumes l: "layout_ok sha256 (bundle_source be man m) l" and out: "out = container sha256 (bundle_source be man m) l"
    and sha: "\<And>x. length (sha256 x) = 32" and r: "r = packed_reader sha256 (bundle_source be man m) l idx"
    and scan: "scan (memory_source out) False = Inr r"
    and mb: "mb = \<lparr>mb_source = memory_source out, mb_reader = r, mb_manifest = man\<rparr>"
    and ok: "is_ok (verify sha256 m be)"
  shows "is_ok (verify sha256 m (mpak_as_backend sha256 mb))"
proof -
  have same: "\<forall>a\<in>set (canonical_pack_order m). same_content sha256 be mb a"
    unfolding mb using packed_same_content [OF l out sha r scan] by blast
  have run: "set (map snd (package_run m)) \<subseteq> set (canonical_pack_order m)"
    "a \<in> set (track_waveforms t) \<Longrightarrow> t \<in> set (all_tracks m) \<Longrightarrow> a \<in> set (canonical_pack_order m)" for a t
    using arg_cong [OF package_run_mset [of m], of set_mset] by auto
  have "fst (run_assets sha256 (mpak_as_backend sha256 mb) (package_run m) (Some budget_empty)) = []"
  proof (rule run_complete)
    show "\<forall>a\<in>set (package_run m). intact sha256 (mpak_as_backend sha256 mb) (snd a)"
      using same run(1) same_content_intact by fastforce
    show "total_bytes budget_empty + sum_list (map (\<lambda>a. asset_len (mpak_as_backend sha256 mb) (fst (snd a))) (package_run m))
        \<le> MAX_TOTAL_BYTES"
      using packed_charge [OF l out sha r scan mb] by (simp add: budget_empty_def)
  qed simp
  moreover have "is_ok (verify_waveform sha256 (mpak_as_backend sha256 mb) t)" if t: "t \<in> set (all_tracks m)" for t
  proof (rule verify_waveform_packed)
    show "is_ok (verify_waveform sha256 be t)"
      using ok t by (simp add: verify_ok)
    show "same_content sha256 be mb (waveform_pair w)" if "tr_waveform t = Some w" for w
      using same run(2) [OF _ t, of "waveform_pair w"] that by (simp add: track_waveforms_def)
  qed
  moreover have "is_ok (verify_container sha256 mb m)"
    by (rule verify_container_packed [OF l out sha r mb same])
  ultimately show ?thesis
    using ok by (simp add: verify_ok)
qed

end
