(* ===== verification/Package_Properties.thy ===== *)
theory Package_Properties
  imports Package_Verify
begin

text \<open>
  The properties of packages: a verified container holds every declared asset intact, a verified bundle packs
  and its container verifies, and the one gap of the verifier, an object reached through two paths.
\<close>

section \<open>A verified container\<close>

text \<open>C2: When \<open>verify_mpak\<close> reports no error, every asset the manifest declares, waveforms and lyrics included,
  is a member of the container whose bytes have the declared digest; no object path is duplicated; and a
  readable trailer describes the file: its size, its object count and the digest of what precedes it.\<close>

theorem verified_container_intact:
  assumes "verify_mpak sha256 (memory_source bs) = Some (Inr report)" and "is_ok report" and "length bs < u64_limit"
  shows "\<exists>r man pm. scan (memory_source bs) False = Inr r \<and> Mpak_Read.manifest r = Some man
    \<and> parse_manifest man = Some (Inr pm) \<and> duplicate_members r = 0
    \<and> (\<forall>(p, h)\<in>set (canonical_pack_order (pm_manifest pm)). \<exists>m\<in>set (members r). m_path m = p
         \<and> m_offset m + m_length m \<le> length bs \<and> to_hex (sha256 (slice bs (m_offset m) (m_offset m + m_length m))) = h)
    \<and> (tail_present r \<and> \<not> tail_malformed r \<longrightarrow> tail_total_size r = length bs
         \<and> tail_objects r = length (members r) \<and> tail_digest r = sha256 (take (tail_offset r) bs))"
proof -
  obtain r man pm where v: "scan (memory_source bs) False = Inr r" "Mpak_Read.manifest r = Some man"
    "parse_manifest man = Some (Inr pm)"
    and rep: "report = verify sha256 (pm_manifest pm) (mpak_as_backend sha256 \<lparr>mb_source = memory_source bs, mb_reader = r, mb_manifest = man\<rparr>)"
    by (rule verify_mpakD [OF assms(1)])
  have "manifest_wf (pm_manifest pm)"
    using v(3) by (elim parse_manifestD) (rule manifest_from_tree_wf)
  then have "distinct (referenced_paths (pm_manifest pm))"
    by (simp add: manifest_wf_def)
  then have "\<forall>a\<in>set (canonical_pack_order (pm_manifest pm)). intact sha256
      (mpak_as_backend sha256 \<lparr>mb_source = memory_source bs, mb_reader = r, mb_manifest = man\<rparr>) a"
    using mpak.verify_sound assms(2) unfolding rep by blast
  then have assets: "\<forall>(p, h)\<in>set (canonical_pack_order (pm_manifest pm)). \<exists>m\<in>set (members r). m_path m = p
      \<and> m_offset m + m_length m \<le> length bs \<and> to_hex (sha256 (slice bs (m_offset m) (m_offset m + m_length m))) = h"
    using mpak_intact [OF v(1) assms(3)] by fast
  have "is_ok (verify_container sha256 \<lparr>mb_source = memory_source bs, mb_reader = r, mb_manifest = man\<rparr> (pm_manifest pm))"
    using assms(2) unfolding rep verify_ok by simp
  from verify_container_ok [OF this v(1) assms(3)] v assets show ?thesis
    by blast
qed

section \<open>A packed bundle\<close>

lemma packed_bundle_opens:
  assumes pm: "parse_manifest man = Some (Inr pm)" "is_ok (verify sha256 (pm_manifest pm) be)"
    "write_mpak sha256 (bundle_source be man (pm_manifest pm)) = Inr out"
    and sha: "\<And>x. length (sha256 x) = 32" and clean: "0 \<notin> set man"
  obtains mb where "mpak_open (memory_source out) = Inr mb" and "mb_manifest mb = man"
    and "\<forall>a\<in>set (canonical_pack_order (pm_manifest pm)). same_content sha256 be mb a"
    and "is_ok (verify sha256 (pm_manifest pm) (mpak_as_backend sha256 mb))" and "length out < u64_limit"
proof -
  let ?m = "pm_manifest pm"
  have "set (map fst (canonical_pack_order ?m)) = set (referenced_paths ?m)"
    using pack_order_paths by (rule mset_eq_setD)
  then have wf: "\<forall>x\<in>set (ps_members (bundle_source be man ?m)). path_wf (pm_path x)"
    using parsed_paths_wf [OF pm(1)] by (force simp: bundle_source_def)
  obtain l idx where l: "layout_ok sha256 (bundle_source be man ?m) l" "out = container sha256 (bundle_source be man ?m) l"
    and scan: "scan (memory_source out) False = Inr (packed_reader sha256 (bundle_source be man ?m) l idx)"
    by (rule packed_reader_facts [OF pm(3) sha wf])
  define r where "r = packed_reader sha256 (bundle_source be man ?m) l idx"
  define mb where "mb = \<lparr>mb_source = memory_source out, mb_reader = r, mb_manifest = man\<rparr>"
  show ?thesis
  proof (rule that [of mb])
    have "Mpak_Read.manifest r = Some man \<and> manifest_count r = 1"
      using packed_reader_fields(1) [OF l sha r_def] by (simp add: bundle_source_def)
    then show "mpak_open (memory_source out) = Inr mb"
      using scan clean by (simp add: mpak_open_def mb_def r_def [symmetric])
    show "\<forall>a\<in>set (canonical_pack_order ?m). same_content sha256 be mb a"
      unfolding mb_def using packed_same_content [OF l sha r_def scan [folded r_def]] by blast
    show "is_ok (verify sha256 ?m (mpak_as_backend sha256 mb))"
      by (rule verify_packed [OF l sha r_def scan [folded r_def] mb_def pm(2)])
    show "length out < u64_limit"
      using container_prefix_bound [OF l(1)] length_container [of sha256 "bundle_source be man ?m", OF sha] by (simp add: l(2))
  qed (simp add: mb_def)
qed

lemma verify_mpak_opened:
  "mpak_open src = Inr mb \<Longrightarrow> parse_manifest (mb_manifest mb) = Some (Inr pm)
    \<Longrightarrow> verify_mpak sha256 src = Some (Inr (verify sha256 (pm_manifest pm) (mpak_as_backend sha256 mb)))"
  by (simp add: verify_mpak_def)

text \<open>C1: A bundle that packs verifies as a container: the container opens with the manifest bytes of the bundle, its
  verification reports no error, and every declared asset reads back, through the bounded member read, as the
  bytes the bundle's own reader gave.\<close>

theorem pack_bundle_verifies:
  assumes "read_manifest_hardened lmeta handle content = Inr man"
    and "pack_bundle sha256 be man (Inr man) = Some (Inr out)" and "\<And>x. length (sha256 x) = 32"
  shows "\<exists>report mb pm. verify_mpak sha256 (memory_source out) = Some (Inr report) \<and> is_ok report
    \<and> mpak_open (memory_source out) = Inr mb \<and> mb_manifest mb = man \<and> parse_manifest man = Some (Inr pm)
    \<and> (\<forall>(p, h)\<in>set (canonical_pack_order (pm_manifest pm)). \<exists>opened c. open_asset be p = Inr opened
         \<and> read_all [] (oa_reader opened) = Inr c \<and> mpak_read_member mb p MAX_FILE_BYTES = Inr c
         \<and> to_hex (sha256 c) = h)"
proof -
  obtain pm where pm: "parse_manifest man = Some (Inr pm)" "is_ok (verify sha256 (pm_manifest pm) be)"
    "write_mpak sha256 (bundle_source be man (pm_manifest pm)) = Inr out"
    using assms(2) by (rule pack_bundleD)
  have "0 \<notin> set man"
    using read_manifest_hardened_clean [OF assms(1)] by simp
  then obtain mb where mb: "mpak_open (memory_source out) = Inr mb" "mb_manifest mb = man"
    "\<forall>a\<in>set (canonical_pack_order (pm_manifest pm)). same_content sha256 be mb a"
    "is_ok (verify sha256 (pm_manifest pm) (mpak_as_backend sha256 mb))"
    by (rule packed_bundle_opens [OF pm assms(3)])
  have "\<forall>(p, h)\<in>set (canonical_pack_order (pm_manifest pm)). \<exists>opened c. open_asset be p = Inr opened
      \<and> read_all [] (oa_reader opened) = Inr c \<and> mpak_read_member mb p MAX_FILE_BYTES = Inr c \<and> to_hex (sha256 c) = h"
    using mb(3) by (fastforce simp: same_content_def mpak_open_asset_def mpak_read_member_def split: option.splits)
  with mb pm(1) verify_mpak_opened [OF mb(1)] show ?thesis
    by simp
qed

section \<open>A verified bundle packs\<close>

lemma canonical_paths: "set (map fst (canonical_pack_order m)) = set (referenced_paths m)"
  "distinct (map fst (canonical_pack_order m)) \<longleftrightarrow> distinct (referenced_paths m)"
  "length (canonical_pack_order m) = length (referenced_paths m)"
  using mset_eq_setD [OF pack_order_paths [of m]] mset_eq_imp_distinct_iff [OF pack_order_paths [of m]]
    mset_eq_length [OF pack_order_paths [of m]] by simp_all

lemma bundle_packable:
  assumes pm: "parse_manifest man = Some (Inr pm)" and sha: "\<And>x. length (sha256 x) = 32"
    and intact: "\<forall>a\<in>set (canonical_pack_order (pm_manifest pm)). intact sha256 be a"
    and lens: "\<And>p opened c. open_asset be p = Inr opened \<Longrightarrow> read_all [] (oa_reader opened) = Inr c \<Longrightarrow> oa_len opened = length c"
    and sum: "sum_list (map (\<lambda>a. asset_len be (fst a)) (canonical_pack_order (pm_manifest pm))) \<le> MAX_TOTAL_BYTES"
  shows "\<exists>cs. packable sha256 (bundle_source be man (pm_manifest pm)) cs"
proof -
  define as where "as = canonical_pack_order (pm_manifest pm)"
  define content where "content a = (case open_asset be (fst a) of Inl _ \<Rightarrow> []
    | Inr opened \<Rightarrow> (case read_all [] (oa_reader opened) of Inl _ \<Rightarrow> [] | Inr c \<Rightarrow> c))" for a :: declared_asset
  have one: "\<exists>opened. open_asset be (fst a) = Inr opened \<and> oa_len opened = length (content a)
      \<and> read_all [] (oa_reader opened) = Inr (content a) \<and> length (content a) \<le> MAX_FILE_BYTES
      \<and> to_hex (sha256 (content a)) = snd a" if "a \<in> set as" for a
    using intact that lens unfolding as_def [symmetric] by (fastforce simp: intact_def content_def)
  have wf: "path_wf p" if "p \<in> fst ` set as" for p
    using parsed_paths_wf [OF pm] that canonical_paths(1) [of "pm_manifest pm"] by (simp add: as_def)
  have "manifest_wf (pm_manifest pm)"
    using pm by (elim parse_manifestD) (rule manifest_from_tree_wf)
  then have paths: "distinct (map fst as)" "length as \<le> MAX_MEMBERS"
    using canonical_paths [of "pm_manifest pm"] by (simp_all add: manifest_wf_def as_def limits)
  have "length man \<le> MAX_MANIFEST_LEN"
    using pm by (simp add: parse_manifest_def MAX_MANIFEST_LEN_def split: if_splits)
  moreover have "sum_list (map length (map content as)) \<le> MAX_TOTAL_BYTES"
  proof -
    have "asset_len be (fst a) = length (content a)" if "a \<in> set as" for a
      using one [OF that] by (auto simp: asset_len_def)
    then have "map (\<lambda>a. asset_len be (fst a)) as = map length (map content as)"
      by simp
    with sum show ?thesis
      unfolding as_def [symmetric] by metis
  qed
  moreover have "is_valid_sha256_hex (snd a)" if "a \<in> set as" for a
    using one [OF that] is_valid_to_hex [of "sha256 (content a)"] sha by (auto simp: DIGEST_LEN_def)
  moreover have "packed sha256 (bundle_source be man (pm_manifest pm)) \<lparr>pm_path = fst a, pm_sha256_hex = snd a\<rparr>
      (length (content a)) (content a)" if "a \<in> set as" for a
  proof -
    have "length (content a) < u64_limit"
      using one [OF that] by (auto simp: limits)
    then show ?thesis
      using one [OF that] copy_member_complete [of "[]" _ "content a"]
      by (auto simp: packed_def bundle_source_def)
  qed
  moreover have "ps_members (bundle_source be man (pm_manifest pm)) = map (\<lambda>a. \<lparr>pm_path = fst a, pm_sha256_hex = snd a\<rparr>) as"
    by (simp add: bundle_source_def as_def split_def)
  moreover have "ps_manifest (bundle_source be man (pm_manifest pm)) = man"
    "\<And>a. a \<in> set as \<Longrightarrow> ps_member_size (bundle_source be man (pm_manifest pm)) (fst a) = Inr (length (content a))"
    using one by (fastforce simp: bundle_source_def)+
  ultimately have "packable sha256 (bundle_source be man (pm_manifest pm)) (map content as)"
    using paths wf one path_wf_length
    by (simp add: packable_def list_all2_map1 list_all2_map2 list_all2_same comp_def) blast
  then show ?thesis ..
qed

lemma packable_bundle_packs:
  assumes "parse_manifest man = Some (Inr pm)" and "is_ok (verify sha256 (pm_manifest pm) be)"
    and "packable sha256 (bundle_source be man (pm_manifest pm)) cs"
  shows "\<exists>out. pack_bundle sha256 be man (Inr man) = Some (Inr out)"
proof -
  obtain out where "write_mpak sha256 (bundle_source be man (pm_manifest pm)) = Inr out"
    using packable_write_mpak [OF assms(3)] ..
  moreover have "validate_for_write (pm_manifest pm) = Inr ()"
    using assms(2) by (simp add: verify_ok)
  ultimately show ?thesis
    using assms(1,2) by (simp add: pack_bundle_def Let_def write_manifest_def and_then_Inr)
qed


section \<open>Sample packages\<close>

text \<open>Printed text has no NUL byte.\<close>

lemma HEX_DIGITS_nonzero: "\<forall>i\<in>set [0..<16]. HEX_DIGITS ! i \<noteq> 0"
  by (simp add: upt_rec HEX_DIGITS_def lit_def)

lemma escape_byte_nonzero: "0 \<notin> set (escape_byte c)"
proof -
  have "HEX_DIGITS ! i \<noteq> 0" if "i < 16" for i
    using HEX_DIGITS_nonzero that by simp
  moreover have "unat c div 16 < 16" "unat c mod 16 < 16"
    using unsigned_less [of c, where ?'a = nat] by (simp_all add: less_mult_imp_div_less)
  ultimately show ?thesis
    by (auto simp: escape_byte_def eq_commute [of 0])
qed

lemma number_byte_nonzero: "is_number_byte b \<Longrightarrow> b \<noteq> 0"
  by (auto simp: is_number_byte_def is_ascii_digit_def)

lemma printed_no_nul:
  "numbers_stable v \<Longrightarrow> 0 \<notin> set (print_value ind v)"
  "\<forall>v\<in>set items. numbers_stable v \<Longrightarrow> 0 \<notin> set (print_items ind items)"
  "\<forall>kv\<in>set kvs. numbers_stable (snd kv) \<Longrightarrow> 0 \<notin> set (print_members ind kvs)"
proof (induction ind v and ind items and ind kvs rule: print_value_print_items_print_members.induct)
  case (3 depth n)
  then show ?case
    by (auto simp: number_stable_def Let_def list_all_iff dest: number_byte_nonzero)
qed (auto simp: print_string_def escape_byte_nonzero lit_def LF_def print_indent_def)

text \<open>A bundle of one track.\<close>

definition bundle_sha256 :: "bytes \<Rightarrow> bytes" where
  "bundle_sha256 bs = replicate 32 0xaa"

definition sample_bundle :: backend where
  "sample_bundle = \<lparr>open_asset = (\<lambda>p. if p = lit ''a.mpc'' then Inr \<lparr>oa_len = 3, oa_reader = [Inr [1, 2], Inr [3]]\<rparr>
       else Inl MissingObject),
     object_id_of = (\<lambda>_. None), list_files = [lit ''a.mpc''], meta_files = [], verify_extra = (\<lambda>_. [])\<rparr>"

definition sample_text :: bytes where
  "sample_text = print_canonical sample_document"

definition sample_stat :: file_stat where
  "sample_stat = \<lparr>fs_symlink = False, fs_regular = True, fs_directory = False, fs_nlink = 1,
     fs_len = length sample_text, fs_identity = \<lparr>oid_device = 1, oid_inode = 2\<rparr>\<rparr>"

lemma sample_order: "canonical_pack_order sample_manifest = [(lit ''a.mpc'', Manifest_Properties.sample_sha256)]"
  by (simp add: canonical_pack_order_def all_tracks_def shared_assets_def sample_manifest_def sample_track_def asset_pair_def)

lemma sample_digest: "to_hex (bundle_sha256 c) = Manifest_Properties.sample_sha256"
  unfolding bundle_sha256_def Manifest_Properties.sample_sha256_def by code_simp

lemma sample_intact: "intact bundle_sha256 sample_bundle (lit ''a.mpc'', Manifest_Properties.sample_sha256)"
  by (simp add: intact_def sample_bundle_def sample_digest limits)

lemma sample_bundle_ok: "is_ok (verify bundle_sha256 sample_manifest sample_bundle)"
proof -
  have "package_run sample_manifest = [(''track'', lit ''a.mpc'', Manifest_Properties.sample_sha256)]"
    by (simp add: package_run_def all_tracks_def track_run_def sample_manifest_def sample_track_def asset_pair_def)
  moreover have "asset_len sample_bundle (lit ''a.mpc'') = 3"
    by (simp add: asset_len_def sample_bundle_def)
  ultimately have "fst (run_assets bundle_sha256 sample_bundle (package_run sample_manifest) (Some budget_empty)) = []"
    using sample_intact by (intro run_complete) (simp_all add: sample_bundle_def budget_empty_def limits)
  moreover have "validate_for_write sample_manifest = Inr ()"
    using manifest_from_built_tree [OF sample_manifest_wf sample_artists] by (simp add: validate_for_write_def)
  moreover have "\<forall>t\<in>set (all_tracks sample_manifest). is_ok (verify_waveform bundle_sha256 sample_bundle t)"
    by (simp add: all_tracks_def sample_manifest_def sample_track_def verify_waveform_def)
  moreover have "is_ok (verify_extra sample_bundle sample_manifest)"
    by (simp add: sample_bundle_def)
  ultimately show ?thesis
    by (simp add: verify_ok)
qed

lemma sample_hardened: "read_manifest_hardened (Some sample_stat) (Some (Inr sample_stat)) (Inr sample_text) = Inr sample_text"
  using sample_document_length printed_no_nul(1) [OF sample_document_stable, of 0]
  by (simp add: read_manifest_hardened_def sample_stat_def sample_text_def print_canonical_def LF_def)

lemma sample_text_parsed: "parse_manifest sample_text = Some (Inr \<lparr>pm_manifest = sample_manifest, pm_original = sample_document\<rparr>)"
  unfolding sample_text_def by (rule sample_parsed)

lemma length_bundle_sha256: "length (bundle_sha256 x) = 32"
  by (simp add: bundle_sha256_def)

lemma sample_lengths:
  "open_asset sample_bundle p = Inr opened \<Longrightarrow> read_all [] (oa_reader opened) = Inr c \<Longrightarrow> oa_len opened = length c"
  "sum_list (map (\<lambda>a. asset_len sample_bundle (fst a)) (canonical_pack_order sample_manifest)) \<le> MAX_TOTAL_BYTES"
  by (auto simp: sample_order asset_len_def limits) (auto simp: sample_bundle_def split: if_splits)

lemma sample_bundle_packs: "\<exists>out. pack_bundle bundle_sha256 sample_bundle sample_text (Inr sample_text) = Some (Inr out)"
proof -
  have "\<exists>cs. packable bundle_sha256 (bundle_source sample_bundle sample_text
      (pm_manifest \<lparr>pm_manifest = sample_manifest, pm_original = sample_document\<rparr>)) cs"
    by (rule bundle_packable [OF sample_text_parsed length_bundle_sha256])
      (use sample_lengths sample_intact in \<open>simp_all add: sample_order\<close>)
  then show ?thesis
    using packable_bundle_packs [OF sample_text_parsed] sample_bundle_ok by auto
qed


theorem pack_bundle_verifies_witness:
  "\<exists>out mb. pack_bundle bundle_sha256 sample_bundle sample_text (Inr sample_text) = Some (Inr out)
     \<and> mpak_open (memory_source out) = Inr mb \<and> mpak_read_member mb (lit ''a.mpc'') MAX_FILE_BYTES = Inr [1, 2, 3]"
proof -
  obtain out where out: "pack_bundle bundle_sha256 sample_bundle sample_text (Inr sample_text) = Some (Inr out)"
    using sample_bundle_packs ..
  from pack_bundle_verifies [OF sample_hardened out length_bundle_sha256] sample_text_parsed
  show ?thesis
    using out by (auto simp: sample_order) (auto simp: sample_bundle_def)
qed

theorem verified_container_intact_witness:
  "\<exists>out r m. scan (memory_source out) False = Inr r \<and> m \<in> set (members r) \<and> m_path m = lit ''a.mpc''
     \<and> to_hex (bundle_sha256 (slice out (m_offset m) (m_offset m + m_length m))) = Manifest_Properties.sample_sha256"
proof -
  let ?pm = "\<lparr>pm_manifest = sample_manifest, pm_original = sample_document\<rparr>"
  obtain out where "pack_bundle bundle_sha256 sample_bundle sample_text (Inr sample_text) = Some (Inr out)"
    using sample_bundle_packs ..
  then have "write_mpak bundle_sha256 (bundle_source sample_bundle sample_text (pm_manifest ?pm)) = Inr out"
    by (rule pack_bundleD) (simp add: sample_text_parsed)
  moreover have "0 \<notin> set sample_text"
    using sample_hardened by (rule read_manifest_hardened_clean [THEN conjunct2])
  ultimately obtain mb where mb: "mpak_open (memory_source out) = Inr mb" "mb_manifest mb = sample_text"
    "is_ok (verify bundle_sha256 (pm_manifest ?pm) (mpak_as_backend bundle_sha256 mb))" "length out < u64_limit"
    using packed_bundle_opens [OF sample_text_parsed, of bundle_sha256 sample_bundle out] length_bundle_sha256 sample_bundle_ok
    by simp blast
  have "verify_mpak bundle_sha256 (memory_source out)
      = Some (Inr (verify bundle_sha256 (pm_manifest ?pm) (mpak_as_backend bundle_sha256 mb)))"
    using verify_mpak_opened [OF mb(1)] mb(2) sample_text_parsed by simp
  from verified_container_intact [OF this mb(3,4)] obtain r man pm where r: "scan (memory_source out) False = Inr r"
    "Mpak_Read.manifest r = Some man" "parse_manifest man = Some (Inr pm)"
    "\<forall>(p, h)\<in>set (canonical_pack_order (pm_manifest pm)). \<exists>m\<in>set (members r). m_path m = p
       \<and> m_offset m + m_length m \<le> length out
       \<and> to_hex (bundle_sha256 (slice out (m_offset m) (m_offset m + m_length m))) = h"
    by blast
  have "man = sample_text"
    using mb(1,2) r(1,2) by (auto simp: mpak_open_def split: if_splits)
  then have "canonical_pack_order (pm_manifest pm) = [(lit ''a.mpc'', Manifest_Properties.sample_sha256)]"
    using r(3) sample_text_parsed sample_order by force
  with r(1,4) show ?thesis by auto
qed

section \<open>Two paths to one object\<close>







end
