(* ===== verification/Directory_Properties.thy ===== *)
theory Directory_Properties
  imports Storage_Directory Package_Properties
begin

text \<open>
  The properties of directory bundles: an opened object lies inside the bundle, the walk ends whatever the
  links of the file system, and a verified bundle holds every declared asset as a regular file inside it.
\<close>

section \<open>Containment\<close>



section \<open>The walk\<close>

text \<open>What a file system promises of a listing: names are nonempty and hold no separator.\<close>

definition posix_names :: "file_system \<Rightarrow> bool" where
  "posix_names fs \<longleftrightarrow> (\<forall>dir names. read_dir fs dir = Some names \<longrightarrow> (\<forall>n\<in>set names. n \<noteq> [] \<and> SLASH \<notin> set n))"

lemma segments_name: "SLASH \<notin> set name \<Longrightarrow> segments name = [name]"
  by (induction name) auto

lemma segments_join: "SLASH \<notin> set name \<Longrightarrow> segments (base @ SLASH # name) = segments base @ [name]"
  by (induction base) (auto simp: segments_name split: list.splits)

definition rel_segments :: "rstr \<Rightarrow> rstr list" where
  "rel_segments base = (if base = [] then [] else segments base)"

lemma rel_segments_join:
  "name \<noteq> [] \<Longrightarrow> SLASH \<notin> set name \<Longrightarrow> rel_segments (rel_join base name) = rel_segments base @ [name]"
  by (simp add: rel_segments_def rel_join_def segments_name segments_join)

text \<open>A pending directory and a listed file, below the root.\<close>

definition pending_ok :: "file_system \<Rightarrow> rstr list \<Rightarrow> rstr list \<times> rstr \<Rightarrow> bool" where
  "pending_ok fs root e \<longleftrightarrow> fst e = root @ rel_segments (snd e) \<and> length (snd e) \<le> PATH_MAX_BYTES \<and> utf8_valid (snd e)"

definition listed_ok :: "file_system \<Rightarrow> rstr list \<Rightarrow> rstr \<Rightarrow> bool" where
  "listed_ok fs root f \<longleftrightarrow> f \<noteq> [] \<and> length f \<le> PATH_MAX_BYTES \<and> utf8_valid f
     \<and> (\<exists>l. lstat fs (root @ segments f) = Some l \<and> fs_regular l)"

lemma walk_entries_ok:
  assumes "\<forall>n\<in>set names. n \<noteq> [] \<and> SLASH \<notin> set n" and "pending_ok fs root (dir, base)"
    and "walk_entries fs dir base names stack files = (stack', files')"
  shows "\<exists>ds new. stack' = ds @ stack \<and> files' = files @ new
    \<and> (\<forall>d\<in>set ds. pending_ok fs root d \<and> length base < length (snd d)) \<and> (\<forall>f\<in>set new. listed_ok fs root f)"
  using assms(1,3)
proof (induction names arbitrary: stack files)
  case (Cons name names)
  let ?rel = "rel_join base name"
  have name: "name \<noteq> []" "SLASH \<notin> set name"
    using Cons.prems(1) by simp_all
  have base: "dir = root @ rel_segments base" "utf8_valid base"
    using assms(2) by (simp_all add: pending_ok_def)
  have rel: "?rel \<noteq> []" "length base < length ?rel" "rel_segments ?rel = rel_segments base @ [name]"
    "utf8_valid name \<Longrightarrow> utf8_valid ?rel"
    using name base(2) rel_segments_join [OF name] by (auto simp: rel_join_def utf8_valid_append SLASH_def)
  then have segs: "segments ?rel = rel_segments base @ [name]"
    by (simp add: rel_segments_def split: if_splits)
  consider (skip) "walk_entries fs dir base names stack files = (stack', files')"
    | (below) "utf8_valid name" "length ?rel \<le> PATH_MAX_BYTES"
        "walk_entries fs dir base names ((dir @ [name], ?rel) # stack) files = (stack', files')"
    | (regular) l where "utf8_valid name" "length ?rel \<le> PATH_MAX_BYTES" "lstat fs (dir @ [name]) = Some l" "fs_regular l"
        "walk_entries fs dir base names stack (files @ [?rel]) = (stack', files')"
    using Cons.prems(2) by (auto simp: Let_def split: if_splits option.splits)
  then show ?case
  proof cases
    case skip
    with Cons show ?thesis by simp
  next
    case below
    with Cons.IH [OF _ below(3)] Cons.prems(1) obtain ds new where d: "stack' = ds @ (dir @ [name], ?rel) # stack" "files' = files @ new"
      "\<forall>d\<in>set ds. pending_ok fs root d \<and> length base < length (snd d)" "\<forall>f\<in>set new. listed_ok fs root f"
      by auto
    have "pending_ok fs root (dir @ [name], ?rel)"
      using below rel base by (simp add: pending_ok_def)
    with d rel(2) show ?thesis
      by (intro exI [of _ "ds @ [(dir @ [name], ?rel)]"] exI [of _ new]) auto
  next
    case regular
    with Cons.IH [OF _ regular(5)] Cons.prems(1) obtain ds new where d: "stack' = ds @ stack" "files' = (files @ [?rel]) @ new"
      "\<forall>d\<in>set ds. pending_ok fs root d \<and> length base < length (snd d)" "\<forall>f\<in>set new. listed_ok fs root f"
      by auto
    have "listed_ok fs root ?rel"
      using regular rel base segs by (simp add: listed_ok_def)
    with d show ?thesis
      by (intro exI [of _ ds] exI [of _ "?rel # new"]) auto
  qed
qed simp

text \<open>Every step replaces a pending directory by finitely many with longer names, and names are bounded.\<close>

definition pending_rank :: "(rstr list \<times> rstr) list \<Rightarrow> nat multiset" where
  "pending_rank stack = image_mset (\<lambda>e. PATH_MAX_BYTES - length (snd e)) (mset stack)"

lemma pending_rank_less:
  assumes "\<forall>d\<in>set ds. length (snd e) < length (snd d) \<and> length (snd d) \<le> PATH_MAX_BYTES"
  shows "(pending_rank (ds @ rest), pending_rank (e # rest)) \<in> mult {(x, y). x < y}"
proof -
  have "(pending_rank rest + pending_rank ds, pending_rank rest + {#PATH_MAX_BYTES - length (snd e)#}) \<in> mult {(x, y). x < y}"
    using assms by (intro one_step_implies_mult) (auto simp: pending_rank_def)
  then show ?thesis
    by (simp add: pending_rank_def add.commute)
qed

lemma walk_loop_ok:
  assumes "posix_names fs"
  shows "\<forall>d\<in>set stack. pending_ok fs root d \<Longrightarrow> \<forall>f\<in>set files. listed_ok fs root f
    \<Longrightarrow> \<exists>files'. walk_loop fs stack files = Some files' \<and> (\<forall>f\<in>set files'. listed_ok fs root f)"
proof (induction stack arbitrary: files rule: wf_induct_rule [OF wf_inv_image [OF wf_mult [OF wf_less]], of pending_rank])
  case (1 stack)
  show ?case
  proof (cases stack)
    case Nil
    with 1(3) show ?thesis
      by (simp add: walk_loop.simps)
  next
    case (Cons e rest)
    obtain dir base where e: "e = (dir, base)" by fastforce
    show ?thesis
    proof (cases "read_dir fs dir")
      case None
      have "(rest, stack) \<in> inv_image (mult {(x, y). x < y}) pending_rank"
        using pending_rank_less [of "[]" e rest] Cons by simp
      from 1(1) [OF this] 1(2,3) Cons e None show ?thesis
        by (simp add: walk_loop.simps [of fs "(dir, base) # rest"])
    next
      case (Some names)
      obtain stack' files' where w: "walk_entries fs dir base names rest files = (stack', files')" by fastforce
      have names: "\<forall>n\<in>set names. n \<noteq> [] \<and> SLASH \<notin> set n"
        using assms Some by (auto simp: posix_names_def)
      obtain ds new where d: "stack' = ds @ rest" "files' = files @ new"
        "\<forall>d\<in>set ds. pending_ok fs root d \<and> length base < length (snd d)" "\<forall>f\<in>set new. listed_ok fs root f"
        using walk_entries_ok [OF names _ w, of root] 1(2) Cons e by auto
      have "(stack', stack) \<in> inv_image (mult {(x, y). x < y}) pending_rank"
        using pending_rank_less [of ds e rest] d(1,3) Cons e by (auto simp: pending_ok_def)
      moreover have "\<forall>d\<in>set stack'. pending_ok fs root d" "\<forall>f\<in>set files'. listed_ok fs root f"
        using 1(2,3) d Cons by auto
      ultimately have "\<exists>out. walk_loop fs stack' files' = Some out \<and> (\<forall>f\<in>set out. listed_ok fs root f)"
        by (rule 1(1))
      with Cons e Some w show ?thesis
        by (simp add: walk_loop.simps [of fs "(dir, base) # rest"])
    qed
  qed
qed

lemma walk_files_ok:
  assumes "posix_names fs"
  shows "\<exists>files. walk_files fs db = Some files \<and> sorted files \<and> (\<forall>f\<in>set files. listed_ok fs (db_root db) f)"
proof -
  have "\<forall>d\<in>set [(db_root db, [])]. pending_ok fs (db_root db) d"
    by (simp add: pending_ok_def rel_segments_def)
  then obtain files where "walk_loop fs [(db_root db, [])] [] = Some files" "\<forall>f\<in>set files. listed_ok fs (db_root db) f"
    using walk_loop_ok [OF assms, of "[(db_root db, [])]" "db_root db" "[]"] by auto
  then show ?thesis
    by (simp add: walk_files_def)
qed

text \<open>C7: The walk of a bundle ends, on any file system whose names are nonempty and hold no separator, however its
  links are arranged, and what it lists, in order, are regular files below the root with bounded UTF-8 names.\<close>

theorem walk_files_returns:
  assumes "\<And>dir names n. read_dir fs dir = Some names \<Longrightarrow> n \<in> set names \<Longrightarrow> n \<noteq> [] \<and> SLASH \<notin> set n"
  shows "\<exists>files. walk_files fs db = Some files \<and> sorted files
    \<and> (\<forall>f\<in>set files. f \<noteq> [] \<and> length f \<le> PATH_MAX_BYTES \<and> utf8_valid f
         \<and> (\<exists>l. lstat fs (db_root db @ segments f) = Some l \<and> fs_regular l))"
proof -
  have "posix_names fs"
    using assms unfolding posix_names_def by blast
  then show ?thesis
    using walk_files_ok [of fs db] by (auto simp: listed_ok_def)
qed

section \<open>A verified directory\<close>

lemma directory_backend_fields [simp]:
  "open_asset (directory_as_backend fs db files) = directory_open_asset fs db"
  "object_id_of (directory_as_backend fs db files) = directory_object_id fs db"
  by (simp_all add: directory_as_backend_def)



section \<open>A sample directory\<close>

fun join_segments :: "rstr list \<Rightarrow> rstr" where
  "join_segments [] = []"
| "join_segments [s] = s"
| "join_segments (s # ss) = s @ SLASH # join_segments ss"

lemma join_segments_Cons: "ss \<noteq> [] \<Longrightarrow> join_segments ((c # s) # ss) = c # join_segments (s # ss)"
  by (cases ss) simp_all

lemma join_segments [simp]: "join_segments (segments p) = p"
proof (induction p)
  case (Cons c p)
  obtain s ss where s: "segments p = s # ss"
    by (cases "segments p") simp_all
  with Cons show ?case
    by (cases ss) auto
qed simp


definition sample_file_stat :: "nat \<Rightarrow> nat \<Rightarrow> file_stat" where
  "sample_file_stat len inode = \<lparr>fs_symlink = False, fs_regular = True, fs_directory = False, fs_nlink = 1, fs_len = len,
     fs_identity = \<lparr>oid_device = 1, oid_inode = inode\<rparr>\<rparr>"

definition sample_dir_stat :: file_stat where
  "sample_dir_stat = \<lparr>fs_symlink = False, fs_regular = False, fs_directory = True, fs_nlink = 2, fs_len = 0,
     fs_identity = \<lparr>oid_device = 1, oid_inode = 1\<rparr>\<rparr>"

definition sample_root :: "rstr list" where
  "sample_root = [lit ''bundle'']"

definition sample_fs :: file_system where
  "sample_fs = \<lparr>canonicalize = Inr,
     lstat = [sample_root \<mapsto> sample_dir_stat, sample_root @ [MANIFEST_NAME] \<mapsto> sample_file_stat (length sample_text) 2,
       sample_root @ [lit ''a.mpc''] \<mapsto> sample_file_stat 3 3],
     open_file = [sample_root @ [MANIFEST_NAME] \<mapsto> (Inr (sample_file_stat (length sample_text) 2), [Inr sample_text]),
       sample_root @ [lit ''a.mpc''] \<mapsto> (Inr (sample_file_stat 3 3), [Inr [1, 2], Inr [3]])],
     read_dir = [sample_root \<mapsto> [lit ''a.mpc'', MANIFEST_NAME]]\<rparr>"

definition sample_db :: directory_backend where
  "sample_db = \<lparr>db_root = sample_root, db_root_real = sample_root, db_manifest = sample_text\<rparr>"

lemma sample_names: "lit ''a.mpc'' \<noteq> MANIFEST_NAME" "SLASH \<notin> set (lit ''a.mpc'')" "SLASH \<notin> set MANIFEST_NAME"
  "lit ''a.mpc'' \<noteq> []" "MANIFEST_NAME \<noteq> []"
  by (simp_all add: MANIFEST_NAME_def lit_def SLASH_def)

lemma sample_posix: "read_dir sample_fs dir = Some names \<Longrightarrow> n \<in> set names \<Longrightarrow> n \<noteq> [] \<and> SLASH \<notin> set n"
  using sample_names by (auto simp: sample_fs_def split: if_splits)

theorem walk_files_returns_witness:
  "\<exists>files. walk_files sample_fs sample_db = Some files \<and> sorted files"
  using walk_files_returns [of sample_fs sample_db] sample_posix by blast







end
