(* ===== verification/Spec2Isabelle.thy ===== *)
theory Spec2Isabelle
  imports Mpak_Properties Queue_Properties Ring Lyrics_Properties Directory_Properties
begin

text \<open>
  A verification library for musicpack-core: the Rust library (\<open>src/\<close>) that describes an album as a package,
  a manifest and the files it names, keeps it as a directory or as an MPAK container, verifies it and plays it.

  \<^bold>\<open>The program\<close>. A manifest is JSON text. It is parsed to an ordered value (\<open>json.rs\<close>, numbers by
  \<open>format/number.rs\<close>), then strictly to the typed model (\<open>format/manifest/\<close>), whose asset paths obey
  \<open>format/path.rs\<close> and whose digests \<open>format/checksum.rs\<close>. The verifier (\<open>validation/mod.rs\<close>) asks a storage
  backend (\<open>storage/mod.rs\<close>) for every asset the manifest names: a directory (\<open>storage/directory.rs\<close>) or a
  scanned container (\<open>storage/mpak.rs\<close> over \<open>format/mpak/\<close>). The packer verifies a directory and writes the
  container. Independent of these are the playback queue (\<open>player/queue.rs\<close>, \<open>player/order.rs\<close>), the PCM ring
  buffer of the engine (\<open>crates/musicpack-engine/src/ring.rs\<close>) and the lyrics parser (\<open>lyrics/\<close>).

  \<^bold>\<open>The theories\<close>, in the order of their imports.
  \<^item> \<open>Prelude\<close>, \<open>Errors\<close>, \<open>Text\<close>, \<open>Utf8\<close>: bytes, slices, checked arithmetic, big-endian integers, UTF-8,
    \<open>src/error.rs\<close> and the limits of \<open>src/limits.rs\<close>; text operations of the standard library.
  \<^item> \<open>Paths\<close>, \<open>Checksums\<close>: the path rules, equal to rules over segments and shown to contain a path in its
    root; hexadecimal digests as a bijection with 32-byte strings.
  \<^item> \<open>Mpak_Format\<close>, \<open>Mpak_Read\<close>, \<open>Mpak_Write\<close>: framing, \<open>scan\<close> and member streams, \<open>write_mpak\<close>. The locale
    \<open>exact_source\<close> of \<open>Mpak_Format\<close> is the contract of a byte source, interpreted on \<open>memory_source\<close>;
    \<open>Mpak_Scan\<close> proves what a scan guarantees inside it. \<open>Mpak_Layout\<close>, \<open>Mpak_Roundtrip\<close>, \<open>Mpak_Pack\<close> give
    the writer its functional form and scan it back; \<open>Mpak_Complete\<close> says exactly when the writer succeeds;
    \<open>Mpak_Properties\<close> states the properties of containers.
  \<^item> \<open>F64\<close>, \<open>Number\<close>, \<open>Number_Properties\<close>: a double as its 64 bits with correctly rounded conversions, the
    bignum formatter, its exactness and its rounding.
  \<^item> \<open>Json\<close>, \<open>Json_Properties\<close>, \<open>Json_Roundtrip\<close>: value, parser and printer; the parser returns on every input,
    what it returns is clean and shallow, and printed values parse back.
  \<^item> \<open>Manifest\<close>, \<open>Manifest_Parse\<close>, \<open>Manifest_Tree\<close>: the model, one parser and one writer per section, and the
    document level. \<open>Manifest_Reparse\<close> has the well-formed records and one reparse lemma each, \<open>Manifest_Sound\<close>
    that parsing yields well-formed manifests, \<open>Manifest_Text\<close> the same through text; the properties are in
    \<open>Manifest_Properties\<close>.
  \<^item> \<open>Storage\<close>, \<open>Validation\<close>, \<open>Storage_Mpak\<close>, \<open>Storage_Directory\<close>: a backend as the record of its answers, the
    verifier as a fold that threads the budget, the container backend with its own findings, and directories
    over a file system; packing.
  \<^item> \<open>Verify_Sound\<close>: the traversal as one run over the assets, and the locale \<open>object_identity\<close> (two paths with
    one identity are one path), in which a report without errors means intact assets; \<open>Package\<close> interprets it on
    the container backend. \<open>Package_Verify\<close>, \<open>Package_Properties\<close> and \<open>Directory_Properties\<close> compose the
    components: what a verified container or directory holds, that a verified bundle packs, and that its
    container verifies and reads back the same bytes.
  \<^item> \<open>Queue\<close>, \<open>Queue_Properties\<close>: the queue and its history under every operation, for any random generator.
  \<^item> \<open>Ring\<close>: the ring buffer, refined to a bounded queue of frames (locale \<open>bounded_fifo\<close>).
  \<^item> \<open>Lyrics\<close>, \<open>Lyrics_Properties\<close>: the LRC parser and the active line.

  \<^bold>\<open>Conventions\<close>. A Rust \<open>Result\<close> is a sum with the error on the left. \<open>u8\<close>, \<open>u16\<close> checksums, bignum limbs and
  doubles are words; \<open>u64\<close> and \<open>usize\<close> lengths are naturals with every checked, saturating and limiting
  operation written out; a \<open>String\<close> is its UTF-8 bytes. A reader is the list of results of its reads. The
  outcome \<open>None\<close> stands for a computation that does not return: the JSON parser counts down a fuel of twice
  the length of the input plus a constant, which the termination property shows is never used up, and the
  directory walk is a partial function, shown to return on every file system.

  \<^bold>\<open>Parameters\<close>. SHA-256 (crate \<open>sha2\<close>) is a function; where it matters it is assumed to return 32 bytes. The
  random generator of the queue is any function of the draw number. The file system answers \<open>canonicalize\<close>,
  \<open>lstat\<close>, \<open>open\<close> and \<open>read_dir\<close> and does not change during a call; listings hold names that are nonempty and
  have no separator.

  \<^bold>\<open>Findings\<close>. A Play Next makes Previous return a track that was not the one before; shuffle with repeat-all
  repeats the last track; a manifest without album artists parses and can never be written; an overflowing
  number prints as text the parser rejects; and a declared digest goes unchecked when its path shares an
  object with an earlier one. Each is a theorem.

  \<^bold>\<open>Not modelled\<close>. The player facade, identity and representation policy, the Musepack container parsers and
  the request parsers of the server could be modelled the same way and are not yet. Decoders, the psychoacoustic encoder (most
  of whose lines are frozen tables), loudness, waveform accumulation, mixing and resampling are floating-point
  signal processing, some of it over transcendental functions whose rounding the language does not fix. The
  server, the authoring tools, the desktop application, the bindings and the command line are glue over
  third-party crates, files, threads and the network.
\<close>

end
